(* ===== verification/Prelude.thy ===== *)
theory Prelude
  imports Complex_Main "HOL-Library.Word" "HOL-Library.Multiset"
begin

text \<open>
  Prelude of the development: the types every component shares (bytes, the error results of
  the Go functions, the source of randomness) and the generic lemmas that carry the
  component proofs.
\<close>

unbundle bit_operations_syntax

section \<open>Collections of facts\<close>

text \<open>
  \<open>keeps\<close> collects, per operation, the parts of the state it leaves alone; \<open>invs\<close> the
  preservation lemmas of the component invariants.
\<close>

named_theorems keeps
named_theorems invs

section \<open>Bytes and byte strings\<close>

type_synonym byte = "8 word"
type_synonym bytes = "byte list"

text \<open>
  A Go string is a sequence of bytes, as is an Isabelle \<open>string\<close> of 8-bit characters:
  the conversion \<open>[]byte(s)\<close> of the source is \<open>bytes_of\<close>.
\<close>

definition bytes_of :: "string \<Rightarrow> bytes" where
  "bytes_of s = map of_char s"

lemma of_char_byte_inject [simp]: "(of_char c :: byte) = of_char d \<longleftrightarrow> c = d"
proof
  have u: "unat (of_char x :: byte) = of_char x" for x
  proof -
    have "(of_char x :: byte) = of_nat (of_char x)" by (simp only: of_nat_of_char)
    then have "unat (of_char x :: byte) = of_char x mod 256" by (simp add: unat_of_nat)
    then show ?thesis by simp
  qed
  assume "(of_char c :: byte) = of_char d"
  then have "unat (of_char c :: byte) = unat (of_char d :: byte)" by simp
  then show "c = d" by (simp add: u)
qed simp

lemma bytes_of_inject [simp]: "bytes_of s = bytes_of t \<longleftrightarrow> s = t"
  by (simp add: bytes_of_def inj_map_eq_map inj_on_def)

lemma length_bytes_of [simp]: "length (bytes_of s) = length s"
  by (simp add: bytes_of_def)

lemma bytes_of_append [simp]: "bytes_of (s @ t) = bytes_of s @ bytes_of t"
  by (simp add: bytes_of_def)

section \<open>Error results\<close>

text \<open>
  The \<open>(T, error)\<close> results of the Go functions are values of the sum type
  \<open>goerr + 'a\<close>. One constructor per \<open>errors.New\<close>/\<open>fmt.Errorf\<close> of the source that the
  model reaches, plus the failures of the standard library the source passes on. A panic is
  the value \<open>Panic\<close>: it ends the call with no result. Where the source wraps an error in a
  message (\<open>%w\<close>) the model keeps the wrapped error: no caller looks at the text.
\<close>

datatype goerr =
    Panic string
  | ErrRand
  | ErrThreshold | ErrSharesBelowThreshold | ErrTooManyShares | ErrEmptySecret
  | ErrTooFewShares | ErrMalformedShare | ErrShareLengths | ErrShareZero | ErrShareDuplicate
  | ErrKeySize | ErrShortCiphertext | ErrOpen | ErrHkdf | ErrScrypt | ErrRatchetInputs
  | ErrMkdir | ErrReadFile | ErrNotExist | ErrWriteFile | ErrJson
  | ErrSql | ErrNotFound | ErrUint64
  | ErrTransport | ErrStatus nat | ErrDecode
  | ErrTotal | ErrPeersReachable | ErrMeshPeers | ErrNoChain | ErrChainExhausted
  | ErrSharesAvailable | ErrDbPath | ErrX25519 | ErrNodeID

type_synonym 'a res = "goerr + 'a"

section \<open>Randomness\<close>

text \<open>
  \<open>crypto/rand\<close>: the \<open>k\<close>-th read of a run returns the bytes \<open>tape k 0\<close>, \<open>tape k 1\<close>, \<dots>,
  or an error where \<open>broken k\<close>. Both are arbitrary, so a theorem about every entropy is a
  theorem about every outcome of the generator.
\<close>

record entropy =
  tape :: "nat \<Rightarrow> nat \<Rightarrow> byte"
  broken :: "nat \<Rightarrow> bool"
  draws :: nat

definition rand_read :: "nat \<Rightarrow> entropy \<Rightarrow> bytes res \<times> entropy" where
  "rand_read n e =
     (if broken e (draws e) then Inl ErrRand
      else Inr (map (tape e (draws e)) [0..<n]),
      e\<lparr>draws := Suc (draws e)\<rparr>)"

lemma rand_read_Inr: "rand_read n e = (Inr bs, e') \<Longrightarrow>
    bs = map (tape e (draws e)) [0..<n] \<and> e' = e\<lparr>draws := Suc (draws e)\<rparr> \<and> \<not> broken e (draws e)"
  by (auto simp: rand_read_def split: if_splits)

lemma rand_read_length: "rand_read n e = (Inr bs, e') \<Longrightarrow> length bs = n"
  by (auto simp: rand_read_def split: if_splits)

section \<open>Unspecified orders\<close>

text \<open>
  The rows of a \<open>SELECT\<close> and the entries of a Go map come in no promised order. \<open>arrange ord xs\<close>
  sorts the positions of \<open>xs\<close> by an arbitrary \<open>ord\<close>: for every permutation of \<open>xs\<close> there is
  such an \<open>ord\<close>, and the result always is a permutation.
\<close>

definition arrange :: "(nat \<Rightarrow> nat) \<Rightarrow> 'r list \<Rightarrow> 'r list" where
  "arrange ord xs = map ((!) xs) (sort_key ord [0..<length xs])"

lemma mset_arrange [simp]: "mset (arrange ord xs) = mset xs"
proof -
  have "mset (arrange ord xs) = image_mset ((!) xs) (mset (sort_key ord [0..<length xs]))"
    by (simp add: arrange_def)
  also have "\<dots> = mset (map ((!) xs) [0..<length xs])" by (simp only: mset_sort mset_map)
  finally show ?thesis by (simp add: map_nth)
qed

lemma set_arrange [simp]: "set (arrange ord xs) = set xs"
  by (metis mset_arrange set_mset_mset)

lemma length_arrange [simp]: "length (arrange ord xs) = length xs"
  by (simp add: arrange_def)

lemma arrange_Nil [simp]: "arrange ord [] = []" by (simp add: arrange_def)

lemma arrange_Nil_iff [simp]: "arrange ord xs = [] \<longleftrightarrow> xs = []"
  by (metis length_0_conv length_arrange)

lemma arrange_single [simp]: "arrange ord [x] = [x]" by (simp add: arrange_def)

end
