(* ===== verification/Gf256.thy ===== *)
theory Gf256
  imports Prelude
begin

text \<open>
  The field GF(2^8) of \<open>crypto/gf256.go\<close>: the shift-and-add multiplication \<open>gfMulSlow\<close>, the
  exponent and logarithm tables its \<open>init\<close> builds from the generator 3, and the table-driven
  \<open>gfMul\<close> and \<open>gfDiv\<close>. The lemmas show that the byte operations form a field: \<open>gfMulSlow\<close>
  is bilinear over XOR, commutative and associative, 3 generates the multiplicative group,
  the tables are inverse to each other, and the table routines compute the field's product
  and quotient. The type \<open>gf\<close> is that field as an instance of the class \<open>field\<close>.
\<close>

section \<open>The routines of the source\<close>

text \<open>The loop body of \<open>gfMulSlow\<close> runs eight times on \<open>a\<close>, \<open>b\<close> and \<open>p\<close>.\<close>

fun gfMulSlow_loop :: "nat \<Rightarrow> byte \<Rightarrow> byte \<Rightarrow> byte \<Rightarrow> byte" where
  "gfMulSlow_loop 0 a b p = p"
| "gfMulSlow_loop (Suc n) a b p =
     (let p' = (if b AND 1 \<noteq> 0 then p XOR a else p);
          hiBitSet = a AND 0x80;
          a' = push_bit 1 a;
          a'' = (if hiBitSet \<noteq> 0 then a' XOR 0x1B else a')
      in gfMulSlow_loop n a'' (drop_bit 1 b) p')"

definition gfMulSlow :: "byte \<Rightarrow> byte \<Rightarrow> byte" where
  "gfMulSlow a b = gfMulSlow_loop 8 a b 0"

text \<open>\<open>init\<close>: round \<open>i\<close> stores the power \<open>x\<close> of the generator and its exponent.\<close>

fun init_loop :: "nat \<Rightarrow> nat \<Rightarrow> byte \<Rightarrow> bytes \<Rightarrow> bytes \<Rightarrow> bytes \<times> bytes" where
  "init_loop 0 i x et lt = (et, lt)"
| "init_loop (Suc n) i x et lt =
     init_loop n (Suc i) (gfMulSlow x 3) (et[i := x]) (lt[unat x := of_nat i])"

definition tables :: "bytes \<times> bytes" where
  "tables = init_loop 255 0 1 (replicate 255 0) (replicate 256 0)"

definition expTable :: bytes where "expTable = fst tables"

definition logTable :: bytes where "logTable = snd tables"

definition gfMul :: "byte \<Rightarrow> byte \<Rightarrow> byte" where
  "gfMul a b =
     (if a = 0 \<or> b = 0 then 0
      else let sum = unat (logTable ! unat a) + unat (logTable ! unat b);
               sum' = (if sum \<ge> 255 then sum - 255 else sum)
           in expTable ! sum')"

definition gfDiv :: "byte \<Rightarrow> byte \<Rightarrow> byte res" where
  "gfDiv a b =
     (if a = 0 then Inr 0
      else if b = 0 then Inl (Panic ''crypto: division by zero in GF(256)'')
      else let diff = int (unat (logTable ! unat a)) - int (unat (logTable ! unat b));
               diff' = (if diff < 0 then diff + 255 else diff)
           in Inr (expTable ! nat diff'))"

section \<open>Multiplication by the polynomial x\<close>

definition xtime :: "byte \<Rightarrow> byte" where
  "xtime a = (if bit a 7 then push_bit 1 a XOR 0x1B else push_bit 1 a)"

lemma and_0x80: "(a AND 0x80 \<noteq> 0) = bit a 7" for a :: byte
proof -
  have "(0x80 :: byte) = push_bit 7 1" by simp
  then show ?thesis by (metis and_exp_eq_0_iff_not_bit push_bit_of_1)
qed

lemma gfMulSlow_loop_Suc:
  "gfMulSlow_loop (Suc n) a b p =
     gfMulSlow_loop n (xtime a) (drop_bit 1 b) (if odd b then p XOR a else p)"
  by (simp add: xtime_def Let_def and_0x80 and_one_eq odd_iff_mod_2_eq_one)

declare gfMulSlow_loop.simps(2) [simp del]

text \<open>Unfolding for concrete operands.\<close>

lemma xtime_and: "xtime a = (if a AND 0x80 \<noteq> 0 then push_bit 1 a XOR 0x1B else push_bit 1 a)"
  by (simp add: xtime_def and_0x80)

lemma gfMulSlow_loop_and:
  "gfMulSlow_loop (Suc n) a b p =
     gfMulSlow_loop n (xtime a) (drop_bit 1 b) (if b AND 1 \<noteq> 0 then p XOR a else p)"
  by (simp add: gfMulSlow_loop_Suc and_one_eq odd_iff_mod_2_eq_one)

lemma gfMulSlow_Suc8:
  "gfMulSlow a b = gfMulSlow_loop (Suc (Suc (Suc (Suc (Suc (Suc (Suc (Suc 0)))))))) a b 0"
  by (simp add: gfMulSlow_def eval_nat_numeral)

lemmas gfMulSlow_eval = gfMulSlow_Suc8 gfMulSlow_loop_and gfMulSlow_loop.simps(1) xtime_and

lemma xtime_xor: "xtime (a XOR b) = xtime a XOR xtime b"
  by (simp add: xtime_def bit_xor_iff push_bit_xor xor.assoc xor.left_commute xor.commute)

lemma xtime_0 [simp]: "xtime 0 = 0"
  by (simp add: xtime_def)

lemma xtime_power: "k < 7 \<Longrightarrow> xtime (2 ^ k) = 2 * 2 ^ k"
  by (simp add: xtime_def bit_simps push_bit_eq_mult)

section \<open>Bilinearity\<close>

lemma loop_acc: "gfMulSlow_loop n a b p = p XOR gfMulSlow_loop n a b 0"
proof (induction n arbitrary: a b p)
  case (Suc n)
  show ?case
    using Suc.IH [of "xtime a" "drop_bit 1 b" "p XOR a"] Suc.IH [of "xtime a" "drop_bit 1 b" p]
      Suc.IH [of "xtime a" "drop_bit 1 b" a]
    by (simp add: gfMulSlow_loop_Suc xor.assoc)
qed simp

lemma loop_left: "gfMulSlow_loop n (a XOR a') b 0 = gfMulSlow_loop n a b 0 XOR gfMulSlow_loop n a' b 0"
proof (induction n arbitrary: a a' b)
  case (Suc n)
  show ?case
    using Suc.IH [of "xtime a" "xtime a'" "drop_bit 1 b"]
      loop_acc [of n "xtime a XOR xtime a'" "drop_bit 1 b" "a XOR a'"]
      loop_acc [of n "xtime a" "drop_bit 1 b" a] loop_acc [of n "xtime a'" "drop_bit 1 b" a']
    by (simp add: gfMulSlow_loop_Suc xtime_xor xor.assoc xor.left_commute)
qed simp

lemma loop_right:
  "gfMulSlow_loop n a (b XOR b') (p XOR p') = gfMulSlow_loop n a b p XOR gfMulSlow_loop n a b' p'"
proof (induction n arbitrary: a b b' p p')
  case (Suc n)
  show ?case
    by (auto simp: gfMulSlow_loop_Suc drop_bit_xor even_xor_iff xor.assoc xor.left_commute xor.commute
        simp flip: Suc.IH)
qed simp

lemma loop_xtime: "gfMulSlow_loop n (xtime a) b (xtime p) = xtime (gfMulSlow_loop n a b p)"
  by (induction n arbitrary: a b p) (simp_all add: gfMulSlow_loop_Suc flip: xtime_xor)

lemma mul_xor_left: "gfMulSlow (a XOR a') b = gfMulSlow a b XOR gfMulSlow a' b"
  using loop_left [of 8 a a' b] by (simp add: gfMulSlow_def)

lemma mul_xor_right: "gfMulSlow a (b XOR b') = gfMulSlow a b XOR gfMulSlow a b'"
  using loop_right [of 8 a b b' 0 0] by (simp add: gfMulSlow_def)

lemma mul_xtime_left: "gfMulSlow (xtime a) b = xtime (gfMulSlow a b)"
  using loop_xtime [of 8 a b 0] by (simp add: gfMulSlow_def)

lemma mul_0_left [simp]: "gfMulSlow 0 b = 0"
  using mul_xor_left [of 0 0 b] by simp

lemma mul_0_right [simp]: "gfMulSlow a 0 = 0"
  using mul_xor_right [of a 0 0] by simp

lemma mul_1_right [simp]: "gfMulSlow a 1 = a"
  by (simp add: gfMulSlow_Suc8 gfMulSlow_loop_Suc)

lemma take_bit_step:
  "(if odd (drop_bit k b) then take_bit k b XOR 2 ^ k else take_bit k b) = take_bit (Suc k) b"
  for b :: byte
  by (rule bit_word_eqI) (auto simp: bit_simps less_Suc_eq simp flip: bit_iff_odd_drop_bit)

lemma loop_one:
  "k + n \<le> 8 \<Longrightarrow> n = 0 \<or> a = 2 ^ k \<Longrightarrow>
   gfMulSlow_loop n a (drop_bit k b) (take_bit k b) = take_bit (k + n) b"
proof (induction n arbitrary: k a)
  case (Suc n)
  then have "n = 0 \<or> xtime a = 2 ^ Suc k" using xtime_power [of k] by (cases "k < 7") auto
  with Suc.IH [of "Suc k" "xtime a"] Suc.prems show ?case
    by (simp add: gfMulSlow_loop_Suc take_bit_step)
qed simp

lemma mul_1_left [simp]: "gfMulSlow 1 b = b"
proof -
  have "take_bit 8 b = b" using take_bit_length_eq [of b] by simp
  with loop_one [of 0 8 1 b] show ?thesis by (simp add: gfMulSlow_def)
qed

text \<open>Every byte is generated from 1 by \<open>xtime\<close> and XOR.\<close>

lemma byte_generate:
  assumes "P 0" "P 1" "\<And>x. P x \<Longrightarrow> P (xtime x)" "\<And>x y. P x \<Longrightarrow> P y \<Longrightarrow> P (x XOR y)"
  shows "P (b :: byte)"
proof -
  have "P a \<Longrightarrow> P p \<Longrightarrow> P (gfMulSlow_loop n a b p)" for n a b p
    by (induction n arbitrary: a b p) (auto simp: gfMulSlow_loop_Suc assms)
  from this [of 1 0 8 b] assms(1,2) show ?thesis
    by (simp flip: gfMulSlow_def)
qed

lemma mul_xtime_right: "gfMulSlow a (xtime b) = xtime (gfMulSlow a b)"
  by (induction a rule: byte_generate) (simp_all add: mul_xtime_left mul_xor_left xtime_xor)

lemmas mul_linear = mul_xor_left mul_xor_right mul_xtime_left mul_xtime_right

lemma mul_commute: "gfMulSlow a b = gfMulSlow b a"
  by (induction a rule: byte_generate) (simp_all add: mul_linear)

lemma mul_assoc: "gfMulSlow (gfMulSlow a b) c = gfMulSlow a (gfMulSlow b c)"
  by (induction a rule: byte_generate) (simp_all add: mul_linear)

section \<open>The field as a type\<close>

typedef gf = "UNIV :: byte set"
  morphisms byte_of gf_of by simp

setup_lifting type_definition_gf

lemma gf_of_eq_iff [simp]: "gf_of a = gf_of b \<longleftrightarrow> a = b"
  by (simp add: gf_of_inject)

lemma byte_of_gf_of [simp]: "byte_of (gf_of a) = a"
  by (simp add: gf_of_inverse)

lemma gf_of_byte_of [simp]: "gf_of (byte_of x) = x"
  by (rule byte_of_inverse)

instantiation gf :: comm_ring_1
begin

lift_definition zero_gf :: gf is 0 .
lift_definition one_gf :: gf is 1 .
lift_definition plus_gf :: "gf \<Rightarrow> gf \<Rightarrow> gf" is "(XOR)" .
lift_definition minus_gf :: "gf \<Rightarrow> gf \<Rightarrow> gf" is "(XOR)" .
lift_definition uminus_gf :: "gf \<Rightarrow> gf" is "\<lambda>x. x" .
lift_definition times_gf :: "gf \<Rightarrow> gf \<Rightarrow> gf" is gfMulSlow .

instance
proof
  fix a b c :: gf
  show "a + b + c = a + (b + c)" by transfer (rule xor.assoc)
  show "a + b = b + a" by transfer (rule xor.commute)
  show "0 + a = a" by transfer simp
  show "- a + a = 0" by transfer simp
  show "a - b = a + - b" by transfer simp
  show "a * b * c = a * (b * c)" by transfer (rule mul_assoc)
  show "a * b = b * a" by transfer (rule mul_commute)
  show "1 * a = a" by transfer simp
  show "(a + b) * c = a * c + b * c" by transfer (rule mul_xor_left)
  show "(0 :: gf) \<noteq> 1" by transfer simp
qed

end

lemma gf_add_self [simp]: "x + x = (0 :: gf)"
  by transfer simp

lemma gf_uminus [simp]: "- x = (x :: gf)"
  by transfer simp

lemma gf_minus: "x - y = x + (y :: gf)"
  by transfer simp

lemma card_gf: "card (UNIV :: gf set) = 256"
proof -
  have "bij_betw byte_of UNIV (UNIV :: byte set)"
    by (metis bij_betwI' byte_of_inject gf_of_inverse iso_tuple_UNIV_I)
  then have "card (UNIV :: gf set) = card (UNIV :: byte set)" by (rule bij_betw_same_card)
  then show ?thesis by (simp add: card_word)
qed

lemma finite_gf [simp]: "finite (A :: gf set)"
  by (rule finite_subset [of _ "UNIV :: gf set"]) (simp_all add: card_gf card_ge_0_finite)

section \<open>The generator\<close>

definition gen :: gf where "gen = gf_of 3"

lemma gf_of_mult: "gf_of a * gf_of b = gf_of (gfMulSlow a b)"
  by (simp add: times_gf.abs_eq)

lemma gen_powers:
  "gen ^ 15 = gf_of 0x35" "gen ^ 51 = gf_of 0x0C" "gen ^ 85 = gf_of 0xBD" "gen ^ 255 = 1"
proof -
  have 2: "gen * gen = gf_of 5" by (simp add: gen_def gf_of_mult gfMulSlow_eval)
  have 3: "gen ^ 3 = gf_of 15"
    by (simp add: power3_eq_cube 2, simp add: gen_def gf_of_mult gfMulSlow_eval)
  have 5: "gen ^ 5 = gf_of 51"
    using power_add [of gen 3 2] by (simp add: 3 power2_eq_square 2 gf_of_mult gfMulSlow_eval)
  have 10: "gen ^ 10 = gf_of 114"
    using power_add [of gen 5 5] by (simp add: 5 gf_of_mult gfMulSlow_eval)
  show 15: "gen ^ 15 = gf_of 0x35"
    using power_add [of gen 10 5] by (simp add: 5 10 gf_of_mult gfMulSlow_eval)
  have 17: "gen ^ 17 = gf_of 225"
    using power_add [of gen 15 2] by (simp add: 15 power2_eq_square 2 gf_of_mult gfMulSlow_eval)
  have 34: "gen ^ 34 = gf_of 92"
    using power_add [of gen 17 17] by (simp add: 17 gf_of_mult gfMulSlow_eval)
  show 51: "gen ^ 51 = gf_of 0x0C"
    using power_add [of gen 34 17] by (simp add: 17 34 gf_of_mult gfMulSlow_eval)
  show 85: "gen ^ 85 = gf_of 0xBD"
    using power_add [of gen 51 34] by (simp add: 51 34 gf_of_mult gfMulSlow_eval)
  have 170: "gen ^ 170 = gf_of 188"
    using power_add [of gen 85 85] by (simp add: 85 gf_of_mult gfMulSlow_eval)
  show "gen ^ 255 = 1"
    using power_add [of gen 170 85]
    by (simp add: 170 85 gf_of_mult gfMulSlow_eval one_gf.abs_eq)
qed

lemma gen_power_255 [simp]: "gen ^ 255 = 1"
  by (rule gen_powers)

lemma gen_power_mod: "gen ^ n = gen ^ (n mod 255)"
proof -
  have "gen ^ n = gen ^ (255 * (n div 255) + n mod 255)" by simp
  also have "\<dots> = (gen ^ 255) ^ (n div 255) * gen ^ (n mod 255)"
    by (simp only: power_add power_mult)
  finally show ?thesis by simp
qed

lemma gen_power_inverse: "i \<le> 255 \<Longrightarrow> gen ^ (255 - i) * gen ^ i = 1"
  by (simp flip: power_add)

lemma gen_power_cancel:
  assumes "gen ^ i * x = gen ^ i * y" "i \<le> 255" shows "x = y"
proof -
  have "gen ^ (255 - i) * (gen ^ i * x) = gen ^ (255 - i) * (gen ^ i * y)"
    using assms(1) by simp
  then show ?thesis using gen_power_inverse [OF assms(2)] by (simp flip: mult.assoc)
qed

text \<open>
  The order of the generator divides 255; if it were a proper divisor it would divide one of
  15, 51 and 85, whose powers are not 1.
\<close>

lemma power_eq_1_gcd:
  assumes "gen ^ a = 1" "gen ^ b = 1" shows "gen ^ gcd a b = 1"
  using assms
proof (induction a b rule: gcd_nat_induct)
  case (step m n)
  have "gen ^ m = gen ^ (n * (m div n) + m mod n)" by simp
  also have "\<dots> = (gen ^ n) ^ (m div n) * gen ^ (m mod n)" by (simp only: power_add power_mult)
  finally have "gen ^ (m mod n) = 1" using step.prems by simp
  with step show ?case by (metis gcd_red_nat)
qed simp

lemma upto15: "(n::nat) \<le> 15 \<Longrightarrow> n \<in> {0,1,2,3,4,5,6,7,8,9,10,11,12,13,14,15}"
  by (simp add: numeral_eq_Suc le_Suc_eq)
lemma proper_divisors_255: 
  assumes "d dvd 255" "d < 255" shows "d dvd 15 \<or> d dvd 51 \<or> d dvd (85 :: nat)"
proof -
  obtain k where k: "255 = d * k" using assms(1) by (rule dvdE)
  have "d \<le> 15 \<or> k \<le> 15"
  proof (rule ccontr)
    assume "\<not> ?thesis"
    then have "16 * 16 \<le> d * k" by (intro mult_le_mono) auto
    then show False using k by simp
  qed
  then show ?thesis
  proof
    assume "d \<le> 15"
    from upto15 [OF this] assms show ?thesis by auto
  next
    assume "k \<le> 15"
    have "d = 255 div k" using k nonzero_mult_div_cancel_right [of k d] by (cases "k = 0") simp_all
    with upto15 [OF \<open>k \<le> 15\<close>] k assms(2) show ?thesis by (elim insertE) simp_all
  qed
qed

lemma gen_power_1:
  assumes "0 < d" "d < 255" shows "gen ^ d \<noteq> 1"
proof
  assume "gen ^ d = 1"
  define g where "g = gcd d 255"
  have g: "gen ^ g = 1" "g dvd 255" "1 \<le> g" "g < 255"
    using power_eq_1_gcd [OF \<open>gen ^ d = 1\<close> gen_power_255] assms
    by (auto simp: g_def Suc_leI gcd_pos_nat intro: le_less_trans [OF gcd_le1_nat])
  have "gen ^ (g * k) = 1" for k
    using g(1) by (simp add: power_mult)
  then have "g dvd n \<Longrightarrow> gen ^ n = 1" for n by (auto elim!: dvdE)
  moreover have "g dvd 15 \<or> g dvd 51 \<or> g dvd 85"
    using proper_divisors_255 g by simp
  ultimately have "gen ^ 15 = 1 \<or> gen ^ 51 = 1 \<or> gen ^ 85 = 1" by blast
  then show False by (simp add: gen_powers one_gf.abs_eq)
qed

lemma gen_power_inj: "inj_on (\<lambda>i. gen ^ i) {..<255}"
proof (rule linorder_inj_onI)
  fix i j :: nat
  assume "i < j" "i \<in> {..<255}" "j \<in> {..<255}"
  then have "gen ^ (j - i) \<noteq> 1" by (intro gen_power_1) auto
  moreover have "gen ^ i * gen ^ (j - i) = gen ^ j" using \<open>i < j\<close> by (simp flip: power_add)
  ultimately show "gen ^ i \<noteq> gen ^ j"
    using gen_power_cancel [of i 1 "gen ^ (j - i)"] \<open>i \<in> {..<255}\<close> by (metis lessThan_iff less_imp_le mult_1_right)
qed auto

lemma gen_power_nonzero [simp]: "gen ^ i \<noteq> 0"
proof
  assume "gen ^ i = 0"
  then have "(gen ^ i) ^ 255 = 0" by simp
  moreover have "(gen ^ i) ^ 255 = 1" by (simp add: power_commutes power_mult [symmetric] mult.commute [of i], simp add: power_mult)
  ultimately show False by simp
qed

text \<open>255 distinct powers fill the nonzero elements.\<close>

lemma gen_power_range: "(\<lambda>i. gen ^ i) ` {..<255} = UNIV - {0}"
proof (rule card_subset_eq)
  show "card ((\<lambda>i. gen ^ i) ` {..<255}) = card (UNIV - {0 :: gf})"
    by (simp add: card_image [OF gen_power_inj] card_gf)
qed auto

lemma gen_power_ex: "x \<noteq> 0 \<Longrightarrow> \<exists>i<255. x = gen ^ i"
proof -
  assume "x \<noteq> 0"
  then have "x \<in> (\<lambda>i. gen ^ i) ` {..<255}" by (simp add: gen_power_range)
  then show ?thesis by auto
qed

section \<open>The tables\<close>

lemma init_loop_invariant:
  assumes "i + n \<le> 255" "x = byte_of (gen ^ i)" "length et = 255" "length lt = 256"
    "\<forall>j<i. et ! j = byte_of (gen ^ j) \<and> lt ! unat (byte_of (gen ^ j)) = of_nat j"
    "init_loop n i x et lt = (et', lt')"
  shows "length et' = 255 \<and> length lt' = 256 \<and>
    (\<forall>j < i + n. et' ! j = byte_of (gen ^ j) \<and> lt' ! unat (byte_of (gen ^ j)) = of_nat j)"
  using assms
proof (induction n arbitrary: i x et lt)
  case (Suc n)
  let ?x = "byte_of (gen ^ i)"
  have next_x: "gfMulSlow x 3 = byte_of (gen ^ Suc i)"
    using Suc.prems(2) by (simp add: gen_def times_gf.rep_eq mul_commute [of _ 3])
  have bnd: "unat (b :: byte) < 256" for b
    using unsigned_less [of b] by simp
  have other: "unat ?x \<noteq> unat (byte_of (gen ^ j))" if "j < i" for j
    using that Suc.prems(1) inj_onD [OF gen_power_inj, of j i]
    by (auto simp: byte_of_inject dest: unsigned_word_eqI)
  have "\<forall>j<Suc i. (et[i := x]) ! j = byte_of (gen ^ j) \<and>
      (lt[unat x := of_nat i]) ! unat (byte_of (gen ^ j)) = of_nat j"
  proof (intro allI impI)
    fix j assume "j < Suc i"
    then consider "j < i" | "j = i" by linarith
    then show "(et[i := x]) ! j = byte_of (gen ^ j) \<and>
      (lt[unat x := of_nat i]) ! unat (byte_of (gen ^ j)) = of_nat j"
      using Suc.prems other bnd by cases auto
  qed
  from Suc.IH [OF _ next_x _ _ this] Suc.prems show ?case by simp
qed simp

lemma tables_correct:
  "length expTable = 255" "length logTable = 256"
  "j < 255 \<Longrightarrow> expTable ! j = byte_of (gen ^ j)"
  "j < 255 \<Longrightarrow> logTable ! unat (byte_of (gen ^ j)) = of_nat j"
proof -
  obtain et lt where t: "init_loop 255 0 1 (replicate 255 0) (replicate 256 0) = (et, lt)"
    by fastforce
  have "length et = 255 \<and> length lt = 256 \<and>
    (\<forall>j < 0 + 255. et ! j = byte_of (gen ^ j) \<and> lt ! unat (byte_of (gen ^ j)) = of_nat j)"
    by (rule init_loop_invariant [OF _ _ _ _ _ t]) (simp_all add: one_gf.rep_eq)
  then show "length expTable = 255" "length logTable = 256"
    "j < 255 \<Longrightarrow> expTable ! j = byte_of (gen ^ j)"
    "j < 255 \<Longrightarrow> logTable ! unat (byte_of (gen ^ j)) = of_nat j"
    by (simp_all add: expTable_def logTable_def tables_def t)
qed

lemma byte_of_eq_0 [simp]: "byte_of x = 0 \<longleftrightarrow> x = 0"
  by (metis byte_of_inverse zero_gf.abs_eq zero_gf.rep_eq)

lemma gf_of_eq_0 [simp]: "gf_of a = 0 \<longleftrightarrow> a = 0"
  by (simp add: zero_gf.abs_eq)

lemma gen_power_exhaust:
  assumes "a \<noteq> 0" obtains i where "i < 255" "a = byte_of (gen ^ i)" "logTable ! unat a = of_nat i"
proof -
  obtain i where "i < 255" "gf_of a = gen ^ i" using gen_power_ex [of "gf_of a"] assms by auto
  moreover from this(2) have "a = byte_of (gen ^ i)" by (metis byte_of_gf_of)
  ultimately show ?thesis using that tables_correct(4) by simp
qed

lemma unat_of_nat_byte: "i < 255 \<Longrightarrow> unat (of_nat i :: byte) = i"
  by (simp add: unat_of_nat)

text \<open>The table-driven product is the shift-and-add product.\<close>

theorem gfMul_slow: "gfMul a b = gfMulSlow a b"
proof (cases "a = 0 \<or> b = 0")
  case False
  then obtain i j where ij: "i < 255" "a = byte_of (gen ^ i)" "logTable ! unat a = of_nat i"
    "j < 255" "b = byte_of (gen ^ j)" "logTable ! unat b = of_nat j"
    using gen_power_exhaust by metis
  define k where "k = (if i + j \<ge> 255 then i + j - 255 else i + j)"
  have k: "k < 255" "k = (i + j) mod 255" using ij by (auto simp: k_def mod_if)
  have "gfMul a b = expTable ! k"
    using False ij by (simp add: gfMul_def k_def unat_of_nat_byte)
  also have "\<dots> = byte_of (gen ^ (i + j))"
    using k tables_correct(3) by (simp flip: gen_power_mod)
  finally show ?thesis by (simp add: power_add times_gf.rep_eq ij)
qed (auto simp: gfMul_def)

lemma gf_of_gfMul: "gf_of (gfMul a b) = gf_of a * gf_of b"
  by (simp add: gfMul_slow gf_of_mult)

lemma gf_of_xor: "gf_of (a XOR b) = gf_of a + gf_of b"
  by (simp add: plus_gf.abs_eq)

section \<open>Division\<close>

instantiation gf :: field
begin

definition inverse_gf :: "gf \<Rightarrow> gf" where
  "inverse_gf x = (if x = 0 then 0 else x ^ 254)"

definition divide_gf :: "gf \<Rightarrow> gf \<Rightarrow> gf" where
  "divide_gf x y = x * inverse (y :: gf)"

instance
proof
  fix x y :: gf
  show "inverse x * x = 1" if nz: "x \<noteq> 0"
  proof -
    obtain i where "x = gen ^ i" using gen_power_ex [OF nz] by auto
    then have "x ^ 255 = (gen ^ 255) ^ i" by (metis power_mult mult.commute)
    moreover have "x ^ 254 * x = x ^ 255" using power_Suc2 [of x 254] by simp
    ultimately show ?thesis using nz by (simp add: inverse_gf_def)
  qed
  show "x div y = x * inverse y" by (rule divide_gf_def)
  show "inverse (0 :: gf) = 0" by (simp add: inverse_gf_def)
qed

end

lemma gen_nonzero [simp]: "gen \<noteq> 0"
  using gen_power_nonzero [of 1] by simp

theorem gfDiv_field: "b \<noteq> 0 \<Longrightarrow> gfDiv a b = Inr (byte_of (gf_of a / gf_of b))"
proof (cases "a = 0")
  case False
  assume "b \<noteq> 0"
  with False obtain i j where ij: "i < 255" "a = byte_of (gen ^ i)" "logTable ! unat a = of_nat i"
    "j < 255" "b = byte_of (gen ^ j)" "logTable ! unat b = of_nat j"
    using gen_power_exhaust by metis
  define k where "k = (if int i - int j < 0 then int i - int j + 255 else int i - int j)"
  have k: "nat k < 255" "(nat k + j) mod 255 = i"
    using ij by (auto simp: k_def mod_if nat_add_distrib nat_diff_distrib')
  have "gfDiv a b = Inr (expTable ! nat k)"
    using False \<open>b \<noteq> 0\<close> ij by (simp add: gfDiv_def k_def unat_of_nat_byte Let_def)
  moreover have "gen ^ nat k * gen ^ j = gen ^ i"
    using gen_power_mod [of "nat k + j"] k by (simp add: power_add)
  then have "gen ^ nat k = gf_of a / gf_of b" by (simp add: ij eq_divide_eq)
  ultimately show ?thesis using k tables_correct(3) by simp
qed (simp add: gfDiv_def zero_gf.rep_eq)

section \<open>Properties\<close>

text \<open>C30: The table-driven product of the code is the shift-and-add product modulo the reduction
  polynomial, on all operands, and it is the product of a field with XOR as its sum.\<close>

theorem gfMul_is_field_product:
  "gfMul a b = gfMulSlow a b \<and> gfMul a b = gfMul b a \<and> gfMul (gfMul a b) c = gfMul a (gfMul b c)
   \<and> gfMul a (b XOR c) = gfMul a b XOR gfMul a c \<and> gfMul 1 a = a \<and> gfMul 0 a = 0"
  using mul_commute [of a b] mul_assoc [of a b c] by (simp add: gfMul_slow mul_xor_right)

text \<open>Division by a nonzero byte returns the unique quotient and never panics.\<close>

theorem gfDiv_is_quotient:
  assumes "b \<noteq> 0" shows "gfDiv a b = Inr q \<longleftrightarrow> gfMul q b = a"
proof -
  have "gfMul q b = a \<longleftrightarrow> gf_of q * gf_of b = gf_of a" by (simp flip: gf_of_gfMul)
  also have "\<dots> \<longleftrightarrow> gf_of q = gf_of a / gf_of b" using assms by (simp add: eq_divide_eq)
  also have "\<dots> \<longleftrightarrow> q = byte_of (gf_of a / gf_of b)" by (metis byte_of_gf_of gf_of_byte_of)
  finally show ?thesis using gfDiv_field [OF assms, of a] by auto
qed

theorem gfDiv_is_quotient_witness: "gfDiv 14 2 = Inr 7 \<longleftrightarrow> gfMul 7 2 = 14"
  by (rule gfDiv_is_quotient) simp

end
