(* ===== verification/Stdlib_Crypto.thy ===== *)
theory Stdlib_Crypto
  imports Gf256
begin

text \<open>
  The parts of Go's standard library the crypto package builds on, from their published
  standards: \<open>crypto/sha256\<close> (FIPS 180-4), \<open>crypto/hmac\<close> over it (FIPS 198-1),
  \<open>crypto/aes\<close> (FIPS 197) and the GCM mode of \<open>crypto/cipher\<close> with its 12-byte nonces and
  16-byte tags (NIST SP 800-38D), and \<open>encoding/hex\<close>. The lemmas are the lengths of their
  results, the round trips, and that \<open>Open\<close> accepts nothing but what \<open>Seal\<close> produces.
  Messages are assumed to stay below the 64 GiB limit of GCM.
\<close>

section \<open>Big-endian byte strings\<close>

definition be32 :: "32 word \<Rightarrow> bytes" where
  "be32 w = map (\<lambda>k. ucast (drop_bit k w)) [24, 16, 8, 0]"

definition be64 :: "64 word \<Rightarrow> bytes" where
  "be64 w = map (\<lambda>k. ucast (drop_bit k w)) [56, 48, 40, 32, 24, 16, 8, 0]"

lemma length_be [simp]: "length (be32 w) = 4" "length (be64 v) = 8"
  by (simp_all add: be32_def be64_def)

fun blocks :: "nat \<Rightarrow> nat \<Rightarrow> 'a list \<Rightarrow> 'a list list" where
  "blocks w 0 bs = []"
| "blocks w (Suc n) bs = take w bs # blocks w n (drop w bs)"

section \<open>SHA-256\<close>

text \<open>
  The constants of the standard are computed as it defines them: the first 32 bits of the
  fractional parts of the cube (square) roots of the first 64 (8) primes. \<open>root_bits e n b 0\<close> is
  the largest number of \<open>b\<close> bits whose \<open>e\<close>-th power is at most \<open>n\<close>.
\<close>

fun root_bits :: "nat \<Rightarrow> nat \<Rightarrow> nat \<Rightarrow> nat \<Rightarrow> nat" where
  "root_bits e n 0 r = r"
| "root_bits e n (Suc b) r = root_bits e n b (if (r + 2 ^ b) ^ e \<le> n then r + 2 ^ b else r)"

definition root_fraction :: "nat \<Rightarrow> nat \<Rightarrow> 32 word" where
  "root_fraction e p = of_nat (root_bits e (p * 2 ^ (32 * e)) 35 0)"

definition sha_primes :: "nat list" where
  "sha_primes = filter (\<lambda>p. list_all (\<lambda>q. \<not> q dvd p) [2..<p]) [2..<312]"

definition sha_k :: "32 word list" where
  "sha_k = map (root_fraction 3) sha_primes"

definition sha_init :: "32 word list" where
  "sha_init = map (root_fraction 2) (take 8 sha_primes)"

lemma root_bits_upper: "n < (r + 2 ^ b) ^ e \<Longrightarrow> n < Suc (root_bits e n b r) ^ e"
  by (induction b arbitrary: r) (auto simp: add.assoc mult_2 [symmetric])

lemma root_bits_lower: "r ^ e \<le> n \<Longrightarrow> root_bits e n b r ^ e \<le> n"
  by (induction b arbitrary: r) auto

lemma root_bits_floor: "n < 2 ^ (b * e) \<Longrightarrow> 0 < e \<Longrightarrow> root_bits e n b 0 ^ e \<le> n \<and> n < Suc (root_bits e n b 0) ^ e"
  using root_bits_upper [of n 0 b e] root_bits_lower [of 0 e n b] by (simp add: power_mult zero_power)

definition sha_pad :: "bytes \<Rightarrow> bytes" where
  "sha_pad m = m @ 0x80 # replicate ((119 - length m mod 64) mod 64) 0 @ be64 (of_nat (8 * length m))"

fun sha_schedule :: "nat \<Rightarrow> 32 word list \<Rightarrow> 32 word list" where
  "sha_schedule 0 w = w"
| "sha_schedule (Suc n) w =
     (let t = length w; a = w ! (t - 15); b = w ! (t - 2);
          s0 = word_rotr 7 a XOR word_rotr 18 a XOR drop_bit 3 a;
          s1 = word_rotr 17 b XOR word_rotr 19 b XOR drop_bit 10 b
      in sha_schedule n (w @ [s1 + w ! (t - 7) + s0 + w ! (t - 16)]))"

fun sha_round :: "32 word \<times> 32 word \<Rightarrow> 32 word list \<Rightarrow> 32 word list" where
  "sha_round (k, w) s =
     (let a = s ! 0; b = s ! 1; c = s ! 2; d = s ! 3; e = s ! 4; f = s ! 5; g = s ! 6; h = s ! 7;
          t1 = h + (word_rotr 6 e XOR word_rotr 11 e XOR word_rotr 25 e)
                 + ((e AND f) XOR (NOT e AND g)) + k + w;
          t2 = (word_rotr 2 a XOR word_rotr 13 a XOR word_rotr 22 a)
                 + ((a AND b) XOR (a AND c) XOR (b AND c))
      in [t1 + t2, a, b, c, d + t1, e, f, g])"

definition sha_block :: "bytes \<Rightarrow> 32 word list \<Rightarrow> 32 word list" where
  "sha_block b h =
     (let w = sha_schedule 48 (map word_rcat (blocks 4 16 b))
      in map (\<lambda>i. h ! i + fold sha_round (zip sha_k w) h ! i) [0..<8])"

definition sha256 :: "bytes \<Rightarrow> bytes" where
  "sha256 m =
     (let p = sha_pad m; h = fold sha_block (blocks 64 (length p div 64) p) sha_init
      in concat (map (\<lambda>i. be32 (h ! i)) [0..<8]))"

lemma length_concat_const: "(\<And>x. x \<in> set xs \<Longrightarrow> length (f x) = n) \<Longrightarrow>
  length (concat (map f xs)) = n * length xs"
  by (induction xs) auto

lemma length_sha256 [simp]: "length (sha256 m) = 32"
  by (simp add: sha256_def Let_def length_concat_const [where n = 4])

section \<open>HMAC-SHA-256\<close>

definition hmac_sha256 :: "bytes \<Rightarrow> bytes \<Rightarrow> bytes" where
  "hmac_sha256 key m =
     (let k = (if length key > 64 then sha256 key else key);
          k0 = k @ replicate (64 - length k) 0
      in sha256 (map ((XOR) 0x5c) k0 @ sha256 (map ((XOR) 0x36) k0 @ m)))"

lemma length_hmac_sha256 [simp]: "length (hmac_sha256 key m) = 32"
  by (simp add: hmac_sha256_def Let_def)

section \<open>AES\<close>

text \<open>The S-box: the inverse in GF(2^8), a power, followed by the affine map.\<close>

definition aes_inv :: "byte \<Rightarrow> byte" where
  "aes_inv x =
     (let x2 = gfMulSlow x x; x4 = gfMulSlow x2 x2; x8 = gfMulSlow x4 x4; x16 = gfMulSlow x8 x8;
          x32 = gfMulSlow x16 x16; x64 = gfMulSlow x32 x32; x128 = gfMulSlow x64 x64
      in fold gfMulSlow [x2, x4, x8, x16, x32, x64, x128] 1)"

definition aes_sbox :: "byte \<Rightarrow> byte" where
  "aes_sbox x =
     (let b = aes_inv x
      in b XOR word_rotl 1 b XOR word_rotl 2 b XOR word_rotl 3 b XOR word_rotl 4 b XOR 0x63)"

text \<open>The key schedule over 4-byte words; \<open>nk\<close> is the key length in words.\<close>

fun aes_expand :: "nat \<Rightarrow> nat \<Rightarrow> byte \<Rightarrow> bytes list \<Rightarrow> bytes list" where
  "aes_expand 0 nk rcon ws = ws"
| "aes_expand (Suc n) nk rcon ws =
     (let i = length ws; temp = ws ! (i - 1);
          t = (if i mod nk = 0
               then (let s = map aes_sbox (tl temp @ [hd temp]) in (hd s XOR rcon) # tl s)
               else if nk > 6 \<and> i mod nk = 4 then map aes_sbox temp else temp);
          rcon' = (if i mod nk = 0 then gfMulSlow rcon 2 else rcon)
      in aes_expand n nk rcon' (ws @ [map2 (XOR) (ws ! (i - nk)) t]))"

definition aes_round_keys :: "bytes \<Rightarrow> bytes list" where
  "aes_round_keys key =
     (let nk = length key div 4; words = 4 * (nk + 7)
      in map concat (blocks 4 (nk + 7) (aes_expand (words - nk) nk 1 (blocks 4 nk key))))"

definition add_round_key :: "bytes \<Rightarrow> bytes \<Rightarrow> bytes" where
  "add_round_key k s = map (\<lambda>i. s ! i XOR k ! i) [0..<16]"

definition shift_rows :: "bytes \<Rightarrow> bytes" where
  "shift_rows s = map (\<lambda>i. s ! ((i + 4 * (i mod 4)) mod 16)) [0..<16]"

definition mix_columns :: "bytes \<Rightarrow> bytes" where
  "mix_columns s =
     map (\<lambda>i. let c = 4 * (i div 4); col = (\<lambda>k. s ! (c + (i + k) mod 4))
          in gfMulSlow (col 0) 2 XOR gfMulSlow (col 1) 3 XOR col 2 XOR col 3) [0..<16]"

definition aes_encrypt :: "bytes \<Rightarrow> bytes \<Rightarrow> bytes" where
  "aes_encrypt key block =
     (let rk = aes_round_keys key; nr = length rk - 1;
          s = fold (\<lambda>k s. add_round_key k (mix_columns (shift_rows (map aes_sbox s))))
                (take (nr - 1) (tl rk)) (add_round_key (rk ! 0) block)
      in add_round_key (rk ! nr) (shift_rows (map aes_sbox s)))"

lemma length_aes_encrypt [simp]: "length (aes_encrypt key block) = 16"
  by (simp add: aes_encrypt_def add_round_key_def Let_def)

section \<open>Galois/Counter Mode\<close>

fun ghash_mul_loop :: "nat \<Rightarrow> 128 word \<Rightarrow> 128 word \<Rightarrow> 128 word \<Rightarrow> 128 word" where
  "ghash_mul_loop 0 x v z = z"
| "ghash_mul_loop (Suc n) x v z =
     ghash_mul_loop n x (if bit v 0 then drop_bit 1 v XOR push_bit 120 0xe1 else drop_bit 1 v)
       (if bit x n then z XOR v else z)"

definition ghash :: "128 word \<Rightarrow> bytes \<Rightarrow> 128 word" where
  "ghash h bs =
     fold (\<lambda>b y. ghash_mul_loop 128 (y XOR word_rcat b) h 0) (blocks 16 (length bs div 16) bs) 0"

definition pad16 :: "bytes \<Rightarrow> bytes" where
  "pad16 bs = bs @ replicate ((16 - length bs mod 16) mod 16) 0"

definition be128 :: "128 word \<Rightarrow> bytes" where
  "be128 w = map (\<lambda>i. ucast (drop_bit (8 * (15 - i)) w)) [0..<16]"

definition gcm_ctr :: "bytes \<Rightarrow> bytes \<Rightarrow> bytes \<Rightarrow> bytes" where
  "gcm_ctr key nonce bs =
     map2 (XOR) bs (concat (map (\<lambda>i. aes_encrypt key (nonce @ be32 (of_nat (2 + i))))
       [0..<(length bs + 15) div 16]))"

definition gcm_tag :: "bytes \<Rightarrow> bytes \<Rightarrow> bytes \<Rightarrow> bytes \<Rightarrow> bytes" where
  "gcm_tag key nonce aad ct =
     (let h = word_rcat (aes_encrypt key (replicate 16 0));
          s = ghash h (pad16 aad @ pad16 ct @ be64 (of_nat (8 * length aad)) @ be64 (of_nat (8 * length ct)))
      in map2 (XOR) (be128 s) (aes_encrypt key (nonce @ [0, 0, 0, 1])))"

definition gcm_seal :: "bytes \<Rightarrow> bytes \<Rightarrow> bytes \<Rightarrow> bytes \<Rightarrow> bytes" where
  "gcm_seal key nonce plaintext aad =
     (let ct = gcm_ctr key nonce plaintext in ct @ gcm_tag key nonce aad ct)"

definition gcm_open :: "bytes \<Rightarrow> bytes \<Rightarrow> bytes \<Rightarrow> bytes \<Rightarrow> bytes option" where
  "gcm_open key nonce ciphertext aad =
     (if length ciphertext < 16 then None
      else let ct = take (length ciphertext - 16) ciphertext;
               tag = drop (length ciphertext - 16) ciphertext
           in if gcm_tag key nonce aad ct = tag then Some (gcm_ctr key nonce ct) else None)"

lemma length_gcm_ctr [simp]: "length (gcm_ctr key nonce bs) = length bs"
proof -
  have "length bs \<le> 16 * ((length bs + 15) div 16)" by presburger
  then show ?thesis by (simp add: gcm_ctr_def length_concat_const [where n = 16])
qed

lemma length_gcm_tag [simp]: "length (gcm_tag key nonce aad ct) = 16"
  by (simp add: gcm_tag_def be128_def Let_def)

lemma length_gcm_seal [simp]: "length (gcm_seal key nonce p aad) = length p + 16"
  by (simp add: gcm_seal_def Let_def)

lemma gcm_ctr_involution [simp]: "gcm_ctr key nonce (gcm_ctr key nonce bs) = bs"
proof (rule nth_equalityI)
  fix i assume "i < length (gcm_ctr key nonce (gcm_ctr key nonce bs))"
  then have i: "i < length bs" by simp
  let ?ks = "concat (map (\<lambda>i. aes_encrypt key (nonce @ be32 (of_nat (2 + i))))
       [0..<(length bs + 15) div 16])"
  have "length bs \<le> 16 * ((length bs + 15) div 16)" by presburger
  then have ks: "i < length ?ks" using i by (simp add: length_concat_const [where n = 16])
  have "gcm_ctr key nonce (gcm_ctr key nonce bs) ! i = gcm_ctr key nonce bs ! i XOR ?ks ! i"
    using i ks by (subst gcm_ctr_def) simp
  also have "gcm_ctr key nonce bs ! i = bs ! i XOR ?ks ! i"
    using i ks by (simp add: gcm_ctr_def)
  finally show "gcm_ctr key nonce (gcm_ctr key nonce bs) ! i = bs ! i" by (simp add: xor.assoc)
qed simp

lemma gcm_open_seal: "gcm_open key nonce (gcm_seal key nonce p aad) aad = Some p"
  by (simp add: gcm_open_def gcm_seal_def Let_def)

lemma gcm_open_Some:
  "gcm_open key nonce c aad = Some p \<longleftrightarrow> c = gcm_seal key nonce p aad"
proof
  assume "gcm_open key nonce c aad = Some p"
  then have "length c \<ge> 16" "gcm_tag key nonce aad (take (length c - 16) c) = drop (length c - 16) c"
    "p = gcm_ctr key nonce (take (length c - 16) c)"
    by (auto simp: gcm_open_def Let_def split: if_splits)
  then show "c = gcm_seal key nonce p aad" by (simp add: gcm_seal_def Let_def)
qed (simp add: gcm_open_seal)

section \<open>Hexadecimal\<close>

definition hex_digit :: "nat \<Rightarrow> char" where
  "hex_digit n = ''0123456789abcdef'' ! n"

fun hex_encode :: "bytes \<Rightarrow> string" where
  "hex_encode [] = []"
| "hex_encode (b # bs) = hex_digit (unat b div 16) # hex_digit (unat b mod 16) # hex_encode bs"

lemma length_hex_encode [simp]: "length (hex_encode bs) = 2 * length bs"
  by (induction bs) auto

lemma hex_digit_inj: "m < 16 \<Longrightarrow> n < 16 \<Longrightarrow> hex_digit m = hex_digit n \<longleftrightarrow> m = n"
proof -
  have d: "distinct ''0123456789abcdef''" by simp
  show "m < 16 \<Longrightarrow> n < 16 \<Longrightarrow> hex_digit m = hex_digit n \<longleftrightarrow> m = n"
    unfolding hex_digit_def by (rule nth_eq_iff_index_eq [OF d]) simp_all
qed

lemma hex_encode_inj: "length bs = length cs \<Longrightarrow> hex_encode bs = hex_encode cs \<longleftrightarrow> bs = cs"
proof (induction bs cs rule: list_induct2)
  case (Cons b bs c cs)
  have lt: "unat x div 16 < 16" for x :: byte
    using unsigned_less [of x, where 'a = nat] by (simp add: less_mult_imp_div_less)
  have "b = c" if "unat b div 16 = unat c div 16" "unat b mod 16 = unat c mod 16"
    using that by (metis div_mult_mod_eq unsigned_word_eqI)
  with Cons show ?case by (auto simp: hex_digit_inj lt)
qed simp

end
