(* ===== verification/Keys.thy ===== *)
theory Keys
  imports Stdlib_Crypto
begin

text \<open>
  Symmetric keys: \<open>Encrypt\<close> and \<open>Decrypt\<close> of \<open>crypto/aead.go\<close>, the key ratchet and the
  pseudo-identifiers of \<open>crypto/ratchet.go\<close>, and \<open>Wipe\<close> of \<open>crypto/wipe.go\<close>. The locale
  \<open>sealing\<close> is the contract of authenticated encryption the store, the root seal and the
  node rely on; it is interpreted on \<open>encrypt\<close> and \<open>decrypt\<close>.
\<close>

section \<open>Packages outside the repository\<close>

text \<open>
  The third-party packages the source calls are parameters: \<open>hkdf_read\<close> is the first \<open>n\<close>
  bytes of the reader \<open>hkdf.New(sha256.New, ikm, salt, info)\<close> (none where reading fails),
  \<open>scrypt_key\<close> is \<open>scrypt.Key\<close> and \<open>x25519\<close> is \<open>curve25519.X25519\<close>.
\<close>

record packages =
  hkdf_read :: "bytes \<Rightarrow> bytes \<Rightarrow> bytes \<Rightarrow> nat \<Rightarrow> bytes option"
  scrypt_key :: "bytes \<Rightarrow> bytes \<Rightarrow> nat \<Rightarrow> nat \<Rightarrow> nat \<Rightarrow> nat \<Rightarrow> bytes option"
  x25519 :: "bytes \<Rightarrow> bytes \<Rightarrow> bytes option"

text \<open>What their documentation promises: keys of the requested length.\<close>

definition hkdf_law :: "packages \<Rightarrow> bool" where
  "hkdf_law X \<longleftrightarrow> (\<forall>ikm salt info. \<exists>k. hkdf_read X ikm salt info 32 = Some k \<and> length k = 32)"

definition scrypt_law :: "packages \<Rightarrow> bool" where
  "scrypt_law X \<longleftrightarrow>
     (\<forall>pw salt. \<exists>k. scrypt_key X pw salt (2 ^ 15) 8 1 32 = Some k \<and> length k = 32)"

text \<open>
  An instance for the witnesses: HKDF as RFC 5869 defines it, for at most one output block,
  and key derivation and scalar multiplication replaced by keyed hashes of the right length.
\<close>

definition rfc5869 :: "bytes \<Rightarrow> bytes \<Rightarrow> bytes \<Rightarrow> nat \<Rightarrow> bytes option" where
  "rfc5869 ikm salt info n =
     (let prk = hmac_sha256 (if salt = [] then replicate 32 0 else salt) ikm
      in if n \<le> 32 then Some (take n (hmac_sha256 prk (info @ [1]))) else None)"

definition sample_packages :: packages where
  "sample_packages = \<lparr>hkdf_read = rfc5869,
     scrypt_key = (\<lambda>pw salt n r p len. if len \<le> 32 then Some (take len (hmac_sha256 salt pw)) else None),
     x25519 = (\<lambda>scalar point. Some (sha256 (scalar @ point)))\<rparr>"

lemma sample_packages_laws: "hkdf_law sample_packages" "scrypt_law sample_packages"
  by (simp_all add: hkdf_law_def scrypt_law_def sample_packages_def rfc5869_def Let_def)

section \<open>Authenticated encryption\<close>

text \<open>\<open>aes.NewCipher\<close> accepts keys of 16, 24 and 32 bytes.\<close>

definition key_ok :: "bytes \<Rightarrow> bool" where
  "key_ok key \<longleftrightarrow> length key = 16 \<or> length key = 24 \<or> length key = 32"

definition encrypt :: "bytes \<Rightarrow> bytes \<Rightarrow> bytes \<Rightarrow> entropy \<Rightarrow> bytes res \<times> entropy" where
  "encrypt key plaintext aad e =
     (if \<not> key_ok key then (Inl ErrKeySize, e)
      else case rand_read 12 e of
             (Inl err, e') \<Rightarrow> (Inl err, e')
           | (Inr nonce, e') \<Rightarrow> (Inr (nonce @ gcm_seal key nonce plaintext aad), e'))"

definition decrypt :: "bytes \<Rightarrow> bytes \<Rightarrow> bytes \<Rightarrow> bytes res" where
  "decrypt key ciphertext aad =
     (if \<not> key_ok key then Inl ErrKeySize
      else if length ciphertext < 12 then Inl ErrShortCiphertext
      else case gcm_open key (take 12 ciphertext) (drop 12 ciphertext) aad of
             None \<Rightarrow> Inl ErrOpen
           | Some p \<Rightarrow> Inr p)"

text \<open>
  The contract: what was sealed opens to the same plaintext (\<open>open_seal\<close>), and whatever opens
  was sealed under that key and that associated data with some nonce (\<open>authentic\<close>).
\<close>

locale sealing =
  fixes seal :: "bytes \<Rightarrow> bytes \<Rightarrow> bytes \<Rightarrow> entropy \<Rightarrow> bytes res \<times> entropy"
    and unseal :: "bytes \<Rightarrow> bytes \<Rightarrow> bytes \<Rightarrow> bytes res"
  assumes open_seal: "seal k p a e = (Inr c, e') \<Longrightarrow> unseal k c a = Inr p"
    and authentic: "unseal k c a = Inr p \<Longrightarrow> \<exists>e e'. seal k p a e = (Inr c, e')"
begin

lemma seal_inj: "seal k p a e = (Inr c, e') \<Longrightarrow> seal k q a d = (Inr c, d') \<Longrightarrow> p = q"
  using open_seal by (metis sum.inject(2))

lemma reseal:
  assumes "unseal k c a = Inr p" "seal k' p a' e = (Inr c', e')"
  shows "unseal k' c' a' = unseal k c a"
  using assms open_seal by simp

end

interpretation aead: sealing encrypt decrypt
proof
  fix k p a e c e'
  assume "encrypt k p a e = (Inr c, e')"
  then obtain nonce where "key_ok k" "length nonce = 12" "c = nonce @ gcm_seal k nonce p a"
    by (auto simp: encrypt_def dest!: rand_read_length split: if_splits sum.splits prod.splits)
  then show "decrypt k c a = Inr p" by (simp add: decrypt_def gcm_open_seal)
next
  fix k c a p
  assume "decrypt k c a = Inr p"
  then have k: "key_ok k" "12 \<le> length c" and c: "drop 12 c = gcm_seal k (take 12 c) p a"
    by (auto simp: decrypt_def gcm_open_Some split: if_splits option.splits)
  have "map ((!) (take 12 c)) [0..<12] = take 12 c"
    using k(2) by (intro nth_equalityI) auto
  then have "encrypt k p a \<lparr>tape = \<lambda>_ j. take 12 c ! j, broken = \<lambda>_. False, draws = 0\<rparr> =
      (Inr (take 12 c @ drop 12 c), \<lparr>tape = \<lambda>_ j. take 12 c ! j, broken = \<lambda>_. False, draws = 1\<rparr>)"
    unfolding c using k(1) by (simp add: encrypt_def rand_read_def)
  then show "\<exists>e e'. encrypt k p a e = (Inr c, e')" by auto
qed

lemma encrypt_ok:
  "encrypt k p a e = (if key_ok k \<and> \<not> broken e (draws e)
     then (Inr (map (tape e (draws e)) [0..<12] @
             gcm_seal k (map (tape e (draws e)) [0..<12]) p a), e\<lparr>draws := Suc (draws e)\<rparr>)
     else if key_ok k then (Inl ErrRand, e\<lparr>draws := Suc (draws e)\<rparr>) else (Inl ErrKeySize, e))"
  by (simp add: encrypt_def rand_read_def)

section \<open>The ratchet\<close>

definition KeySize :: nat where "KeySize = 32"

definition hkdf_expand :: "packages \<Rightarrow> bytes \<Rightarrow> bytes \<Rightarrow> bytes \<Rightarrow> bytes res" where
  "hkdf_expand X ikm salt info =
     (case hkdf_read X ikm salt info KeySize of None \<Rightarrow> Inl ErrHkdf | Some out \<Rightarrow> Inr out)"

definition derive_fragment_root :: "packages \<Rightarrow> bytes \<Rightarrow> bytes \<Rightarrow> bytes res" where
  "derive_fragment_root X rootSecret fragmentSalt =
     hkdf_expand X rootSecret fragmentSalt (bytes_of ''mutant-db/fragment-root'')"

definition advance :: "packages \<Rightarrow> bytes \<Rightarrow> bytes \<Rightarrow> bytes \<Rightarrow> bytes res" where
  "advance X currentKey serverSeed localEntropy =
     (if currentKey = [] \<or> serverSeed = [] \<or> localEntropy = [] then Inl ErrRatchetInputs
      else hkdf_expand X (serverSeed @ localEntropy) currentKey (bytes_of ''mutant-db/ratchet-step''))"

definition next_pseudo_id :: "string \<Rightarrow> bytes \<Rightarrow> string" where
  "next_pseudo_id prevPseudoID serverSeed =
     take 32 (hex_encode (hmac_sha256 serverSeed (bytes_of prevPseudoID)))"

lemma hkdf_expand_ok:
  "hkdf_law X \<Longrightarrow> \<exists>k. hkdf_expand X ikm salt info = Inr k \<and> key_ok k \<and> length k = 32"
  unfolding hkdf_law_def hkdf_expand_def KeySize_def key_ok_def
  by (metis option.simps(5))

lemma hkdf_expand_Inl: "hkdf_expand X ikm salt info = Inl err \<Longrightarrow> err = ErrHkdf"
  by (auto simp: hkdf_expand_def split: option.splits)

lemma advance_ok:
  assumes "hkdf_law X" "key \<noteq> []" "seed \<noteq> []" "local_entropy \<noteq> []"
  obtains k where "advance X key seed local_entropy = Inr k" "length k = 32" "key_ok k"
  using hkdf_expand_ok [OF assms(1)] assms(2-4) unfolding advance_def by metis

lemma length_next_pseudo_id [simp]: "length (next_pseudo_id p s) = 32"
  by (simp add: next_pseudo_id_def)

section \<open>Wiping\<close>

text \<open>\<open>Wipe\<close> stores zero at every index of the slice.\<close>

definition wipe :: "bytes \<Rightarrow> bytes" where
  "wipe b = fold (\<lambda>i b. b[i := 0]) [0..<length b] b"

lemma wipe_prefix: "n \<le> length b \<Longrightarrow>
  fold (\<lambda>i b. b[i := 0]) [0..<n] b = replicate n 0 @ drop n b"
proof (induction n)
  case (Suc n)
  then show ?case
    by (simp add: list_update_append Cons_nth_drop_Suc [symmetric] replicate_append_same
        flip: replicate_Suc append_assoc)
qed simp

lemma wipe_zero: "wipe b = replicate (length b) 0"
  by (simp add: wipe_def wipe_prefix)

section \<open>Properties\<close>

text \<open>\<open>Decrypt\<close> returns a plaintext exactly when the ciphertext is what \<open>Encrypt\<close> makes of that
  plaintext under the same key and the same associated data: sealed data opens, and a
  ciphertext moved to another identity or altered opens only if it is a seal for that identity.\<close>

theorem decrypt_iff_encrypted:
  "decrypt key c aad = Inr p \<longleftrightarrow> (\<exists>e e'. encrypt key p aad e = (Inr c, e'))"
  using aead.open_seal aead.authentic by blast

text \<open>The ratchet gives a fresh 32-byte key whenever none of its three inputs is empty, and
  refuses otherwise; the pseudo-identifier that goes with it has 32 characters.\<close>

lemma advance_gives_key:
  assumes "hkdf_law X"
  shows "(\<exists>k. advance X key seed loc = Inr k \<and> length k = KeySize) \<longleftrightarrow> \<not> [] \<in> {key, seed, loc}"
  using advance_ok [OF assms, of key seed loc] by (auto simp: KeySize_def advance_def)

lemma advance_gives_key_example:
  "(\<exists>k. advance sample_packages [1] [2] [3] = Inr k \<and> length k = KeySize)
    \<longleftrightarrow> \<not> [] \<in> {[1], [2], [3 :: byte]}"
  by (rule advance_gives_key [OF sample_packages_laws(1)])

end
