(* ===== verification/Store.thy ===== *)
theory Store
  imports Keys
begin

text \<open>
  The node's local database, \<open>store/store.go\<close>: the three tables, the SQL statements the
  source sends to them, and the methods of \<open>Store\<close>. Fragment keys are wrapped under the
  storage key before they reach a row. The lemmas show that the methods implement maps from
  primary keys to records, that keys stay unique and that wrapped keys stay readable.
\<close>

section \<open>Keyed tables\<close>

text \<open>
  \<open>INSERT \<dots> ON CONFLICT(key) DO UPDATE\<close> replaces the row with the same key by \<open>merge old new\<close>
  or appends a new one; \<open>DELETE \<dots> WHERE key = ?\<close> drops it.
\<close>

definition upsert :: "('r \<Rightarrow> 'k) \<Rightarrow> ('r \<Rightarrow> 'r \<Rightarrow> 'r) \<Rightarrow> 'r \<Rightarrow> 'r list \<Rightarrow> 'r list" where
  "upsert key merge r t =
     (if key r \<in> key ` set t then map (\<lambda>x. if key x = key r then merge x r else x) t else t @ [r])"

definition delete_rows :: "('r \<Rightarrow> bool) \<Rightarrow> 'r list \<Rightarrow> 'r list" where
  "delete_rows p t = filter (\<lambda>x. \<not> p x) t"

definition row_at :: "('r \<Rightarrow> 'k) \<Rightarrow> 'r list \<Rightarrow> 'k \<rightharpoonup> 'r" where
  "row_at key t k = find (\<lambda>x. key x = k) t"

lemma row_at_Some: "row_at key t k = Some r \<Longrightarrow> r \<in> set t \<and> key r = k"
  by (auto simp: row_at_def find_Some_iff)

lemma row_at_None: "row_at key t k = None \<longleftrightarrow> k \<notin> key ` set t"
  by (auto simp: row_at_def find_None_iff)

lemma row_at_member: "distinct (map key t) \<Longrightarrow> r \<in> set t \<Longrightarrow> row_at key t (key r) = Some r"
  unfolding row_at_def by (induction t) (auto simp: image_iff)

lemma row_at_append: "row_at key (t @ u) k = (case row_at key t k of None \<Rightarrow> row_at key u k | r \<Rightarrow> r)"
  unfolding row_at_def by (induction t) auto

lemma row_at_single: "row_at key [r] k = (if key r = k then Some r else None)"
  by (simp add: row_at_def)

lemma row_at_map: "(\<And>x. key (f x) = key x) \<Longrightarrow> row_at key (map f t) k = map_option f (row_at key t k)"
  unfolding row_at_def by (induction t) auto

text \<open>The contract of a table with a primary key: the merge keeps the key of the rows.\<close>

locale keyed_table =
  fixes key :: "'r \<Rightarrow> 'k" and merge :: "'r \<Rightarrow> 'r \<Rightarrow> 'r"
  assumes key_merge: "key old = key new \<Longrightarrow> key (merge old new) = key new"
begin

lemma keys_upsert: "map key (upsert key merge r t) =
    (if key r \<in> key ` set t then map key t else map key t @ [key r])"
  by (auto simp: upsert_def key_merge)

lemma distinct_upsert: "distinct (map key t) \<Longrightarrow> distinct (map key (upsert key merge r t))"
  by (subst keys_upsert) auto

lemma distinct_delete: "distinct (map key t) \<Longrightarrow> distinct (map key (delete_rows p t))"
  by (simp add: delete_rows_def distinct_map_filter)

lemma set_upsert: "set (upsert key merge r t) \<subseteq> set t \<union> {r} \<union> {merge x r |x. x \<in> set t \<and> key x = key r}"
  by (auto simp: upsert_def)

lemma row_upsert: "row_at key (upsert key merge r t) =
    (row_at key t)(key r \<mapsto> (case row_at key t (key r) of None \<Rightarrow> r | Some x \<Rightarrow> merge x r))"
proof (cases "key r \<in> key ` set t")
  case True
  let ?f = "\<lambda>x. if key x = key r then merge x r else x"
  from True obtain x where x: "row_at key t (key r) = Some x" "key x = key r"
    by (metis not_None_eq row_at_None row_at_Some)
  have "row_at key (map ?f t) k = map_option ?f (row_at key t k)" for k
    by (rule row_at_map) (simp add: key_merge)
  then show ?thesis using True x
    by (auto simp: upsert_def fun_eq_iff map_option_case split: option.splits dest: row_at_Some)
next
  case False
  then have "row_at key t (key r) = None" by (simp add: row_at_None)
  with False show ?thesis
    by (auto simp: upsert_def fun_eq_iff row_at_append row_at_single split: option.splits)
qed

lemma row_delete: "row_at key (delete_rows (\<lambda>x. key x = k) t) = (row_at key t)(k := None)"
proof
  show "row_at key (delete_rows (\<lambda>x. key x = k) t) j = ((row_at key t)(k := None)) j" for j
    unfolding row_at_def delete_rows_def by (induction t) auto
qed

end

section \<open>Rows and records\<close>

record member =
  m_pid :: string
  m_node :: string
  m_endpoint :: string

record fragment =
  f_pid :: string
  f_group :: string
  f_token :: string
  f_chain :: string
  f_epoch :: "64 word"
  f_threshold :: int
  f_total :: int
  f_key :: bytes
  f_ciphertext :: bytes
  f_members :: "member list"
  f_updated :: int

record manifest =
  mf_name :: string
  mf_kind :: string
  mf_group :: string
  mf_token :: string
  mf_threshold :: int
  mf_total :: int
  mf_members :: "member list"
  mf_created :: int

record mesh_peer =
  p_name :: string
  p_endpoint :: string
  p_wgkey :: string
  p_added :: int

text \<open>A \<open>members_json\<close> column holds the JSON text of a list of members, or some other text.\<close>

datatype json_column = MembersJson "member list" | OtherText string

record frag_row =
  r_pid :: string
  r_group :: string
  r_token :: string
  r_chain :: string
  r_epoch :: "64 word"
  r_threshold :: int
  r_total :: int
  r_wrapped :: bytes
  r_ciphertext :: bytes
  r_members :: json_column
  r_updated :: int

record manifest_row =
  w_name :: string
  w_kind :: string
  w_group :: string
  w_token :: string
  w_threshold :: int
  w_total :: int
  w_members :: json_column
  w_created :: int

text \<open>
  The database: its tables, the storage key of the \<open>Store\<close>, and the behaviour of the SQL
  engine. The \<open>k\<close>-th statement fails where \<open>sql_broken k\<close>; it delivers its rows in the order
  of \<open>row_order k\<close> (SQL promises none), and the delivery breaks off after \<open>n\<close> rows where
  \<open>row_stop k = Some n\<close>; \<open>wall k\<close> is the time it runs at.
\<close>

record db =
  frag_table :: "frag_row list"
  manifest_table :: "manifest_row list"
  peer_table :: "mesh_peer list"
  storage_key :: bytes
  sql_broken :: "nat \<Rightarrow> bool"
  row_stop :: "nat \<Rightarrow> nat option"
  row_order :: "nat \<Rightarrow> nat \<Rightarrow> nat"
  wall :: "nat \<Rightarrow> int"
  stmts :: nat

section \<open>Statements\<close>

definition exec :: "(db \<Rightarrow> db) \<Rightarrow> db \<Rightarrow> unit res \<times> db" where
  "exec f d =
     (let d' = d\<lparr>stmts := Suc (stmts d)\<rparr>
      in if sql_broken d (stmts d) then (Inl ErrSql, d') else (Inr (), f d'))"

text \<open>
  \<open>Query\<close> followed by a \<open>for rows.Next()\<close> loop: the loop ends when \<open>Next\<close> returns false and
  the source never asks \<open>rows.Err()\<close>, so an interrupted delivery is a shorter result.
  \<open>QueryRow(...).Scan\<close> reports such an interruption as an error.
\<close>

definition query_rows :: "'r list \<Rightarrow> db \<Rightarrow> 'r list res \<times> db" where
  "query_rows rows d =
     (let k = stmts d; d' = d\<lparr>stmts := Suc k\<rparr>
      in if sql_broken d k then (Inl ErrSql, d')
         else (Inr (case row_stop d k of
                      None \<Rightarrow> arrange (row_order d k) rows
                    | Some n \<Rightarrow> take n (arrange (row_order d k) rows)), d'))"

definition query_row :: "'r list \<Rightarrow> db \<Rightarrow> 'r res \<times> db" where
  "query_row rows d =
     (let k = stmts d; d' = d\<lparr>stmts := Suc k\<rparr>
      in if sql_broken d k \<or> row_stop d k = Some 0 then (Inl ErrSql, d')
         else case arrange (row_order d k) rows of
                [] \<Rightarrow> (Inl ErrNotFound, d')
              | r # _ \<Rightarrow> (Inr r, d'))"

lemma query_row_Inr: "query_row rows d = (Inr r, d') \<Longrightarrow> r \<in> set rows \<and> d' = d\<lparr>stmts := Suc (stmts d)\<rparr>"
  by (auto simp: query_row_def Let_def split: if_splits list.splits)
     (metis list.set_intros(1) set_arrange)

lemma query_row_keeps: "snd (query_row rows d) = d\<lparr>stmts := Suc (stmts d)\<rparr>"
  by (simp add: query_row_def Let_def split: list.splits)

lemma query_rows_keeps: "snd (query_rows rows d) = d\<lparr>stmts := Suc (stmts d)\<rparr>"
  by (simp add: query_rows_def Let_def)

lemma query_rows_Inr: "query_rows rows d = (Inr rs, d') \<Longrightarrow> set rs \<subseteq> set rows \<and> d' = d\<lparr>stmts := Suc (stmts d)\<rparr>"
  by (auto simp: query_rows_def Let_def split: if_splits option.splits dest: in_set_takeD)

section \<open>The methods of the source: fragments\<close>

definition open_store :: "packages \<Rightarrow> bytes \<Rightarrow> db \<Rightarrow> unit res \<times> db" where
  "open_store X nodeRoot d =
     (case derive_fragment_root X nodeRoot (bytes_of ''local-storage-wrap-key'') of
        Inl err \<Rightarrow> (Inl err, d)
      | Inr key \<Rightarrow> exec (\<lambda>d. d) (d\<lparr>storage_key := key\<rparr>))"

definition frag_aad :: "string \<Rightarrow> bytes" where
  "frag_aad pid = bytes_of (''fragment-key:'' @ pid)"

definition frag_row_of :: "fragment \<Rightarrow> bytes \<Rightarrow> int \<Rightarrow> frag_row" where
  "frag_row_of f wrapped now =
     \<lparr>r_pid = f_pid f, r_group = f_group f, r_token = f_token f, r_chain = f_chain f,
      r_epoch = f_epoch f, r_threshold = f_threshold f, r_total = f_total f, r_wrapped = wrapped,
      r_ciphertext = f_ciphertext f, r_members = MembersJson (f_members f), r_updated = now\<rparr>"

text \<open>
  \<open>database/sql\<close> refuses an unsigned argument with the high bit set. On a conflict every
  column is taken from the new row.
\<close>

definition put_fragment :: "fragment \<Rightarrow> db \<Rightarrow> entropy \<Rightarrow> unit res \<times> db \<times> entropy" where
  "put_fragment f d e =
     (case encrypt (storage_key d) (f_key f) (frag_aad (f_pid f)) e of
        (Inl err, e') \<Rightarrow> (Inl err, d, e')
      | (Inr wrapped, e') \<Rightarrow>
          if bit (f_epoch f) 63 then (Inl ErrUint64, d, e')
          else case exec (\<lambda>d'. d'\<lparr>frag_table := upsert r_pid (\<lambda>_ new. new)
                 (frag_row_of f wrapped (wall d (stmts d))) (frag_table d')\<rparr>) d of
            (r, d') \<Rightarrow> (r, d', e'))"

definition unmarshal_members :: "json_column \<Rightarrow> member list res" where
  "unmarshal_members c = (case c of MembersJson ms \<Rightarrow> Inr ms | OtherText _ \<Rightarrow> Inl ErrJson)"

definition scan_fragment :: "bytes \<Rightarrow> frag_row \<Rightarrow> fragment res" where
  "scan_fragment storageKey r =
     (case decrypt storageKey (r_wrapped r) (frag_aad (r_pid r)) of
        Inl err \<Rightarrow> Inl err
      | Inr key \<Rightarrow>
          (case unmarshal_members (r_members r) of
             Inl err \<Rightarrow> Inl err
           | Inr ms \<Rightarrow> Inr
               \<lparr>f_pid = r_pid r, f_group = r_group r, f_token = r_token r, f_chain = r_chain r,
                f_epoch = r_epoch r, f_threshold = r_threshold r, f_total = r_total r,
                f_key = key, f_ciphertext = r_ciphertext r, f_members = ms,
                f_updated = r_updated r\<rparr>))"

definition get_fragment_where :: "(frag_row \<Rightarrow> bool) \<Rightarrow> db \<Rightarrow> fragment res \<times> db" where
  "get_fragment_where p d =
     (case query_row (filter p (frag_table d)) d of
        (Inl err, d') \<Rightarrow> (Inl err, d')
      | (Inr r, d') \<Rightarrow> (scan_fragment (storage_key d) r, d'))"

definition get_fragment :: "string \<Rightarrow> db \<Rightarrow> fragment res \<times> db" where
  "get_fragment pid = get_fragment_where (\<lambda>r. r_pid r = pid)"

definition get_fragment_by_group :: "string \<Rightarrow> db \<Rightarrow> fragment res \<times> db" where
  "get_fragment_by_group groupID = get_fragment_where (\<lambda>r. r_group r = groupID)"

definition delete_fragment :: "string \<Rightarrow> db \<Rightarrow> unit res \<times> db" where
  "delete_fragment pid =
     exec (\<lambda>d. d\<lparr>frag_table := delete_rows (\<lambda>r. r_pid r = pid) (frag_table d)\<rparr>)"

text \<open>\<open>UpdateSibling\<close>: first every row of the group is read, then the changed ones are written.\<close>

definition rename_member :: "string \<Rightarrow> string \<Rightarrow> string \<Rightarrow> member \<Rightarrow> member" where
  "rename_member oldPID newPID newEndpoint m =
     (if m_pid m = oldPID then m\<lparr>m_pid := newPID, m_endpoint := newEndpoint\<rparr> else m)"

fun sibling_updates ::
  "string \<Rightarrow> string \<Rightarrow> string \<Rightarrow> frag_row list \<Rightarrow> (string \<times> json_column) list res" where
  "sibling_updates oldPID newPID newEndpoint [] = Inr []"
| "sibling_updates oldPID newPID newEndpoint (r # rows) =
     (case unmarshal_members (r_members r) of
        Inl err \<Rightarrow> Inl err
      | Inr members \<Rightarrow>
          (case sibling_updates oldPID newPID newEndpoint rows of
             Inl err \<Rightarrow> Inl err
           | Inr updates \<Rightarrow>
               Inr (if oldPID \<in> m_pid ` set members
                    then (r_pid r, MembersJson (map (rename_member oldPID newPID newEndpoint) members)) # updates
                    else updates)))"

fun write_updates :: "(string \<times> json_column) list \<Rightarrow> db \<Rightarrow> unit res \<times> db" where
  "write_updates [] d = (Inr (), d)"
| "write_updates ((pid, c) # updates) d =
     (case exec (\<lambda>d. d\<lparr>frag_table :=
              map (\<lambda>r. if r_pid r = pid then r\<lparr>r_members := c\<rparr> else r) (frag_table d)\<rparr>) d of
        (Inl err, d') \<Rightarrow> (Inl err, d')
      | (Inr _, d') \<Rightarrow> write_updates updates d')"

definition update_sibling :: "string \<Rightarrow> string \<Rightarrow> string \<Rightarrow> string \<Rightarrow> db \<Rightarrow> unit res \<times> db" where
  "update_sibling groupID oldPID newPID newEndpoint d =
     (case query_rows (filter (\<lambda>r. r_group r = groupID) (frag_table d)) d of
        (Inl err, d') \<Rightarrow> (Inl err, d')
      | (Inr rows, d') \<Rightarrow>
          (case sibling_updates oldPID newPID newEndpoint rows of
             Inl err \<Rightarrow> (Inl err, d')
           | Inr updates \<Rightarrow> write_updates updates d'))"

definition list_fragment_pids :: "db \<Rightarrow> string list res \<times> db" where
  "list_fragment_pids d = query_rows (map r_pid (frag_table d)) d"

section \<open>The methods of the source: manifests and mesh peers\<close>

definition manifest_row_of :: "manifest \<Rightarrow> int \<Rightarrow> manifest_row" where
  "manifest_row_of m now =
     \<lparr>w_name = mf_name m, w_kind = mf_kind m, w_group = mf_group m, w_token = mf_token m,
      w_threshold = mf_threshold m, w_total = mf_total m, w_members = MembersJson (mf_members m),
      w_created = now\<rparr>"

text \<open>On a conflict \<open>created_at\<close> is the one column that keeps its old value.\<close>

definition keep_created :: "manifest_row \<Rightarrow> manifest_row \<Rightarrow> manifest_row" where
  "keep_created old new = new\<lparr>w_created := w_created old\<rparr>"

definition put_manifest :: "manifest \<Rightarrow> db \<Rightarrow> unit res \<times> db" where
  "put_manifest m d =
     (let m' = (if mf_kind m = [] then m\<lparr>mf_kind := ''secret''\<rparr> else m)
      in exec (\<lambda>d'. d'\<lparr>manifest_table := upsert w_name keep_created
            (manifest_row_of m' (wall d (stmts d))) (manifest_table d')\<rparr>) d)"

definition scan_manifest :: "manifest_row \<Rightarrow> manifest res" where
  "scan_manifest r =
     (case unmarshal_members (w_members r) of
        Inl err \<Rightarrow> Inl err
      | Inr ms \<Rightarrow> Inr
          \<lparr>mf_name = w_name r, mf_kind = w_kind r, mf_group = w_group r, mf_token = w_token r,
           mf_threshold = w_threshold r, mf_total = w_total r, mf_members = ms,
           mf_created = w_created r\<rparr>)"

definition get_manifest_where :: "(manifest_row \<Rightarrow> bool) \<Rightarrow> db \<Rightarrow> manifest res \<times> db" where
  "get_manifest_where p d =
     (case query_row (filter p (manifest_table d)) d of
        (Inl err, d') \<Rightarrow> (Inl err, d')
      | (Inr r, d') \<Rightarrow> (scan_manifest r, d'))"

definition get_manifest :: "string \<Rightarrow> db \<Rightarrow> manifest res \<times> db" where
  "get_manifest secretName = get_manifest_where (\<lambda>r. w_name r = secretName)"

definition get_manifest_by_group :: "string \<Rightarrow> db \<Rightarrow> manifest res \<times> db" where
  "get_manifest_by_group groupID = get_manifest_where (\<lambda>r. w_group r = groupID)"

fun scan_manifests :: "manifest_row list \<Rightarrow> manifest list res" where
  "scan_manifests [] = Inr []"
| "scan_manifests (r # rows) =
     (case scan_manifest r of
        Inl err \<Rightarrow> Inl err
      | Inr m \<Rightarrow> (case scan_manifests rows of Inl err \<Rightarrow> Inl err | Inr out \<Rightarrow> Inr (m # out)))"

definition list_manifests_by_kind :: "string \<Rightarrow> db \<Rightarrow> manifest list res \<times> db" where
  "list_manifests_by_kind kind d =
     (case query_rows (filter (\<lambda>r. w_kind r = kind) (manifest_table d)) d of
        (Inl err, d') \<Rightarrow> (Inl err, d')
      | (Inr rows, d') \<Rightarrow> (scan_manifests rows, d'))"

definition update_manifest_member :: "string \<Rightarrow> string \<Rightarrow> string \<Rightarrow> string \<Rightarrow> db \<Rightarrow> unit res \<times> db" where
  "update_manifest_member groupID oldPID newPID newEndpoint d =
     (case get_manifest_by_group groupID d of
        (Inl err, d') \<Rightarrow> (Inl err, d')
      | (Inr m, d') \<Rightarrow>
          put_manifest (m\<lparr>mf_members := map (rename_member oldPID newPID newEndpoint) (mf_members m)\<rparr>) d')"

definition keep_added :: "mesh_peer \<Rightarrow> mesh_peer \<Rightarrow> mesh_peer" where
  "keep_added old new = new\<lparr>p_added := p_added old\<rparr>"

definition put_mesh_peer :: "mesh_peer \<Rightarrow> db \<Rightarrow> unit res \<times> db" where
  "put_mesh_peer p d =
     exec (\<lambda>d'. d'\<lparr>peer_table := upsert p_name keep_added (p\<lparr>p_added := wall d (stmts d)\<rparr>) (peer_table d')\<rparr>) d"

definition delete_mesh_peer :: "string \<Rightarrow> db \<Rightarrow> unit res \<times> db" where
  "delete_mesh_peer name = exec (\<lambda>d. d\<lparr>peer_table := delete_rows (\<lambda>p. p_name p = name) (peer_table d)\<rparr>)"

definition list_mesh_peers :: "db \<Rightarrow> mesh_peer list res \<times> db" where
  "list_mesh_peers d = query_rows (peer_table d) d"

interpretation frag_rows: keyed_table r_pid "\<lambda>_ new. new"
  by unfold_locales simp

interpretation manifest_rows: keyed_table w_name keep_created
  by unfold_locales (simp add: keep_created_def)

interpretation peer_rows: keyed_table p_name keep_added
  by unfold_locales (simp add: keep_added_def)

section \<open>What each method leaves alone\<close>

text \<open>A database engine only ever counts its statements: the rest of it is fixed.\<close>

definition same_engine :: "db \<Rightarrow> db \<Rightarrow> bool" where
  "same_engine d d' \<longleftrightarrow> storage_key d' = storage_key d \<and> sql_broken d' = sql_broken d \<and>
     row_stop d' = row_stop d \<and> row_order d' = row_order d \<and> wall d' = wall d"

lemma same_engine_refl [simp]: "same_engine d d"
  by (simp add: same_engine_def)

lemma same_engine_trans: "same_engine a b \<Longrightarrow> same_engine b c \<Longrightarrow> same_engine a c"
  by (simp add: same_engine_def)

definition same_tables :: "db \<Rightarrow> db \<Rightarrow> bool" where
  "same_tables d d' \<longleftrightarrow> frag_table d' = frag_table d \<and> manifest_table d' = manifest_table d \<and>
     peer_table d' = peer_table d \<and> same_engine d d'"

lemma exec_cases:
  assumes "exec f d = (r, d')"
  obtains "r = Inr ()" "d' = f (d\<lparr>stmts := Suc (stmts d)\<rparr>)" "\<not> sql_broken d (stmts d)"
  | "r = Inl ErrSql" "d' = d\<lparr>stmts := Suc (stmts d)\<rparr>"
  using assms by (auto simp: exec_def Let_def split: if_splits)

lemma get_fragment_where_keeps: "same_tables d (snd (get_fragment_where p d))"
  using query_row_keeps [of "filter p (frag_table d)" d]
  by (auto simp: get_fragment_where_def same_tables_def same_engine_def split: prod.splits sum.splits)

lemma get_fragment_keeps [keeps]: "get_fragment pid d = (r, d') \<Longrightarrow> same_tables d d'"
  unfolding get_fragment_def using get_fragment_where_keeps by (metis snd_conv)

lemma get_fragment_by_group_keeps [keeps]: "get_fragment_by_group g d = (r, d') \<Longrightarrow> same_tables d d'"
  unfolding get_fragment_by_group_def using get_fragment_where_keeps by (metis snd_conv)

lemma get_manifest_where_keeps: "same_tables d (snd (get_manifest_where p d))"
  using query_row_keeps [of "filter p (manifest_table d)" d]
  by (auto simp: get_manifest_where_def same_tables_def same_engine_def split: prod.splits sum.splits)

lemma get_manifest_keeps [keeps]: "get_manifest n d = (r, d') \<Longrightarrow> same_tables d d'"
  unfolding get_manifest_def using get_manifest_where_keeps by (metis snd_conv)

lemma get_manifest_by_group_keeps [keeps]: "get_manifest_by_group g d = (r, d') \<Longrightarrow> same_tables d d'"
  unfolding get_manifest_by_group_def using get_manifest_where_keeps by (metis snd_conv)

lemma list_fragment_pids_keeps [keeps]: "list_fragment_pids d = (r, d') \<Longrightarrow> same_tables d d'"
  unfolding list_fragment_pids_def
  by (auto simp: same_tables_def same_engine_def dest!: arg_cong [where f = snd] simp: query_rows_keeps)

lemma list_mesh_peers_keeps [keeps]: "list_mesh_peers d = (r, d') \<Longrightarrow> same_tables d d'"
  unfolding list_mesh_peers_def
  by (auto simp: same_tables_def same_engine_def dest!: arg_cong [where f = snd] simp: query_rows_keeps)

lemma list_manifests_by_kind_keeps [keeps]: "list_manifests_by_kind k d = (r, d') \<Longrightarrow> same_tables d d'"
  using query_rows_keeps [of "filter (\<lambda>r. w_kind r = k) (manifest_table d)" d]
  by (auto simp: list_manifests_by_kind_def same_tables_def same_engine_def split: prod.splits sum.splits)

section \<open>The outcomes of the writing methods\<close>

lemma put_fragment_cases:
  assumes "put_fragment f d e = (r, d', e')"
  obtains (ok) wrapped where "r = Inr ()"
      "decrypt (storage_key d) wrapped (frag_aad (f_pid f)) = Inr (f_key f)"
      "d' = d\<lparr>stmts := Suc (stmts d), frag_table := upsert r_pid (\<lambda>_ new. new)
         (frag_row_of f wrapped (wall d (stmts d))) (frag_table d)\<rparr>"
  | (err) err where "r = Inl err" "d' = d \<or> d' = d\<lparr>stmts := Suc (stmts d)\<rparr>"
proof -
  obtain w e1 where w: "encrypt (storage_key d) (f_key f) (frag_aad (f_pid f)) e = (w, e1)" by force
  show thesis
  proof (cases w)
    case (Inl er)
    with assms w show thesis by (intro err [of er]) (auto simp: put_fragment_def)
  next
    case (Inr wrapped)
    note dec = aead.open_seal [OF w [unfolded Inr]]
    show thesis
    proof (cases "bit (f_epoch f) 63")
      case True
      with assms w Inr show thesis by (intro err [of ErrUint64]) (auto simp: put_fragment_def)
    next
      case False
      with assms w Inr dec ok err show thesis
        by (auto simp: put_fragment_def exec_def Let_def split: if_splits)
    qed
  qed
qed

lemma delete_fragment_cases:
  assumes "delete_fragment pid d = (r, d')"
  obtains (ok) "r = Inr ()"
      "d' = d\<lparr>stmts := Suc (stmts d), frag_table := delete_rows (\<lambda>r. r_pid r = pid) (frag_table d)\<rparr>"
  | (err) "r = Inl ErrSql" "d' = d\<lparr>stmts := Suc (stmts d)\<rparr>"
  using assms by (auto simp: delete_fragment_def exec_def Let_def split: if_splits)

lemma put_manifest_cases:
  assumes "put_manifest m d = (r, d')"
  obtains (ok) "r = Inr ()"
      "d' = d\<lparr>stmts := Suc (stmts d), manifest_table := upsert w_name keep_created
        (manifest_row_of (if mf_kind m = [] then m\<lparr>mf_kind := ''secret''\<rparr> else m) (wall d (stmts d)))
        (manifest_table d)\<rparr>"
  | (err) "r = Inl ErrSql" "d' = d\<lparr>stmts := Suc (stmts d)\<rparr>"
  using assms by (auto simp: put_manifest_def exec_def Let_def split: if_splits)

text \<open>\<open>UpdateSibling\<close> rewrites member lists and nothing else.\<close>

lemma write_updates_shape:
  "write_updates us d = (r, d') \<Longrightarrow>
   (\<exists>n t. d' = d\<lparr>stmts := n, frag_table := t\<rparr> \<and>
      list_all2 (\<lambda>x y. y = x \<or> (\<exists>c \<in> snd ` set us. y = x\<lparr>r_members := c\<rparr>)) (frag_table d) t)"
proof (induction us d arbitrary: r d' rule: write_updates.induct)
  case (1 d)
  then show ?case by (intro exI [of _ "stmts d"] exI [of _ "frag_table d"]) (simp add: list_all2_refl)
next
  case (2 pid c us d)
  let ?f = "\<lambda>r. if r_pid r = pid then r\<lparr>r_members := c\<rparr> else r"
  let ?d = "d\<lparr>stmts := Suc (stmts d), frag_table := map ?f (frag_table d)\<rparr>"
  show ?case
  proof (cases "sql_broken d (stmts d)")
    case True
    with 2(2) have "d' = d\<lparr>stmts := Suc (stmts d)\<rparr>" by (simp add: exec_def Let_def)
    then show ?thesis
      by (intro exI [of _ "Suc (stmts d)"] exI [of _ "frag_table d"]) (simp add: list_all2_refl)
  next
    case False
    then have e: "exec (\<lambda>d. d\<lparr>frag_table := map ?f (frag_table d)\<rparr>) d = (Inr (), ?d)"
      by (simp add: exec_def Let_def)
    with 2(2) have "write_updates us ?d = (r, d')" by simp
    from 2(1) [OF e [symmetric] refl this] obtain n t where t: "d' = ?d\<lparr>stmts := n, frag_table := t\<rparr>"
      "list_all2 (\<lambda>x y. y = x \<or> (\<exists>c \<in> snd ` set us. y = x\<lparr>r_members := c\<rparr>)) (map ?f (frag_table d)) t"
      by auto
    have "list_all2 (\<lambda>x y. y = x \<or> (\<exists>c' \<in> snd ` set ((pid, c) # us). y = x\<lparr>r_members := c'\<rparr>)) (frag_table d) t"
      using t(2) by (auto simp: list_all2_conv_all_nth split: if_splits)
    with t(1) show ?thesis
      by (intro exI [of _ n] exI [of _ t]) simp
  qed
qed

lemma sibling_updates_json:
  "sibling_updates oldPID newPID ep rows = Inr us \<Longrightarrow> \<forall>u \<in> set us. \<exists>ms. snd u = MembersJson ms"
  by (induction rows arbitrary: us) (auto split: sum.splits if_splits)

text \<open>Two rows agree but for their member lists, and the second is readable if the first is.\<close>

definition same_but_members :: "frag_row \<Rightarrow> frag_row \<Rightarrow> bool" where
  "same_but_members x y \<longleftrightarrow> y = x \<or> (\<exists>ms. y = x\<lparr>r_members := MembersJson ms\<rparr>)"

definition members_changed :: "db \<Rightarrow> db \<Rightarrow> bool" where
  "members_changed d d' \<longleftrightarrow>
     (\<exists>n t. d' = d\<lparr>stmts := n, frag_table := t\<rparr> \<and> list_all2 same_but_members (frag_table d) t)"

lemma members_changed_stmts: "members_changed d (d\<lparr>stmts := n\<rparr>)"
  unfolding members_changed_def
  by (intro exI [of _ n] exI [of _ "frag_table d"]) (simp add: list_all2_refl same_but_members_def)

lemma write_members:
  assumes "write_updates us d = (r, d')" "\<forall>u \<in> set us. \<exists>ms. snd u = MembersJson ms" shows "members_changed d d'"
proof -
  from write_updates_shape [OF assms(1)] obtain n t where t: "d' = d\<lparr>stmts := n, frag_table := t\<rparr>"
    "list_all2 (\<lambda>x y. y = x \<or> (\<exists>c \<in> snd ` set us. y = x\<lparr>r_members := c\<rparr>)) (frag_table d) t" by blast
  have "same_but_members x y" if "y = x \<or> (\<exists>c \<in> snd ` set us. y = x\<lparr>r_members := c\<rparr>)" for x y
    using that
  proof (elim disjE bexE)
    fix c assume c: "c \<in> snd ` set us" "y = x\<lparr>r_members := c\<rparr>"
    from c(1) assms(2) obtain ms where "c = MembersJson ms" by blast
    with c(2) show ?thesis unfolding same_but_members_def by blast
  qed (simp add: same_but_members_def)
  then have "list_all2 same_but_members (frag_table d) t" using t(2) by (rule list_all2_mono [rotated])
  then show ?thesis unfolding members_changed_def t(1) by (intro exI [of _ n] exI [of _ t] conjI refl)
qed

lemma update_sibling_changes:
  assumes "update_sibling g oldPID newPID ep d = (r, d')" shows "members_changed d d'"
proof -
  obtain q d1 where q: "query_rows (filter (\<lambda>r. r_group r = g) (frag_table d)) d = (q, d1)" by force
  from query_rows_keeps [of "filter (\<lambda>r. r_group r = g) (frag_table d)" d] q
  have d1: "d1 = d\<lparr>stmts := Suc (stmts d)\<rparr>" by simp
  show ?thesis
  proof (cases "\<exists>rows us. q = Inr rows \<and> sibling_updates oldPID newPID ep rows = Inr us")
    case True
    then obtain rows us where us: "q = Inr rows" "sibling_updates oldPID newPID ep rows = Inr us" by blast
    with assms q have "write_updates us d1 = (r, d')" by (simp add: update_sibling_def)
    from write_members [OF this sibling_updates_json [OF us(2)]] show ?thesis by (auto simp: members_changed_def d1)
  next
    case False
    with assms q have "d' = d1" by (auto simp: update_sibling_def split: sum.splits)
    then show ?thesis by (simp add: d1 members_changed_stmts)
  qed
qed

lemma update_sibling_shape:
  assumes "update_sibling g oldPID newPID ep d = (r, d')"
  obtains (shape) n t where "d' = d\<lparr>stmts := n, frag_table := t\<rparr>"
    "list_all2 same_but_members (frag_table d) t"
  using update_sibling_changes [OF assms] unfolding members_changed_def by (elim exE conjE) (rule shape)

section \<open>The database as maps\<close>

text \<open>The abstraction: what is readable under each primary key.\<close>

definition readable :: "bytes \<Rightarrow> frag_row \<Rightarrow> fragment option" where
  "readable k r = (case scan_fragment k r of Inl _ \<Rightarrow> None | Inr f \<Rightarrow> Some f)"

definition frags_of :: "db \<Rightarrow> string \<rightharpoonup> fragment" where
  "frags_of d pid = Option.bind (row_at r_pid (frag_table d) pid) (readable (storage_key d))"

definition manifests_of :: "db \<Rightarrow> string \<rightharpoonup> manifest" where
  "manifests_of d name =
     Option.bind (row_at w_name (manifest_table d) name)
       (\<lambda>r. case scan_manifest r of Inl _ \<Rightarrow> None | Inr m \<Rightarrow> Some m)"

definition peers_of :: "db \<Rightarrow> string \<rightharpoonup> mesh_peer" where
  "peers_of d = row_at p_name (peer_table d)"

text \<open>The invariant: primary keys are unique and every stored row can be read back.\<close>

definition db_wf :: "db \<Rightarrow> bool" where
  "db_wf d \<longleftrightarrow>
     distinct (map r_pid (frag_table d)) \<and> distinct (map w_name (manifest_table d)) \<and>
     distinct (map p_name (peer_table d)) \<and>
     (\<forall>r \<in> set (frag_table d). \<exists>f. scan_fragment (storage_key d) r = Inr f) \<and>
     (\<forall>w \<in> set (manifest_table d). \<exists>m. scan_manifest w = Inr m)"

lemma same_tables_wf: "same_tables d d' \<Longrightarrow> db_wf d' = db_wf d"
  by (simp add: same_tables_def same_engine_def db_wf_def)

lemma same_tables_frags: "same_tables d d' \<Longrightarrow> frags_of d' = frags_of d"
  by (simp add: same_tables_def same_engine_def frags_of_def fun_eq_iff)

lemma same_tables_stmts [simp]: "same_tables d (d\<lparr>stmts := n\<rparr>)" "same_tables d d"
  by (simp_all add: same_tables_def same_engine_def)

lemma scan_members: "same_but_members x y \<Longrightarrow> scan_fragment k x = Inr f \<Longrightarrow> \<exists>g. scan_fragment k y = Inr g"
  by (auto simp: same_but_members_def scan_fragment_def unmarshal_members_def split: sum.splits json_column.splits)

lemma scan_new_row:
  "decrypt k wrapped (frag_aad (f_pid f)) = Inr (f_key f) \<Longrightarrow>
   scan_fragment k (frag_row_of f wrapped now) = Inr (f\<lparr>f_updated := now\<rparr>)"
  by (simp add: scan_fragment_def frag_row_of_def unmarshal_members_def)

lemma scan_manifest_row [simp]: "scan_manifest (manifest_row_of m now) = Inr (m\<lparr>mf_created := now\<rparr>)"
  by (simp add: scan_manifest_def manifest_row_of_def unmarshal_members_def)

lemma upsert_replace_set: "set (upsert key (\<lambda>_ new. new) r t) = {x \<in> set t. key x \<noteq> key r} \<union> {r}"
  by (auto simp: upsert_def image_iff)

lemma frag_row_pid [simp]: "r_pid (frag_row_of f wrapped now) = f_pid f"
  by (simp add: frag_row_of_def)

lemma put_fragment_map:
  assumes "put_fragment f d e = (Inr (), d', e')"
  shows "frags_of d' = (frags_of d)(f_pid f \<mapsto> f\<lparr>f_updated := wall d (stmts d)\<rparr>)"
  using assms
  by (rule put_fragment_cases)
     (auto simp: frags_of_def fun_eq_iff frag_rows.row_upsert scan_new_row readable_def split: option.splits)

lemma put_fragment_wf [invs]: "db_wf d \<Longrightarrow> put_fragment f d e = (r, d', e') \<Longrightarrow> db_wf d'"
  by (erule put_fragment_cases)
     (auto simp: db_wf_def frag_rows.distinct_upsert upsert_replace_set scan_new_row)

lemma delete_fragment_map:
  "delete_fragment pid d = (Inr (), d') \<Longrightarrow> frags_of d' = (frags_of d)(pid := None)"
  by (erule delete_fragment_cases) (auto simp: frags_of_def fun_eq_iff frag_rows.row_delete)

lemma delete_fragment_wf [invs]: "db_wf d \<Longrightarrow> delete_fragment pid d = (r, d') \<Longrightarrow> db_wf d'"
  by (erule delete_fragment_cases)
     (auto simp: db_wf_def frag_rows.distinct_delete delete_rows_def distinct_map_filter)

lemma get_fragment_Inr:
  assumes "get_fragment pid d = (Inr f, d')"
  obtains r where "r \<in> set (frag_table d)" "r_pid r = pid" "scan_fragment (storage_key d) r = Inr f"
  using assms unfolding get_fragment_def get_fragment_where_def
  by (auto split: prod.splits sum.splits dest!: query_row_Inr)

lemma get_fragment_by_group_Inr:
  assumes "get_fragment_by_group g d = (Inr f, d')"
  obtains r where "r \<in> set (frag_table d)" "r_group r = g" "scan_fragment (storage_key d) r = Inr f"
  using assms unfolding get_fragment_by_group_def get_fragment_where_def
  by (auto split: prod.splits sum.splits dest!: query_row_Inr)

lemma get_fragment_map:
  assumes "db_wf d" "get_fragment pid d = (Inr f, d')"
  shows "frags_of d pid = Some f"
  using assms(2)
proof (rule get_fragment_Inr)
  fix r assume "r \<in> set (frag_table d)" "r_pid r = pid" "scan_fragment (storage_key d) r = Inr f"
  then show ?thesis
    using row_at_member [of r_pid "frag_table d" r] assms(1) by (simp add: frags_of_def db_wf_def readable_def)
qed

lemma get_fragment_none:
  assumes "db_wf d" "get_fragment pid d = (Inl ErrNotFound, d')"
  shows "frags_of d pid = None"
proof -
  have *: "scan_fragment (storage_key d) r \<noteq> Inl ErrNotFound" if "r \<in> set (frag_table d)" for r
    using assms(1) that by (auto simp: db_wf_def)
  have "filter (\<lambda>r. r_pid r = pid) (frag_table d) = []"
  proof (rule ccontr)
    assume "filter (\<lambda>r. r_pid r = pid) (frag_table d) \<noteq> []"
    then obtain r rs where "arrange (row_order d (stmts d)) (filter (\<lambda>r. r_pid r = pid) (frag_table d)) = r # rs"
      by (metis arrange_Nil_iff list.exhaust)
    moreover from this have "r \<in> set (frag_table d)"
      using set_arrange [of "row_order d (stmts d)" "filter (\<lambda>r. r_pid r = pid) (frag_table d)"] by auto
    ultimately show False using assms(2) *
      by (auto simp: get_fragment_def get_fragment_where_def query_row_def Let_def split: if_splits)
  qed
  then show ?thesis by (auto simp: frags_of_def row_at_None filter_empty_conv bind_eq_None_conv)
qed

lemma members_changed_wf:
  assumes "db_wf d" "members_changed d d'" shows "db_wf d'"
proof -
  from assms(2) obtain n t where d': "d' = d\<lparr>stmts := n, frag_table := t\<rparr>"
    and t: "list_all2 same_but_members (frag_table d) t" by (auto simp: members_changed_def)
  have "map r_pid t = map r_pid (frag_table d)"
    using t by (fastforce simp: list_all2_conv_all_nth same_but_members_def list_eq_iff_nth_eq)
  moreover have "\<exists>f. scan_fragment (storage_key d) y = Inr f" if "y \<in> set t" for y
  proof -
    from that t obtain x where "x \<in> set (frag_table d)" "same_but_members x y"
      by (metis list_all2_conv_all_nth in_set_conv_nth)
    with assms(1) scan_members show ?thesis by (auto simp: db_wf_def)
  qed
  ultimately show ?thesis using assms(1) by (simp add: db_wf_def d')
qed

lemma update_sibling_wf [invs]:
  "db_wf d \<Longrightarrow> update_sibling g oldPID newPID ep d = (r, d') \<Longrightarrow> db_wf d'"
  using members_changed_wf update_sibling_changes by blast

lemma keep_created_simps [simp]:
  "w_created (keep_created old new) = w_created old"
  "scan_manifest (keep_created old (manifest_row_of m now)) = Inr (m\<lparr>mf_created := w_created old\<rparr>)"
  by (simp_all add: keep_created_def scan_manifest_def manifest_row_of_def unmarshal_members_def)

lemma manifest_row_name [simp]: "w_name (manifest_row_of m now) = mf_name m"
  by (simp add: manifest_row_of_def)

lemma put_manifest_wf [invs]: "db_wf d \<Longrightarrow> put_manifest m d = (r, d') \<Longrightarrow> db_wf d'"
proof (erule put_manifest_cases)
  let ?m = "if mf_kind m = [] then m\<lparr>mf_kind := ''secret''\<rparr> else m"
  let ?t = "upsert w_name keep_created (manifest_row_of ?m (wall d (stmts d))) (manifest_table d)"
  assume wf: "db_wf d" and d': "d' = d\<lparr>stmts := Suc (stmts d), manifest_table := ?t\<rparr>"
  have "\<exists>m. scan_manifest w = Inr m" if "w \<in> set ?t" for w
    using subsetD [OF manifest_rows.set_upsert that] wf by (auto simp: db_wf_def)
  then show ?thesis using wf unfolding d' by (simp add: db_wf_def manifest_rows.distinct_upsert)
qed (simp add: db_wf_def)

lemma get_manifest_Inr:
  assumes "get_manifest n d = (Inr m, d')"
  obtains w where "w \<in> set (manifest_table d)" "w_name w = n" "scan_manifest w = Inr m"
  using assms unfolding get_manifest_def get_manifest_where_def
  by (auto split: prod.splits sum.splits dest!: query_row_Inr)

lemma get_manifest_by_group_Inr:
  assumes "get_manifest_by_group g d = (Inr m, d')"
  obtains w where "w \<in> set (manifest_table d)" "w_group w = g" "scan_manifest w = Inr m"
  using assms unfolding get_manifest_by_group_def get_manifest_where_def
  by (auto split: prod.splits sum.splits dest!: query_row_Inr)

lemma update_manifest_member_cases:
  assumes "update_manifest_member g oldPID newPID ep d = (r, d')"
  obtains (none) err where "r = Inl err" "same_tables d d'"
  | (put) m d1 where "get_manifest_by_group g d = (Inr m, d1)" "same_tables d d1"
      "put_manifest (m\<lparr>mf_members := map (rename_member oldPID newPID ep) (mf_members m)\<rparr>) d1 = (r, d')"
proof -
  obtain q d1 where q: "get_manifest_by_group g d = (q, d1)" by force
  show thesis
  proof (cases q)
    case (Inl err)
    with assms q get_manifest_by_group_keeps [OF q] show ?thesis
      by (intro none [of err]) (auto simp: update_manifest_member_def)
  next
    case (Inr m)
    with assms q get_manifest_by_group_keeps [OF q] show ?thesis
      by (intro put [of m d1]) (auto simp: update_manifest_member_def)
  qed
qed

lemma update_manifest_member_wf [invs]:
  assumes "db_wf d" "update_manifest_member g oldPID newPID ep d = (r, d')" shows "db_wf d'"
  using assms(2)
proof (cases rule: update_manifest_member_cases)
  case none
  then show ?thesis using assms(1) by (simp add: same_tables_wf)
next
  case (put m d1)
  from put_manifest_wf [OF _ put(3)] show ?thesis using assms(1) put(2) by (simp add: same_tables_wf)
qed

lemma put_mesh_peer_wf [invs]: "db_wf d \<Longrightarrow> put_mesh_peer p d = (r, d') \<Longrightarrow> db_wf d'"
  by (auto simp: put_mesh_peer_def db_wf_def peer_rows.distinct_upsert elim!: exec_cases)

lemma delete_mesh_peer_wf [invs]: "db_wf d \<Longrightarrow> delete_mesh_peer n d = (r, d') \<Longrightarrow> db_wf d'"
  by (auto simp: delete_mesh_peer_def db_wf_def peer_rows.distinct_delete elim!: exec_cases)

lemma put_manifest_map:
  assumes "db_wf d" "put_manifest m d = (Inr (), d')"
  shows "manifests_of d' = (manifests_of d)(mf_name m \<mapsto>
    m\<lparr>mf_kind := (if mf_kind m = [] then ''secret'' else mf_kind m),
      mf_created := (case manifests_of d (mf_name m) of None \<Rightarrow> wall d (stmts d) | Some old \<Rightarrow> mf_created old)\<rparr>)"
proof -
  let ?m = "if mf_kind m = [] then m\<lparr>mf_kind := ''secret''\<rparr> else m"
  have m: "mf_name ?m = mf_name m" "\<And>t. ?m\<lparr>mf_created := t\<rparr> =
      m\<lparr>mf_kind := (if mf_kind m = [] then ''secret'' else mf_kind m), mf_created := t\<rparr>" by simp_all
  have created: "case_option (wall d (stmts d)) mf_created (manifests_of d n) =
      case_option (wall d (stmts d)) w_created (row_at w_name (manifest_table d) n)" for n
    using assms(1) row_at_Some [of w_name "manifest_table d" n]
    by (cases "row_at w_name (manifest_table d) n")
       (auto simp: manifests_of_def db_wf_def scan_manifest_def split: sum.splits dest!: bspec)
  let ?r = "manifest_row_of ?m (wall d (stmts d))"
  from assms(2) have "row_at w_name (manifest_table d') = (row_at w_name (manifest_table d))(mf_name m \<mapsto>
      (case row_at w_name (manifest_table d) (mf_name m) of None \<Rightarrow> ?r | Some x \<Rightarrow> keep_created x ?r))"
    by (rule put_manifest_cases) (simp_all add: manifest_rows.row_upsert)
  then show ?thesis
    unfolding created
    by (cases "row_at w_name (manifest_table d) (mf_name m)")
       (simp_all add: fun_eq_iff manifests_of_def m(2))
qed

section \<open>The interface the node relies on\<close>

text \<open>
  Fragment storage as the node sees it: a map from pseudo-identifiers to fragments that
  \<open>put\<close> and \<open>del\<close> change only when they report success.
\<close>

locale fragment_store =
  fixes frags :: "'s \<Rightarrow> string \<rightharpoonup> fragment" and good :: "'s \<Rightarrow> bool"
    and put :: "fragment \<Rightarrow> 's \<Rightarrow> entropy \<Rightarrow> unit res \<times> 's \<times> entropy"
    and get :: "string \<Rightarrow> 's \<Rightarrow> fragment res \<times> 's"
    and del :: "string \<Rightarrow> 's \<Rightarrow> unit res \<times> 's"
  assumes put_good: "good s \<Longrightarrow> put f s e = (r, s', e') \<Longrightarrow> good s'"
    and put_ok: "good s \<Longrightarrow> put f s e = (Inr (), s', e') \<Longrightarrow>
      \<exists>now. frags s' = (frags s)(f_pid f \<mapsto> f\<lparr>f_updated := now\<rparr>)"
    and put_err: "good s \<Longrightarrow> put f s e = (Inl err, s', e') \<Longrightarrow> frags s' = frags s"
    and get_good: "good s \<Longrightarrow> get pid s = (g, s') \<Longrightarrow> good s' \<and> frags s' = frags s"
    and get_ok: "good s \<Longrightarrow> get pid s = (Inr f, s') \<Longrightarrow> frags s pid = Some f"
    and get_none: "good s \<Longrightarrow> get pid s = (Inl ErrNotFound, s') \<Longrightarrow> frags s pid = None"
    and del_good: "good s \<Longrightarrow> del pid s = (r, s') \<Longrightarrow> good s'"
    and del_ok: "good s \<Longrightarrow> del pid s = (Inr (), s') \<Longrightarrow> frags s' = (frags s)(pid := None)"
    and del_err: "good s \<Longrightarrow> del pid s = (Inl err, s') \<Longrightarrow> frags s' = frags s"
begin

text \<open>A record read back after a write is the record written.\<close>

lemma get_put:
  assumes "good s" "put f s e = (Inr (), s', e')" "get (f_pid f) s' = (Inr g, s'')"
  shows "\<exists>now. g = f\<lparr>f_updated := now\<rparr>"
  using put_ok [OF assms(1,2)] get_ok [OF put_good [OF assms(1,2)] assms(3)] by auto

text \<open>
  The rotation of the node: write the record under its new name, then delete the old one.
  Whatever fails, a record that was there is there under one of the two names, and nothing
  else changes.
\<close>

lemma rotate:
  assumes "good s" "put f s e = (r, s', e')" "r = Inr () \<Longrightarrow> del old s' = (q, s'')"
    "r \<noteq> Inr () \<Longrightarrow> s'' = s'" "f_pid f \<noteq> old"
  shows "good s''"
    "frags s'' old = frags s old \<or> (\<exists>now. frags s'' (f_pid f) = Some (f\<lparr>f_updated := now\<rparr>))"
    "pid \<notin> {old, f_pid f} \<Longrightarrow> frags s'' pid = frags s pid"
proof -
  have "good s'' \<and>
    (frags s'' old = frags s old \<or> (\<exists>now. frags s'' (f_pid f) = Some (f\<lparr>f_updated := now\<rparr>))) \<and>
    (pid \<notin> {old, f_pid f} \<longrightarrow> frags s'' pid = frags s pid)"
  proof (cases r)
    case (Inl err)
    then show ?thesis using put_good [OF assms(1,2)] put_err [OF assms(1)] assms(2,4) by auto
  next
    case (Inr u)
    then have d: "del old s' = (q, s'')" and g: "good s'" using assms put_good by auto
    from Inr assms(2) have "put f s e = (Inr (), s', e')" by simp
    from put_ok [OF assms(1) this] obtain now
      where f: "frags s' = (frags s)(f_pid f \<mapsto> f\<lparr>f_updated := now\<rparr>)" by blast
    show ?thesis
      using del_good [OF g d] del_ok [OF g] del_err [OF g] d f assms(5) by (cases q) auto
  qed
  then show "good s''"
    "frags s'' old = frags s old \<or> (\<exists>now. frags s'' (f_pid f) = Some (f\<lparr>f_updated := now\<rparr>))"
    "pid \<notin> {old, f_pid f} \<Longrightarrow> frags s'' pid = frags s pid"
    by simp_all
qed

end

interpretation node_store: fragment_store frags_of db_wf put_fragment get_fragment delete_fragment
proof
  fix s f e s' e' and r :: "unit res"
  assume "db_wf s" "put_fragment f s e = (r, s', e')"
  then show "db_wf s'" by (rule put_fragment_wf)
next
  fix s f e s' e' err
  assume "put_fragment f s e = (Inl err, s', e')"
  then show "frags_of s' = frags_of s" by (rule put_fragment_cases) (auto simp: same_tables_frags)
next
  fix s pid r s'
  assume "db_wf s" "get_fragment pid s = (r, s')"
  then show "db_wf s' \<and> frags_of s' = frags_of s"
    using get_fragment_keeps same_tables_wf same_tables_frags by blast
next
  fix s pid s'
  assume "db_wf s" "get_fragment pid s = (Inl ErrNotFound, s')"
  then show "frags_of s pid = None" by (rule get_fragment_none)
next
  fix s pid err s'
  assume "delete_fragment pid s = (Inl err, s')"
  then show "frags_of s' = frags_of s" by (rule delete_fragment_cases) (auto simp: same_tables_frags)
qed (blast intro: put_fragment_map get_fragment_map delete_fragment_map delete_fragment_wf)+


section \<open>Reading back, and the exact effect of a sibling update\<close>

lemma filter_key: "distinct (map key t) \<Longrightarrow>
    filter (\<lambda>x. key x = k) t = (case row_at key t k of None \<Rightarrow> [] | Some r \<Rightarrow> [r])"
  unfolding row_at_def
proof (induction t)
  case (Cons x t)
  show ?case
  proof (cases "key x = k")
    case True
    have "\<forall>y \<in> set t. key y \<noteq> k" using Cons.prems True by (metis distinct.simps(2) image_eqI list.simps(9) set_map)
    then have "filter (\<lambda>x. key x = k) t = []" by simp
    with True show ?thesis by simp
  next
    case False
    with Cons show ?thesis by simp
  qed
qed simp

lemma get_fragment_found:
  assumes "db_wf d" "frags_of d pid = Some f" "\<not> sql_broken d (stmts d)" "row_stop d (stmts d) \<noteq> Some 0"
  shows "get_fragment pid d = (Inr f, d\<lparr>stmts := Suc (stmts d)\<rparr>)"
proof -
  from assms(2) obtain r where r: "row_at r_pid (frag_table d) pid = Some r"
      "scan_fragment (storage_key d) r = Inr f"
    by (cases "row_at r_pid (frag_table d) pid"; cases "scan_fragment (storage_key d) (the (row_at r_pid (frag_table d) pid))")
      (auto simp: frags_of_def readable_def)
  have "filter (\<lambda>r. r_pid r = pid) (frag_table d) = [r]"
    using assms(1) r(1) by (simp add: filter_key db_wf_def)
  then show ?thesis
    using assms(3,4) r(2) by (simp add: get_fragment_def get_fragment_where_def query_row_def Let_def)
qed

lemma write_updates_exact:
  "write_updates us d = (Inr (), d') \<Longrightarrow> distinct (map fst us) \<Longrightarrow>
   frag_table d' = map (\<lambda>r. case map_of us (r_pid r) of None \<Rightarrow> r | Some c \<Rightarrow> r\<lparr>r_members := c\<rparr>) (frag_table d)"
proof (induction us d arbitrary: d' rule: write_updates.induct)
  case (2 pid c us d)
  let ?f = "\<lambda>r. if r_pid r = pid then r\<lparr>r_members := c\<rparr> else r"
  let ?d = "d\<lparr>stmts := Suc (stmts d), frag_table := map ?f (frag_table d)\<rparr>"
  from 2(2) have e: "exec (\<lambda>d. d\<lparr>frag_table := map ?f (frag_table d)\<rparr>) d = (Inr (), ?d)"
    by (auto simp: exec_def Let_def split: if_splits)
  with 2(2) have "write_updates us ?d = (Inr (), d')" by simp
  from 2(1) [OF e [symmetric] refl this] 2(3)
  have "frag_table d' = map (\<lambda>r. case map_of us (r_pid r) of None \<Rightarrow> r | Some c \<Rightarrow> r\<lparr>r_members := c\<rparr>)
      (map ?f (frag_table d))" by simp
  moreover have "map_of us pid = None" using 2(3) by (simp add: map_of_eq_None_iff)
  ultimately show ?case by (auto split: option.splits)
qed simp

definition rename_column :: "string \<Rightarrow> string \<Rightarrow> string \<Rightarrow> json_column \<Rightarrow> json_column" where
  "rename_column oldPID newPID ep c =
     (case c of MembersJson ms \<Rightarrow> MembersJson (map (rename_member oldPID newPID ep) ms)
      | OtherText t \<Rightarrow> OtherText t)"

lemma rename_absent: "oldPID \<notin> m_pid ` set ms \<Longrightarrow> map (rename_member oldPID newPID ep) ms = ms"
  by (induction ms) (auto simp: rename_member_def)

lemma sibling_updates_exact:
  "sibling_updates oldPID newPID ep rows = Inr us \<Longrightarrow> distinct (map r_pid rows) \<Longrightarrow>
   fst ` set us \<subseteq> r_pid ` set rows \<and> distinct (map fst us) \<and>
   (\<forall>r \<in> set rows. (case map_of us (r_pid r) of None \<Rightarrow> r | Some c \<Rightarrow> r\<lparr>r_members := c\<rparr>) =
      r\<lparr>r_members := rename_column oldPID newPID ep (r_members r)\<rparr>)"
proof (induction rows arbitrary: us)
  case (Cons r rows)
  from Cons.prems(1) obtain ms vs where ms: "r_members r = MembersJson ms"
    and vs: "sibling_updates oldPID newPID ep rows = Inr vs"
    and us: "us = (if oldPID \<in> m_pid ` set ms
        then (r_pid r, MembersJson (map (rename_member oldPID newPID ep) ms)) # vs else vs)"
    by (auto simp: unmarshal_members_def split: sum.splits json_column.splits)
  note ih = Cons.IH [OF vs]
  have new: "r_pid r \<notin> r_pid ` set rows" and old: "distinct (map r_pid rows)" using Cons.prems(2) by auto
  have "map_of vs (r_pid r) = None" using ih [OF old] new by (auto simp: map_of_eq_None_iff)
  then have "(case map_of us (r_pid r) of None \<Rightarrow> r | Some c \<Rightarrow> r\<lparr>r_members := c\<rparr>) =
      r\<lparr>r_members := rename_column oldPID newPID ep (r_members r)\<rparr>"
    by (auto simp: us ms rename_column_def rename_absent)
  moreover have "map_of us (r_pid q) = map_of vs (r_pid q)" if "q \<in> set rows" for q
  proof -
    from that new have "r_pid q \<noteq> r_pid r" by (metis imageI)
    then show ?thesis by (simp add: us)
  qed
  ultimately show ?case using ih [OF old] new by (auto simp: us)
qed simp

section \<open>Properties\<close>

text \<open>A fragment that was stored is read back as it was stored, key and members included, with
  the time of the write as its update time; the read fails only with an error of the SQL engine.\<close>

theorem stored_fragment_reads_back:
  assumes "db_wf d" "put_fragment f d e = (Inr (), d', e')"
  shows "fst (get_fragment (f_pid f) d') =
    (if sql_broken d' (stmts d') \<or> row_stop d' (stmts d') = Some 0 then Inl ErrSql
     else Inr (f\<lparr>f_updated := wall d (stmts d)\<rparr>))"
proof -
  have "frags_of d' (f_pid f) = Some (f\<lparr>f_updated := wall d (stmts d)\<rparr>)"
    using put_fragment_map [OF assms(2)] by simp
  from get_fragment_found [OF put_fragment_wf [OF assms] this] show ?thesis
    by (auto simp: get_fragment_def get_fragment_where_def query_row_def Let_def)
qed

definition empty_db :: db where
  "empty_db = \<lparr>frag_table = [], manifest_table = [], peer_table = [], storage_key = replicate 32 1,
     sql_broken = \<lambda>_. False, row_stop = \<lambda>_. None, row_order = \<lambda>_ i. i, wall = int, stmts = 0\<rparr>"

definition entropy_zero :: entropy where
  "entropy_zero = \<lparr>tape = \<lambda>_ _. 0, broken = \<lambda>_. False, draws = 0\<rparr>"

definition frag1 :: fragment where
  "frag1 = \<lparr>f_pid = ''p'', f_group = ''g'', f_token = ''t'', f_chain = ''c'', f_epoch = 0, f_threshold = 2,
     f_total = 2, f_key = replicate 32 2, f_ciphertext = [1], f_members = [], f_updated = 0\<rparr>"

lemma empty_db_wf: "db_wf empty_db"
  by (simp add: db_wf_def empty_db_def)

inductive store_reachable :: "db \<Rightarrow> bool" where
  opened: "open_store X nodeRoot d0 = (Inr (), d) \<Longrightarrow> frag_table d0 = [] \<Longrightarrow> manifest_table d0 = [] \<Longrightarrow>
    peer_table d0 = [] \<Longrightarrow> store_reachable d"
| put: "store_reachable d \<Longrightarrow> put_fragment f d e = (r, d', e') \<Longrightarrow> store_reachable d'"
| get: "store_reachable d \<Longrightarrow> get_fragment pid d = (rf, d') \<Longrightarrow> store_reachable d'"
| get_group: "store_reachable d \<Longrightarrow> get_fragment_by_group g d = (rf, d') \<Longrightarrow> store_reachable d'"
| del: "store_reachable d \<Longrightarrow> delete_fragment pid d = (r, d') \<Longrightarrow> store_reachable d'"
| sibling: "store_reachable d \<Longrightarrow> update_sibling g oldPID newPID ep d = (r, d') \<Longrightarrow> store_reachable d'"
| pids: "store_reachable d \<Longrightarrow> list_fragment_pids d = (rs, d') \<Longrightarrow> store_reachable d'"
| put_m: "store_reachable d \<Longrightarrow> put_manifest m d = (r, d') \<Longrightarrow> store_reachable d'"
| get_m: "store_reachable d \<Longrightarrow> get_manifest n d = (rm, d') \<Longrightarrow> store_reachable d'"
| get_m_group: "store_reachable d \<Longrightarrow> get_manifest_by_group g d = (rm, d') \<Longrightarrow> store_reachable d'"
| list_m: "store_reachable d \<Longrightarrow> list_manifests_by_kind k d = (rms, d') \<Longrightarrow> store_reachable d'"
| member: "store_reachable d \<Longrightarrow> update_manifest_member g oldPID newPID ep d = (r, d') \<Longrightarrow> store_reachable d'"
| put_p: "store_reachable d \<Longrightarrow> put_mesh_peer p d = (r, d') \<Longrightarrow> store_reachable d'"
| del_p: "store_reachable d \<Longrightarrow> delete_mesh_peer n d = (r, d') \<Longrightarrow> store_reachable d'"
| list_p: "store_reachable d \<Longrightarrow> list_mesh_peers d = (rps, d') \<Longrightarrow> store_reachable d'"

text \<open>Every database reached from a freshly opened one by any calls of the store's methods, whether
  they succeed or fail, has unique primary keys, and every fragment and manifest row in it can be
  read back: keys stay wrapped under the storage key with the name of their row.\<close>

theorem reachable_store_wf: "store_reachable d \<Longrightarrow> db_wf d"
proof (induction rule: store_reachable.induct)
  case (opened X nodeRoot d0 d)
  then show ?case
    by (auto simp: open_store_def exec_def Let_def db_wf_def split: sum.splits if_splits)
qed (blast dest: keeps same_tables_wf intro: invs)+

theorem reachable_store_wf_witness:
  "\<exists>d. open_store sample_packages [1] empty_db = (Inr (), d) \<and> db_wf d"
proof -
  have "\<exists>d. open_store sample_packages [1] empty_db = (Inr (), d)"
    by (simp add: open_store_def derive_fragment_root_def hkdf_expand_def sample_packages_def rfc5869_def
        Let_def KeySize_def exec_def empty_db_def)
  then obtain d where d: "open_store sample_packages [1] empty_db = (Inr (), d)" ..
  have "store_reachable d" by (rule store_reachable.opened [OF d]) (simp_all add: empty_db_def)
  with d reachable_store_wf show ?thesis by blast
qed



text \<open>All rows of the group, and only these, have the members renamed.\<close>

lemma update_sibling_rows:
  assumes "db_wf d" "update_sibling g oldPID newPID ep d = (Inr (), d')" "row_stop d (stmts d) = None"
  shows "frag_table d' = map (\<lambda>r. if r_group r = g
    then r\<lparr>r_members := rename_column oldPID newPID ep (r_members r)\<rparr> else r) (frag_table d)"
proof -
  let ?rows = "filter (\<lambda>r. r_group r = g) (frag_table d)" and ?d = "d\<lparr>stmts := Suc (stmts d)\<rparr>"
  let ?up = "\<lambda>us r. case map_of us (r_pid r) of None \<Rightarrow> r | Some c \<Rightarrow> r\<lparr>r_members := c\<rparr>"
  let ?rs = "arrange (row_order d (stmts d)) ?rows"
  from assms(2,3) have "query_rows ?rows d = (Inr ?rs, ?d)"
    by (auto simp: update_sibling_def query_rows_def Let_def split: if_splits)
  with assms(2) obtain us where us: "sibling_updates oldPID newPID ep ?rs = Inr us"
      "write_updates us ?d = (Inr (), d')"
    by (auto simp: update_sibling_def split: sum.splits)
  have "mset (map r_pid ?rs) = mset (map r_pid ?rows)" by simp
  moreover have keys: "distinct (map r_pid (frag_table d))" using assms(1) by (simp add: db_wf_def)
  ultimately have "distinct (map r_pid ?rs)"
    by (metis distinct_map_filter mset_eq_imp_distinct_iff)
  note ex = sibling_updates_exact [OF us(1) this]
  have "?up us r = (if r_group r = g then r\<lparr>r_members := rename_column oldPID newPID ep (r_members r)\<rparr> else r)"
    if r: "r \<in> set (frag_table d)" for r
  proof (cases "r_group r = g")
    case False
    have "r_pid r \<notin> fst ` set us"
    proof
      assume "r_pid r \<in> fst ` set us"
      then obtain q where "q \<in> set (frag_table d)" "r_group q = g" "r_pid q = r_pid r" using ex by auto
      then show False using False r keys by (metis distinct_map inj_onD)
    qed
    then have "map_of us (r_pid r) = None" by (simp add: map_of_eq_None_iff)
    then show ?thesis using False by simp
  qed (use ex r in auto)
  then show ?thesis using write_updates_exact [OF us(2)] ex by simp
qed

text \<open>\<open>PutManifest\<close> binds the name to the manifest, with kind \<open>secret\<close> where none is given; a name
  already bound keeps its creation time, and no other manifest changes.\<close>

theorem put_manifest_upserts:
  assumes "db_wf d" "put_manifest m d = (Inr (), d')"
  shows "manifests_of d' = (manifests_of d)(mf_name m \<mapsto>
    m\<lparr>mf_kind := (if mf_kind m = [] then ''secret'' else mf_kind m),
      mf_created := (case manifests_of d (mf_name m) of None \<Rightarrow> wall d (stmts d) | Some old \<Rightarrow> mf_created old)\<rparr>)"
  using assms by (rule put_manifest_map)

end
