(* ===== verification/HashChain.thy ===== *)
theory HashChain
  imports Keys
begin

text \<open>
  The cold-mutation hash chain: \<open>BuildChain\<close> and \<open>VerifyStep\<close> of \<open>crypto/hashchain.go\<close> and
  the client's \<open>ColdChain.Consume\<close> of \<open>client/node.go\<close>. The lemmas show which links verify
  against which anchor, and that the links run in the direction of the hash.
\<close>

section \<open>The routines of the source\<close>

fun build_chain_loop :: "nat \<Rightarrow> bytes list \<Rightarrow> bytes list" where
  "build_chain_loop 0 chain = chain"
| "build_chain_loop (Suc i) chain = build_chain_loop i (chain[i := sha256 (chain ! (i + 1))])"

definition build_chain :: "int \<Rightarrow> entropy \<Rightarrow> bytes list res \<times> entropy" where
  "build_chain len e =
     (let len' = nat (if len < 1 then 1 else len);
          chain = replicate (len' + 1) []
      in case rand_read 32 e of
           (Inl err, e') \<Rightarrow> (Inl err, e')
         | (Inr r, e') \<Rightarrow> (Inr (build_chain_loop len' (chain[len' := r])), e'))"

definition verify_step :: "bytes \<Rightarrow> bytes \<Rightarrow> bool" where
  "verify_step revealed previouslyTrusted =
     (let h = sha256 previouslyTrusted
      in if length h \<noteq> length revealed then False
         else fold (\<lambda>i diff. diff OR (h ! i XOR revealed ! i)) [0..<length h] 0 = 0)"

record cold_chain =
  chain :: "bytes list"
  next_link :: int

definition consume :: "cold_chain \<Rightarrow> bytes option \<times> cold_chain" where
  "consume c =
     (if next_link c < 0 then (None, c)
      else (Some (chain c ! nat (next_link c)), c\<lparr>next_link := next_link c - 1\<rparr>))"

section \<open>Links and anchors\<close>

lemma fold_or_zero:
  "fold (\<lambda>i diff. diff OR f i) is d = 0 \<longleftrightarrow> d = 0 \<and> (\<forall>i \<in> set is. f i = 0)" for f :: "nat \<Rightarrow> byte"
  by (induction "is" arbitrary: d) (auto simp: or_eq_0_iff)

lemma xor_eq_0_iff: "x XOR y = 0 \<longleftrightarrow> x = y" for x y :: byte
  by (metis xor_self_eq xor.assoc xor.left_neutral xor.right_neutral)

lemma verify_step_iff: "verify_step revealed trusted \<longleftrightarrow> revealed = sha256 trusted"
  by (auto simp: verify_step_def Let_def fold_or_zero xor_eq_0_iff list_eq_iff_nth_eq)

definition chain_linked :: "bytes list \<Rightarrow> bool" where
  "chain_linked ch \<longleftrightarrow> (\<forall>i. Suc i < length ch \<longrightarrow> ch ! i = sha256 (ch ! Suc i))"

lemma build_chain_loop_linked:
  assumes "n < length ch" "\<And>i. n \<le> i \<Longrightarrow> Suc i < length ch \<Longrightarrow> ch ! i = sha256 (ch ! Suc i)"
  shows "chain_linked (build_chain_loop n ch) \<and> length (build_chain_loop n ch) = length ch
    \<and> (\<forall>i. n \<le> i \<longrightarrow> build_chain_loop n ch ! i = ch ! i)"
  using assms
proof (induction n arbitrary: ch)
  case 0
  then show ?case by (simp add: chain_linked_def)
next
  case (Suc n)
  let ?ch = "ch[n := sha256 (ch ! (n + 1))]"
  have "?ch ! i = sha256 (?ch ! Suc i)" if "n \<le> i" "Suc i < length ?ch" for i
    using that Suc.prems by (cases "i = n") auto
  from Suc.IH [OF _ this] Suc.prems(1) show ?case by simp
qed

lemma build_chain_Inr:
  assumes "build_chain len e = (Inr ch, e')" "1 \<le> len"
  shows "chain_linked ch" "length ch = nat len + 1" "ch ! nat len = map (tape e (draws e)) [0..<32]"
    "e' = e\<lparr>draws := Suc (draws e)\<rparr>"
proof -
  define ch0 where "ch0 = (replicate (nat len + 1) [])[nat len := map (tape e (draws e)) [0..<32]]"
  have ch0: "length ch0 = nat len + 1" "ch0 ! nat len = map (tape e (draws e)) [0..<32]"
    unfolding ch0_def by (rule length_list_update [THEN trans], simp) (rule nth_list_update_eq, simp)
  have ch: "ch = build_chain_loop (nat len) ch0" "e' = e\<lparr>draws := Suc (draws e)\<rparr>"
    using assms unfolding ch0_def by (auto simp: build_chain_def rand_read_def Let_def split: if_splits)
  have "chain_linked ch \<and> length ch = length ch0 \<and> (\<forall>i. nat len \<le> i \<longrightarrow> ch ! i = ch0 ! i)"
    unfolding ch(1) by (rule build_chain_loop_linked) (simp_all add: ch0)
  then show "chain_linked ch" "length ch = nat len + 1"
    "ch ! nat len = map (tape e (draws e)) [0..<32]" "e' = e\<lparr>draws := Suc (draws e)\<rparr>"
    using ch ch0 by auto
qed

lemma chain_iterate:
  "chain_linked ch \<Longrightarrow> k + i < length ch \<Longrightarrow> ch ! i = (sha256 ^^ k) (ch ! (k + i))"
proof (induction k arbitrary: i)
  case (Suc k)
  from Suc.IH [of "Suc i"] Suc.prems show ?case
    by (simp add: chain_linked_def funpow_swap1 del: funpow.simps) (simp add: funpow_swap1)
qed simp


section \<open>Consuming links\<close>

definition cold_wf :: "cold_chain \<Rightarrow> bool" where
  "cold_wf c \<longleftrightarrow> chain_linked (chain c) \<and> - 1 \<le> next_link c \<and> next_link c < int (length (chain c)) - 1"

text \<open>The anchor the holder of the chain expects the verifier to trust: the link above the next.\<close>

definition cold_anchor :: "cold_chain \<Rightarrow> bytes" where
  "cold_anchor c = chain c ! nat (next_link c + 1)"

lemma consume_wf: "cold_wf c \<Longrightarrow> consume c = (r, c') \<Longrightarrow> cold_wf c'"
  by (auto simp: consume_def cold_wf_def split: if_splits)

lemma consume_None: "consume c = (None, c') \<longleftrightarrow> next_link c < 0 \<and> c' = c"
  by (auto simp: consume_def)

lemma consume_Some:
  assumes "cold_wf c" "consume c = (Some seed, c')"
  shows "seed = sha256 (cold_anchor c)" "cold_anchor c' = seed" "0 \<le> next_link c"
    "next_link c' = next_link c - 1" "chain c' = chain c" "length seed = 32"
proof -
  have n: "0 \<le> next_link c" "seed = chain c ! nat (next_link c)" "c' = c\<lparr>next_link := next_link c - 1\<rparr>"
    using assms(2) by (auto simp: consume_def split: if_splits)
  have "Suc (nat (next_link c)) < length (chain c)" "nat (next_link c + 1) = Suc (nat (next_link c))"
    using assms(1) n(1) by (auto simp: cold_wf_def)
  then show s: "seed = sha256 (cold_anchor c)"
    using assms(1) n by (simp add: cold_wf_def chain_linked_def cold_anchor_def)
  then show "length seed = 32" by simp
  show "cold_anchor c' = seed" "0 \<le> next_link c" "next_link c' = next_link c - 1" "chain c' = chain c"
    using n by (simp_all add: cold_anchor_def)
qed

text \<open>\<open>k\<close> consumptions in a row, oldest seed first.\<close>

fun consume_n :: "nat \<Rightarrow> cold_chain \<Rightarrow> bytes option list \<times> cold_chain" where
  "consume_n 0 c = ([], c)"
| "consume_n (Suc k) c =
     (let (r, c') = consume c; (rs, c'') = consume_n k c' in (r # rs, c''))"

lemma consume_n_seeds:
  "cold_wf c \<Longrightarrow> int k \<le> next_link c + 1 \<Longrightarrow>
   fst (consume_n k c) = map (\<lambda>j. Some ((sha256 ^^ Suc j) (cold_anchor c))) [0..<k]"
proof (induction k arbitrary: c)
  case (Suc k)
  obtain seed c' where c': "consume c = (Some seed, c')"
    using Suc.prems(2) by (auto simp: consume_def)
  note s = consume_Some [OF Suc.prems(1) c']
  have "fst (consume_n k c') = map (\<lambda>j. Some ((sha256 ^^ Suc j) seed)) [0..<k]"
    using Suc.IH [OF consume_wf [OF Suc.prems(1) c']] Suc.prems(2) s by simp
  then have "fst (consume_n (Suc k) c) = Some seed # map (\<lambda>j. Some ((sha256 ^^ Suc j) seed)) [0..<k]"
    by (cases "consume_n k c'") (simp add: c')
  also have "\<dots> = map (\<lambda>j. Some ((sha256 ^^ Suc j) (cold_anchor c))) [0..<Suc k]"
    by (simp add: s(1) funpow_swap1 upt_conv_Cons map_Suc_upt [symmetric] comp_def
        del: upt_Suc map_Suc_upt)
  finally show ?case .
qed simp

lemma build_chain_cold:
  assumes "build_chain len e = (Inr ch, e')" "1 \<le> len"
  shows "cold_wf \<lparr>chain = ch, next_link = len - 1\<rparr>"
    "cold_anchor \<lparr>chain = ch, next_link = len - 1\<rparr> = ch ! nat len"
  using build_chain_Inr [OF assms] assms(2) by (auto simp: cold_wf_def cold_anchor_def)

section \<open>Properties\<close>

text \<open>\<open>VerifyStep\<close> accepts exactly the SHA-256 of the trusted link, whatever the length of the
  revealed value; every step of a chain from \<open>BuildChain\<close> passes it.\<close>

theorem chain_steps_verify:
  assumes "build_chain len e = (Inr ch, e')" "1 \<le> len" "i < nat len"
  shows "length ch = nat len + 1 \<and> verify_step (ch ! i) (ch ! (i + 1))
    \<and> (verify_step revealed (ch ! (i + 1)) \<longleftrightarrow> revealed = ch ! i)"
  using build_chain_Inr [OF assms(1,2)] assms(3) by (simp add: verify_step_iff chain_linked_def)

definition entropy0 :: entropy where
  "entropy0 = \<lparr>tape = \<lambda>_ _. 0, broken = \<lambda>_. False, draws = 0\<rparr>"

definition chain2 :: "bytes list" where
  "chain2 = [sha256 (sha256 (replicate 32 0)), sha256 (replicate 32 0), replicate 32 0]"

lemma build_chain_example: "build_chain 2 entropy0 = (Inr chain2, entropy0\<lparr>draws := 1\<rparr>)"
proof -
  have z: "map (\<lambda>_. 0) [0..<32] = (replicate 32 0 :: bytes)" by (simp add: map_replicate_const)
  have two: "nat 2 = Suc (Suc 0)" by simp
  show ?thesis
    unfolding build_chain_def rand_read_def entropy0_def chain2_def
    by (simp add: z two Let_def numeral_2_eq_2)
qed

theorem chain_steps_verify_witness:
  "length chain2 = nat 2 + 1 \<and> verify_step (chain2 ! 1) (chain2 ! (1 + 1))
    \<and> (verify_step [7] (chain2 ! (1 + 1)) \<longleftrightarrow> [7] = chain2 ! 1)"
  by (rule chain_steps_verify [OF build_chain_example]) simp_all

text \<open>C31: The links a client reveals are computable from the announced tip: the \<open>j\<close>-th seed
  consumed from a chain of \<open>len\<close> links is the tip hashed \<open>j + 1\<close> times. The code hashes from the
  trusted anchor to the revealed seed, so whoever knows the anchor (the orchestrator, or anyone
  who saw the announcement) can compute every later seed in advance.\<close>

theorem cold_seeds_from_tip:
  assumes "build_chain len e = (Inr ch, e')" "1 \<le> len" "int k \<le> len"
  shows "fst (consume_n k \<lparr>chain = ch, next_link = len - 1\<rparr>) =
    map (\<lambda>j. Some ((sha256 ^^ Suc j) (ch ! nat len))) [0..<k]"
  using consume_n_seeds [OF build_chain_cold(1) [OF assms(1,2)], of k] assms(3)
    build_chain_cold(2) [OF assms(1,2)] by simp

theorem cold_seeds_from_tip_witness:
  "fst (consume_n 2 \<lparr>chain = chain2, next_link = 2 - 1\<rparr>) =
    map (\<lambda>j. Some ((sha256 ^^ Suc j) (chain2 ! nat 2))) [0..<2]"
  by (rule cold_seeds_from_tip [OF build_chain_example]) simp_all

end
