(* ===== verification/Messages.thy ===== *)
theory Messages
  imports Prelude
begin

text \<open>
  The wire messages of \<open>protocol/messages.go\<close> and \<open>peer/messages.go\<close>, one record per struct with
  its fields in order, and the orchestrator's events (\<open>orchestrator/event.go\<close>). Bodies travel as
  JSON; the model passes the values the JSON encodes, and \<open>None\<close> where a body does not decode.
\<close>

section \<open>Between nodes and the orchestrator\<close>

record heartbeat =
  hb_node :: string
  hb_pid :: string
  hb_epoch :: "64 word"
  hb_risk :: int
  hb_por :: string

record mutation_seed =
  ms_pid :: string
  ms_seed :: bytes
  ms_reason :: string
  ms_epoch :: "64 word"

record mutation_ack =
  ack_node :: string
  ack_old :: string
  ack_new :: string
  ack_epoch :: "64 word"
  ack_commitment :: string
  ack_reason :: string
  ack_chain :: string
  ack_seed :: bytes

record route_entry =
  re_pid :: string
  re_node :: string
  re_endpoint :: string
  re_epoch :: "64 word"
  re_chain :: string

record map_delta =
  md_epoch :: "64 word"
  md_changes :: "route_entry list"

record immune_alert =
  al_node :: string
  al_pid :: string
  al_severity :: string
  al_at :: int

record route_announce =
  ra_node :: string
  ra_pid :: string
  ra_endpoint :: string
  ra_chain :: string
  ra_tip :: bytes

record register_request =
  rr_node :: string
  rr_endpoint :: string

record register_response =
  rr_ok :: bool

record node_info =
  ni_node :: string
  ni_endpoint :: string

text \<open>An event: its type and the payload its data encodes. \<open>must_event\<close> never panics: every
  payload is a struct of marshalable fields.\<close>

datatype payload = SeedData mutation_seed | DeltaData map_delta

record event =
  ev_type :: string
  ev_data :: payload

definition must_event :: "string \<Rightarrow> payload \<Rightarrow> event" where
  "must_event evType p = \<lparr>ev_type = evType, ev_data = p\<rparr>"

section \<open>Between nodes\<close>

record peer_member =
  pm_pid :: string
  pm_node :: string
  pm_endpoint :: string

record deliver_request =
  dr_group :: string
  dr_token :: string
  dr_pid :: string
  dr_epoch :: "64 word"
  dr_threshold :: int
  dr_total :: int
  dr_key :: bytes
  dr_ciphertext :: bytes
  dr_members :: "peer_member list"

record mutation_notice =
  mn_group :: string
  mn_token :: string
  mn_old :: string
  mn_new :: string
  mn_endpoint :: string
  mn_epoch :: "64 word"

record presence_response =
  pr_present :: bool
  pr_epoch :: "64 word"

record share_response =
  sr_share :: bytes
  sr_epoch :: "64 word"

end
