(* ===== verification/Orchestrator.thy ===== *)
theory Orchestrator
  imports HashChain Messages "HOL-Library.AList" "HOL-Library.Sublist"
begin

text \<open>
  The Server-Orchestrator, \<open>orchestrator/orchestrator.go\<close>, \<open>event.go\<close> and \<open>server.go\<close>: the blind
  routing table, the node registry, the anchors of the cold hash chains, the alert throttle and
  the subscribers' event channels. The lemmas show what each operation does to the tables, that
  channels deliver events in order without blocking the control plane, and when a send panics.
\<close>

section \<open>Event channels\<close>

text \<open>
  A subscriber channel \<open>make(chan protocol.Event, 16)\<close>: a buffer, and whether it was closed.
  \<open>try_send\<close> is \<open>select { case ch <- ev: default: }\<close>: it drops the event when the buffer is full
  and panics when the channel is closed. \<open>recv\<close> is the receive of the \<open>/events\<close> handler, which
  finds nothing (\<open>None\<close>) or the end of a closed and drained channel (\<open>Some None\<close>).
\<close>

record channel =
  buffered :: "event list"
  is_closed :: bool

definition chan_cap :: nat where "chan_cap = 16"

definition make_chan :: channel where
  "make_chan = \<lparr>buffered = [], is_closed = False\<rparr>"

definition try_send :: "event \<Rightarrow> channel \<Rightarrow> channel res" where
  "try_send ev c =
     (if is_closed c then Inl (Panic ''send on closed channel'')
      else if length (buffered c) < chan_cap then Inr (c\<lparr>buffered := buffered c @ [ev]\<rparr>)
      else Inr c)"

definition recv :: "channel \<Rightarrow> event option option \<times> channel" where
  "recv c =
     (case buffered c of
        ev # rest \<Rightarrow> (Some (Some ev), c\<lparr>buffered := rest\<rparr>)
      | [] \<Rightarrow> (if is_closed c then Some None else None, c))"

definition close_chan :: "channel \<Rightarrow> channel res" where
  "close_chan c =
     (if is_closed c then Inl (Panic ''close of closed channel'') else Inr (c\<lparr>is_closed := True\<rparr>))"

section \<open>State\<close>

record node_entry =
  ne_endpoint :: string
  ne_seen :: int

text \<open>
  Go maps are association lists with unique keys, iterated in the arbitrary order
  \<open>range_order k\<close> of the \<open>k\<close>-th iteration. Times are in nanoseconds.
\<close>

record orchestrator =
  o_nodes :: "(string \<times> node_entry) list"
  o_routes :: "(string \<times> route_entry) list"
  o_epoch :: "64 word"
  o_subs :: "(string \<times> nat) list"
  o_alerts :: "(string \<times> int) list"
  o_anchors :: "(string \<times> bytes) list"
  o_interval :: int
  o_jitter :: int
  o_chans :: "nat \<Rightarrow> channel"
  o_next :: nat
  range_order :: "nat \<Rightarrow> nat \<Rightarrow> nat"
  ranges :: nat

definition second :: int where "second = 1000000000"

definition new_orchestrator :: "(nat \<Rightarrow> nat \<Rightarrow> nat) \<Rightarrow> orchestrator" where
  "new_orchestrator ord =
     \<lparr>o_nodes = [], o_routes = [], o_epoch = 0, o_subs = [], o_alerts = [], o_anchors = [],
      o_interval = 20 * second, o_jitter = 15 * second,
      o_chans = (\<lambda>_. make_chan), o_next = 0, range_order = ord, ranges = 0\<rparr>"

definition range_values :: "(string \<times> 'a) list \<Rightarrow> orchestrator \<Rightarrow> (string \<times> 'a) list \<times> orchestrator" where
  "range_values m o1 = (arrange (range_order o1 (ranges o1)) m, o1\<lparr>ranges := Suc (ranges o1)\<rparr>)"

section \<open>Gossip\<close>

definition set_chan :: "nat \<Rightarrow> channel \<Rightarrow> orchestrator \<Rightarrow> orchestrator" where
  "set_chan i c o1 = o1\<lparr>o_chans := (o_chans o1)(i := c)\<rparr>"

definition send_to :: "event \<Rightarrow> nat \<Rightarrow> orchestrator \<Rightarrow> unit res \<times> orchestrator" where
  "send_to ev i o1 =
     (case try_send ev (o_chans o1 i) of
        Inl p \<Rightarrow> (Inl p, o1)
      | Inr c \<Rightarrow> (Inr (), set_chan i c o1))"

fun send_all :: "event \<Rightarrow> nat list \<Rightarrow> orchestrator \<Rightarrow> unit res \<times> orchestrator" where
  "send_all ev [] o1 = (Inr (), o1)"
| "send_all ev (i # is) o1 =
     (case send_to ev i o1 of
        (Inl p, o2) \<Rightarrow> (Inl p, o2)
      | (Inr _, o2) \<Rightarrow> send_all ev is o2)"

text \<open>
  \<open>broadcastDelta\<close> numbers the delta and copies the list of channels under the lock, then
  releases it and sends: \<open>delta_snapshot\<close> is the first half, \<open>send_all\<close> the second.
\<close>

definition delta_snapshot ::
  "route_entry list \<Rightarrow> orchestrator \<Rightarrow> (event \<times> nat list) \<times> orchestrator" where
  "delta_snapshot changes o1 =
     (let o2 = o1\<lparr>o_epoch := o_epoch o1 + 1\<rparr>;
          delta = \<lparr>md_epoch = o_epoch o2, md_changes = changes\<rparr>;
          (subs, o3) = range_values (o_subs o2) o2
      in ((must_event ''map_delta'' (DeltaData delta), map snd subs), o3))"

definition broadcast_delta :: "route_entry list \<Rightarrow> orchestrator \<Rightarrow> unit res \<times> orchestrator" where
  "broadcast_delta changes o1 =
     (case delta_snapshot changes o1 of ((ev, subs), o2) \<Rightarrow> send_all ev subs o2)"

definition push_seed :: "string \<Rightarrow> mutation_seed \<Rightarrow> orchestrator \<Rightarrow> unit res \<times> orchestrator" where
  "push_seed nodeID seed o1 =
     (case map_of (o_subs o1) nodeID of
        None \<Rightarrow> (Inr (), o1)
      | Some i \<Rightarrow> send_to (must_event ''mutation_seed'' (SeedData seed)) i o1)"

section \<open>Operations\<close>

definition register :: "string \<Rightarrow> string \<Rightarrow> int \<Rightarrow> orchestrator \<Rightarrow> orchestrator" where
  "register nodeID ep now o1 =
     o1\<lparr>o_nodes := AList.update nodeID \<lparr>ne_endpoint = ep, ne_seen = now\<rparr> (o_nodes o1)\<rparr>"

definition heartbeat_op :: "heartbeat \<Rightarrow> int \<Rightarrow> orchestrator \<Rightarrow> orchestrator" where
  "heartbeat_op hb now o1 =
     (case map_of (o_nodes o1) (hb_node hb) of
        None \<Rightarrow> o1
      | Some n \<Rightarrow> o1\<lparr>o_nodes := AList.update (hb_node hb) (n\<lparr>ne_seen := now\<rparr>) (o_nodes o1)\<rparr>)"

definition announce_route :: "route_announce \<Rightarrow> orchestrator \<Rightarrow> unit res \<times> orchestrator" where
  "announce_route a o1 =
     (let entry = \<lparr>re_pid = ra_pid a, re_node = ra_node a, re_endpoint = ra_endpoint a,
                   re_epoch = 0, re_chain = ra_chain a\<rparr>
      in broadcast_delta [entry]
           (o1\<lparr>o_routes := AList.update (ra_pid a) entry (o_routes o1),
              o_anchors := AList.update (ra_chain a) (ra_tip a) (o_anchors o1)\<rparr>))"

text \<open>The outcome of the cold check, which the source only logs.\<close>

datatype verdict = NotCold | ChainUnknown | ChainFailed | ChainVerified

definition check_cold :: "mutation_ack \<Rightarrow> orchestrator \<Rightarrow> verdict \<times> orchestrator" where
  "check_cold a o1 =
     (if ack_reason a \<noteq> ''cold'' then (NotCold, o1)
      else case map_of (o_anchors o1) (ack_chain a) of
             None \<Rightarrow> (ChainUnknown, o1)
           | Some anchor \<Rightarrow>
               if \<not> verify_step (ack_seed a) anchor then (ChainFailed, o1)
               else (ChainVerified, o1\<lparr>o_anchors := AList.update (ack_chain a) (ack_seed a) (o_anchors o1)\<rparr>))"

definition ack_entry :: "mutation_ack \<Rightarrow> orchestrator \<Rightarrow> route_entry" where
  "ack_entry a o1 =
     \<lparr>re_pid = ack_new a, re_node = ack_node a,
      re_endpoint = (case map_of (o_routes o1) (ack_old a) of None \<Rightarrow> ack_node a | Some old \<Rightarrow> re_endpoint old),
      re_epoch = ack_epoch a, re_chain = ack_chain a\<rparr>"

definition ack_op :: "mutation_ack \<Rightarrow> orchestrator \<Rightarrow> (verdict \<times> unit res) \<times> orchestrator" where
  "ack_op a o1 =
     (case check_cold a o1 of
        (v, o2) \<Rightarrow>
          let entry = ack_entry a o2;
              o3 = o2\<lparr>o_routes := AList.update (ack_new a) entry (AList.delete (ack_old a) (o_routes o2))\<rparr>
          in case broadcast_delta [entry] o3 of (r, o4) \<Rightarrow> ((v, r), o4))"

definition alert_op :: "immune_alert \<Rightarrow> int \<Rightarrow> orchestrator \<Rightarrow> bool \<times> orchestrator" where
  "alert_op a now o1 =
     (case map_of (o_alerts o1) (al_node a) of
        Some lastAt \<Rightarrow>
          if now - lastAt < 3 * second then (False, o1)
          else (True, o1\<lparr>o_alerts := AList.update (al_node a) now (o_alerts o1)\<rparr>)
      | None \<Rightarrow> (True, o1\<lparr>o_alerts := AList.update (al_node a) now (o_alerts o1)\<rparr>))"

definition nodes_op :: "orchestrator \<Rightarrow> node_info list \<times> orchestrator" where
  "nodes_op o1 =
     (case range_values (o_nodes o1) o1 of
        (ns, o2) \<Rightarrow> (map (\<lambda>(i, n). \<lparr>ni_node = i, ni_endpoint = ne_endpoint n\<rparr>) ns, o2))"

definition snapshot_op :: "orchestrator \<Rightarrow> route_entry list \<times> orchestrator" where
  "snapshot_op o1 = (case range_values (o_routes o1) o1 of (es, o2) \<Rightarrow> (map snd es, o2))"

definition subscribe :: "string \<Rightarrow> orchestrator \<Rightarrow> nat \<times> orchestrator" where
  "subscribe nodeID o1 =
     (let i = o_next o1
      in (i, set_chan i make_chan
               (o1\<lparr>o_subs := AList.update nodeID i (o_subs o1), o_next := Suc i\<rparr>)))"

text \<open>The closure \<open>Subscribe\<close> returns: it deletes the node's entry and closes its own channel.\<close>

definition unsubscribe :: "string \<Rightarrow> nat \<Rightarrow> orchestrator \<Rightarrow> unit res \<times> orchestrator" where
  "unsubscribe nodeID i o1 =
     (let o2 = o1\<lparr>o_subs := AList.delete nodeID (o_subs o1)\<rparr>
      in case close_chan (o_chans o2 i) of
           Inl p \<Rightarrow> (Inl p, o2)
         | Inr c \<Rightarrow> (Inr (), set_chan i c o2))"

section \<open>Scheduled mutations\<close>

text \<open>\<open>rand.Int(rand.Reader, big.NewInt(n))\<close>: any number below \<open>n\<close>, or an error.\<close>

definition rand_int :: "nat \<Rightarrow> entropy \<Rightarrow> nat res \<times> entropy" where
  "rand_int n e =
     (case rand_read 8 e of
        (Inl err, e') \<Rightarrow> (Inl err, e')
      | (Inr bs, e') \<Rightarrow> (Inr (foldl (\<lambda>a b. a * 256 + unat b) 0 bs mod n), e'))"

definition jitter :: "int \<Rightarrow> entropy \<Rightarrow> int \<times> entropy" where
  "jitter mx e =
     (if mx \<le> 0 then (0, e)
      else case rand_int (nat mx) e of (Inl _, e') \<Rightarrow> (0, e') | (Inr n, e') \<Rightarrow> (int n, e'))"

text \<open>A \<open>time.Duration\<close> is an \<open>int64\<close>, so the sum wraps.\<close>

definition next_wait :: "orchestrator \<Rightarrow> entropy \<Rightarrow> int \<times> entropy" where
  "next_wait o1 e = (case jitter (o_jitter o1) e of (j, e') \<Rightarrow> (signed_take_bit 63 (o_interval o1 + j), e'))"

text \<open>What the loop of \<open>RunScheduledMutations\<close> does once its timer has fired.\<close>

definition scheduled_target :: "orchestrator \<Rightarrow> entropy \<Rightarrow> (string \<times> mutation_seed) option \<times> orchestrator \<times> entropy" where
  "scheduled_target o1 e =
     (case range_values (o_routes o1) o1 of
        (candidates, o2) \<Rightarrow>
          if candidates = [] then (None, o2, e)
          else case rand_int (length candidates) e of
            (Inl _, e1) \<Rightarrow> (None, o2, e1)
          | (Inr idx, e1) \<Rightarrow>
              let target = snd (candidates ! idx)
              in case rand_read 32 e1 of
                   (Inl _, e2) \<Rightarrow> (None, o2, e2)
                 | (Inr seed, e2) \<Rightarrow>
                     (Some (re_node target,
                        \<lparr>ms_pid = re_pid target, ms_seed = seed, ms_reason = ''scheduled'',
                         ms_epoch = re_epoch target + 1\<rparr>), o2, e2))"

definition scheduled_step :: "orchestrator \<Rightarrow> entropy \<Rightarrow> unit res \<times> orchestrator \<times> entropy" where
  "scheduled_step o1 e =
     (case scheduled_target o1 e of
        (None, o2, e') \<Rightarrow> (Inr (), o2, e')
      | (Some (nodeID, seed), o2, e') \<Rightarrow>
          (case push_seed nodeID seed o2 of (r, o3) \<Rightarrow> (r, o3, e')))"

section \<open>The HTTP surface\<close>

text \<open>
  The requests the mux routes; a body is \<open>None\<close> where it does not decode. \<open>GET /events\<close> opens a
  stream: its response is the channel whose events the handler copies to the connection.
\<close>

datatype orch_request =
    PostRegister "register_request option"
  | PostAnnounce "route_announce option"
  | PostHeartbeat "heartbeat option"
  | PostAck "mutation_ack option"
  | PostAlert "immune_alert option"
  | GetMap
  | GetNodes
  | GetEvents string

datatype orch_body =
    NoBody
  | ErrorText string
  | RegisterBody register_response
  | MapBody "route_entry list"
  | NodesBody "node_info list"
  | Stream nat

record orch_response =
  rs_status :: nat
  rs_body :: orch_body

text \<open>
  A panic inside a handler is caught by \<open>net/http\<close>, which drops the connection: no response.
\<close>

definition no_content :: "unit res \<times> orchestrator \<Rightarrow> orch_response option \<times> orchestrator" where
  "no_content ro =
     (case ro of
        (Inl _, o2) \<Rightarrow> (None, o2)
      | (Inr _, o2) \<Rightarrow> (Some \<lparr>rs_status = 204, rs_body = NoBody\<rparr>, o2))"

definition bad_request :: "orchestrator \<Rightarrow> orch_response option \<times> orchestrator" where
  "bad_request o1 = (Some \<lparr>rs_status = 400, rs_body = ErrorText ''bad request''\<rparr>, o1)"

definition orch_handle :: "orch_request \<Rightarrow> int \<Rightarrow> orchestrator \<Rightarrow> orch_response option \<times> orchestrator" where
  "orch_handle req now o1 =
     (case req of
        PostRegister None \<Rightarrow> bad_request o1
      | PostRegister (Some r) \<Rightarrow>
          (Some \<lparr>rs_status = 200, rs_body = RegisterBody \<lparr>rr_ok = True\<rparr>\<rparr>,
           register (rr_node r) (rr_endpoint r) now o1)
      | PostAnnounce None \<Rightarrow> bad_request o1
      | PostAnnounce (Some a) \<Rightarrow> no_content (announce_route a o1)
      | PostHeartbeat None \<Rightarrow> bad_request o1
      | PostHeartbeat (Some hb) \<Rightarrow> no_content (Inr (), heartbeat_op hb now o1)
      | PostAck None \<Rightarrow> bad_request o1
      | PostAck (Some a) \<Rightarrow> (case ack_op a o1 of ((_, r), o2) \<Rightarrow> no_content (r, o2))
      | PostAlert None \<Rightarrow> bad_request o1
      | PostAlert (Some a) \<Rightarrow>
          (case alert_op a now o1 of
             (False, o2) \<Rightarrow> (Some \<lparr>rs_status = 429, rs_body = ErrorText ''rate limited''\<rparr>, o2)
           | (True, o2) \<Rightarrow> no_content (Inr (), o2))
      | GetMap \<Rightarrow>
          (case snapshot_op o1 of (es, o2) \<Rightarrow> (Some \<lparr>rs_status = 200, rs_body = MapBody es\<rparr>, o2))
      | GetNodes \<Rightarrow>
          (case nodes_op o1 of (ns, o2) \<Rightarrow> (Some \<lparr>rs_status = 200, rs_body = NodesBody ns\<rparr>, o2))
      | GetEvents nodeID \<Rightarrow>
          if nodeID = [] then (Some \<lparr>rs_status = 400, rs_body = ErrorText ''missing node_id''\<rparr>, o1)
          else (case subscribe nodeID o1 of
                  (i, o2) \<Rightarrow> (Some \<lparr>rs_status = 200, rs_body = Stream i\<rparr>, o2)))"

section \<open>Sends that meet no closed channel\<close>

definition offer :: "event \<Rightarrow> channel \<Rightarrow> channel" where
  "offer ev c = (if length (buffered c) < chan_cap then c\<lparr>buffered := buffered c @ [ev]\<rparr> else c)"

lemma try_send_open: "\<not> is_closed c \<Longrightarrow> try_send ev c = Inr (offer ev c)"
  by (simp add: try_send_def offer_def)

lemma offer_simps [simp]: "is_closed (offer ev c) = is_closed c"
  by (simp add: offer_def)

lemma offer_length: "length (buffered c) \<le> chan_cap \<Longrightarrow> length (buffered (offer ev c)) \<le> chan_cap"
  by (simp add: offer_def)

lemma send_all_open:
  assumes "distinct is" "\<forall>i \<in> set is. \<not> is_closed (o_chans o1 i)"
  shows "send_all ev is o1 = (Inr (), o1\<lparr>o_chans :=
      \<lambda>i. if i \<in> set is then offer ev (o_chans o1 i) else o_chans o1 i\<rparr>)"
  using assms
proof (induction "is" arbitrary: o1)
  case (Cons i "is")
  let ?o = "set_chan i (offer ev (o_chans o1 i)) o1"
  have "send_to ev i o1 = (Inr (), ?o)" using Cons.prems by (simp add: send_to_def try_send_open)
  moreover have "\<forall>j \<in> set is. \<not> is_closed (o_chans ?o j)" using Cons.prems by (auto simp: set_chan_def)
  ultimately show ?case
    using Cons.IH [of ?o] Cons.prems(1) by (auto simp: set_chan_def fun_eq_iff intro!: arg_cong [where f = "\<lambda>x. o1\<lparr>o_chans := x\<rparr>"])
qed simp

definition orch_wf :: "orchestrator \<Rightarrow> bool" where
  "orch_wf o1 \<longleftrightarrow>
     distinct (map fst (o_nodes o1)) \<and> distinct (map fst (o_routes o1)) \<and>
     distinct (map fst (o_subs o1)) \<and> distinct (map fst (o_alerts o1)) \<and>
     distinct (map fst (o_anchors o1)) \<and>
     (\<forall>pid e. map_of (o_routes o1) pid = Some e \<longrightarrow> re_pid e = pid) \<and>
     (\<forall>n i. map_of (o_subs o1) n = Some i \<longrightarrow> i < o_next o1 \<and> \<not> is_closed (o_chans o1 i)) \<and>
     (\<forall>n m i. map_of (o_subs o1) n = Some i \<longrightarrow> map_of (o_subs o1) m = Some i \<longrightarrow> n = m) \<and>
     (\<forall>i. length (buffered (o_chans o1 i)) \<le> chan_cap)"

definition subscribed :: "orchestrator \<Rightarrow> nat set" where
  "subscribed o1 = ran (map_of (o_subs o1))"

lemma wf_subs:
  assumes "orch_wf o1"
  shows "snd ` set (o_subs o1) = subscribed o1" "distinct (map snd (o_subs o1))"
    "i \<in> subscribed o1 \<Longrightarrow> i < o_next o1 \<and> \<not> is_closed (o_chans o1 i)"
proof -
  have d: "distinct (map fst (o_subs o1))" using assms by (simp add: orch_wf_def)
  show "snd ` set (o_subs o1) = subscribed o1" using ran_distinct [OF d] by (simp add: subscribed_def)
  have "inj_on snd (set (o_subs o1))"
  proof (rule inj_onI)
    fix x y assume "x \<in> set (o_subs o1)" "y \<in> set (o_subs o1)" "snd x = snd y"
    then have "map_of (o_subs o1) (fst x) = Some (snd x)" "map_of (o_subs o1) (fst y) = Some (snd x)"
      using map_of_is_SomeI [OF d] by (metis prod.collapse)+
    then show "x = y" using assms \<open>snd x = snd y\<close> unfolding orch_wf_def by (metis prod.collapse)
  qed
  then show "distinct (map snd (o_subs o1))" using d by (auto simp: distinct_map)
  show "i \<in> subscribed o1 \<Longrightarrow> i < o_next o1 \<and> \<not> is_closed (o_chans o1 i)"
    using assms by (auto simp: subscribed_def ran_def orch_wf_def)
qed

text \<open>The exact effect of a broadcast: the epoch grows and every subscriber is offered the delta.\<close>

definition delta_event :: "route_entry list \<Rightarrow> orchestrator \<Rightarrow> event" where
  "delta_event changes o1 =
     must_event ''map_delta'' (DeltaData \<lparr>md_epoch = o_epoch o1 + 1, md_changes = changes\<rparr>)"

definition offered :: "event \<Rightarrow> orchestrator \<Rightarrow> orchestrator" where
  "offered ev o1 = o1\<lparr>o_chans := \<lambda>i. if i \<in> subscribed o1 then offer ev (o_chans o1 i) else o_chans o1 i\<rparr>"

lemma offered_simps [simp]:
  "o_nodes (offered ev o1) = o_nodes o1" "o_routes (offered ev o1) = o_routes o1"
  "o_epoch (offered ev o1) = o_epoch o1" "o_subs (offered ev o1) = o_subs o1"
  "o_alerts (offered ev o1) = o_alerts o1" "o_anchors (offered ev o1) = o_anchors o1"
  "o_next (offered ev o1) = o_next o1" "ranges (offered ev o1) = ranges o1"
  by (simp_all add: offered_def)

lemma broadcast_open:
  assumes "orch_wf o1"
  shows "broadcast_delta changes o1 =
    (Inr (), offered (delta_event changes o1) (o1\<lparr>o_epoch := o_epoch o1 + 1, ranges := Suc (ranges o1)\<rparr>))"
proof -
  let ?is = "map snd (arrange (range_order o1 (ranges o1)) (o_subs o1))"
  let ?o = "o1\<lparr>o_epoch := o_epoch o1 + 1, ranges := Suc (ranges o1)\<rparr>"
  have "mset ?is = mset (map snd (o_subs o1))" by simp
  then have d: "distinct ?is" using wf_subs(2) [OF assms] by (metis mset_eq_imp_distinct_iff)
  have s: "set ?is = subscribed o1" using wf_subs(1) [OF assms] by simp
  have "\<forall>i \<in> set ?is. \<not> is_closed (o_chans ?o i)" using wf_subs(3) [OF assms] s by simp
  from send_all_open [OF d this] s
  show ?thesis
    by (simp add: broadcast_delta_def delta_snapshot_def Let_def range_values_def delta_event_def
        offered_def subscribed_def)
qed

lemma offered_wf: "orch_wf o1 \<Longrightarrow> orch_wf (offered ev o1)"
  unfolding orch_wf_def offered_simps by (auto simp: offered_def offer_length)

lemma counters_wf: "orch_wf (o1\<lparr>o_epoch := n, ranges := k\<rparr>) = orch_wf o1"
  "orch_wf (o1\<lparr>ranges := k\<rparr>) = orch_wf o1" "orch_wf (o1\<lparr>o_epoch := n\<rparr>) = orch_wf o1"
  by (simp_all add: orch_wf_def)

lemma broadcast_wf:
  assumes "orch_wf o1" "broadcast_delta changes o1 = (r, o2)" shows "orch_wf o2 \<and> r = Inr ()"
  using assms offered_wf [of "o1\<lparr>o_epoch := o_epoch o1 + 1, ranges := Suc (ranges o1)\<rparr>" "delta_event changes o1"]
  by (simp add: broadcast_open counters_wf)

lemma routes_wf:
  "orch_wf o1 \<Longrightarrow> re_pid e = pid \<Longrightarrow> orch_wf (o1\<lparr>o_routes := AList.update pid e (o_routes o1)\<rparr>)"
  "orch_wf o1 \<Longrightarrow> orch_wf (o1\<lparr>o_routes := AList.delete pid (o_routes o1)\<rparr>)"
  by (auto simp: orch_wf_def AList.distinct_update AList.distinct_delete update_conv' delete_conv')

lemma small_wf:
  "orch_wf o1 \<Longrightarrow> orch_wf (o1\<lparr>o_anchors := AList.update c x (o_anchors o1)\<rparr>)"
  "orch_wf o1 \<Longrightarrow> orch_wf (o1\<lparr>o_nodes := AList.update n ne (o_nodes o1)\<rparr>)"
  "orch_wf o1 \<Longrightarrow> orch_wf (o1\<lparr>o_alerts := AList.update n t (o_alerts o1)\<rparr>)"
  by (auto simp: orch_wf_def AList.distinct_update)

section \<open>Every operation keeps the invariant\<close>

lemma new_orchestrator_wf [invs]: "orch_wf (new_orchestrator ord)"
  by (simp add: orch_wf_def new_orchestrator_def make_chan_def)

lemma register_wf [invs]: "orch_wf o1 \<Longrightarrow> orch_wf (register n ep now o1)"
  by (simp add: register_def small_wf)

lemma heartbeat_wf [invs]: "orch_wf o1 \<Longrightarrow> orch_wf (heartbeat_op hb now o1)"
  by (simp add: heartbeat_op_def small_wf split: option.split)

lemma announce_wf [invs]:
  assumes "orch_wf o1" "announce_route a o1 = (r, o2)" shows "orch_wf o2 \<and> r = Inr ()"
proof -
  let ?e = "\<lparr>re_pid = ra_pid a, re_node = ra_node a, re_endpoint = ra_endpoint a, re_epoch = 0, re_chain = ra_chain a\<rparr>"
  have "orch_wf (o1\<lparr>o_routes := AList.update (ra_pid a) ?e (o_routes o1)\<rparr>)"
    by (rule routes_wf(1) [OF assms(1)]) simp
  from small_wf(1) [OF this, of "ra_chain a" "ra_tip a"] show ?thesis
    using assms(2) by (intro broadcast_wf) (simp_all add: announce_route_def Let_def)
qed

lemma check_cold_wf: "orch_wf o1 \<Longrightarrow> check_cold a o1 = (v, o2) \<Longrightarrow> orch_wf o2"
  by (auto simp: check_cold_def small_wf split: if_splits option.splits)

lemma check_cold_keeps: "check_cold a o1 = (v, o2) \<Longrightarrow> \<exists>m. o2 = o1\<lparr>o_anchors := m\<rparr>"
  by (auto simp: check_cold_def intro: exI [of _ "o_anchors o1"] split: if_splits option.splits)

lemma ack_wf [invs]:
  assumes "orch_wf o1" "ack_op a o1 = ((v, r), o2)" shows "orch_wf o2 \<and> r = Inr ()"
proof -
  obtain v' o3 where c: "check_cold a o1 = (v', o3)" by force
  let ?o = "o3\<lparr>o_routes := AList.update (ack_new a) (ack_entry a o3) (AList.delete (ack_old a) (o_routes o3))\<rparr>"
  have "orch_wf (o3\<lparr>o_routes := AList.delete (ack_old a) (o_routes o3)\<rparr>)"
    using routes_wf(2) check_cold_wf [OF assms(1) c] by blast
  from routes_wf(1) [OF this, of "ack_entry a o3" "ack_new a"] have "orch_wf ?o" by (simp add: ack_entry_def)
  moreover have "broadcast_delta [ack_entry a o3] ?o = (r, o2)"
    using assms(2) c by (auto simp: ack_op_def Let_def split: prod.splits)
  ultimately show ?thesis by (rule broadcast_wf)
qed

lemma alert_wf [invs]: "orch_wf o1 \<Longrightarrow> alert_op a now o1 = (b, o2) \<Longrightarrow> orch_wf o2"
  by (auto simp: alert_op_def small_wf split: option.splits if_splits)

lemma nodes_wf [invs]: "orch_wf o1 \<Longrightarrow> nodes_op o1 = (ns, o2) \<Longrightarrow> orch_wf o2"
  by (auto simp: nodes_op_def range_values_def counters_wf)

lemma snapshot_wf [invs]: "orch_wf o1 \<Longrightarrow> snapshot_op o1 = (es, o2) \<Longrightarrow> orch_wf o2"
  by (auto simp: snapshot_op_def range_values_def counters_wf)

lemma subscribe_wf [invs]: "orch_wf o1 \<Longrightarrow> subscribe n o1 = (i, o2) \<Longrightarrow> orch_wf o2"
  by (auto simp: orch_wf_def subscribe_def Let_def set_chan_def make_chan_def update_conv'
      AList.distinct_update less_Suc_eq split: if_splits) (metis less_irrefl)+

text \<open>All operations but \<open>Subscribe\<close> and its closure leave the subscriptions and open channels alone.\<close>

definition same_subs :: "orchestrator \<Rightarrow> orchestrator \<Rightarrow> bool" where
  "same_subs o1 o2 \<longleftrightarrow> o_subs o2 = o_subs o1 \<and> o_next o2 = o_next o1 \<and>
     (\<forall>i. is_closed (o_chans o2 i) = is_closed (o_chans o1 i))"

lemma same_subs_refl [simp]: "same_subs o1 o1"
  by (simp add: same_subs_def)

lemma send_to_subs: "send_to ev i o1 = (r, o2) \<Longrightarrow> same_subs o1 o2"
  by (auto simp: send_to_def try_send_def set_chan_def same_subs_def split: sum.splits if_splits)

lemma send_all_subs: "send_all ev is o1 = (r, o2) \<Longrightarrow> same_subs o1 o2"
proof (induction "is" arbitrary: o1)
  case (Cons i "is")
  obtain r1 o3 where s: "send_to ev i o1 = (r1, o3)" by force
  note f = send_to_subs [OF s]
  show ?case
  proof (cases r1)
    case (Inl p)
    with Cons.prems s f show ?thesis by simp
  next
    case (Inr u)
    with Cons.prems s have "send_all ev is o3 = (r, o2)" by simp
    from Cons.IH [OF this] f show ?thesis by (simp add: same_subs_def)
  qed
qed simp

lemma broadcast_subs: "broadcast_delta changes o1 = (r, o2) \<Longrightarrow> same_subs o1 o2"
  by (auto simp: broadcast_delta_def delta_snapshot_def Let_def range_values_def same_subs_def
      dest!: send_all_subs)

lemma announce_subs [keeps]: "announce_route a o1 = (r, o2) \<Longrightarrow> same_subs o1 o2"
  by (auto simp: announce_route_def Let_def same_subs_def dest!: broadcast_subs)

lemma ack_subs [keeps]: "ack_op a o1 = (vr, o2) \<Longrightarrow> same_subs o1 o2"
  by (auto simp: ack_op_def Let_def same_subs_def split: prod.splits dest!: broadcast_subs check_cold_keeps)

lemma push_seed_subs [keeps]: "push_seed n seed o1 = (r, o2) \<Longrightarrow> same_subs o1 o2"
  by (auto simp: push_seed_def split: option.splits dest: send_to_subs)

lemma scheduled_target_keeps: "scheduled_target o1 e = (t, o2, e') \<Longrightarrow> o2 = o1\<lparr>ranges := Suc (ranges o1)\<rparr>"
  by (auto simp: scheduled_target_def range_values_def Let_def split: if_splits prod.splits sum.splits)

lemma scheduled_subs [keeps]: "scheduled_step o1 e = (r, o2, e') \<Longrightarrow> same_subs o1 o2"
proof -
  assume a: "scheduled_step o1 e = (r, o2, e')"
  obtain t o3 e1 where t: "scheduled_target o1 e = (t, o3, e1)" by (rule prod_cases3)
  have "same_subs o1 o3" using scheduled_target_keeps [OF t] by (simp add: same_subs_def)
  moreover obtain r3 o4 where "o2 = o3 \<or> (\<exists>n seed. push_seed n seed o3 = (r3, o4) \<and> o2 = o4)"
    using a t by (cases t) (auto simp: scheduled_step_def split: prod.splits)
  ultimately show ?thesis using push_seed_subs [of _ _ o3 r3 o4] by (auto simp: same_subs_def)
qed

lemma handle_subs:
  assumes "orch_handle req now o1 = (resp, o2)" "\<And>n. req \<noteq> GetEvents n"
  shows "same_subs o1 o2"
proof (cases req)
  case (PostRegister r)
  with assms(1) show ?thesis by (cases r) (auto simp: orch_handle_def bad_request_def register_def same_subs_def)
next
  case (PostAnnounce a)
  with assms(1) show ?thesis
    by (cases a) (auto simp: orch_handle_def bad_request_def no_content_def split: prod.splits sum.splits dest: announce_subs)
next
  case (PostHeartbeat hb)
  with assms(1) show ?thesis
    by (cases hb) (auto simp: orch_handle_def bad_request_def no_content_def heartbeat_op_def same_subs_def split: option.splits)
next
  case (PostAck a)
  with assms(1) show ?thesis
    by (cases a) (auto simp: orch_handle_def bad_request_def no_content_def split: prod.splits sum.splits dest: ack_subs)
next
  case (PostAlert a)
  with assms(1) show ?thesis
    by (cases a) (auto simp: orch_handle_def bad_request_def no_content_def alert_op_def same_subs_def
        split: option.splits if_splits)
next
  case GetMap
  with assms(1) show ?thesis by (auto simp: orch_handle_def snapshot_op_def range_values_def same_subs_def)
next
  case GetNodes
  with assms(1) show ?thesis by (auto simp: orch_handle_def nodes_op_def range_values_def same_subs_def)
qed (use assms(2) in auto)

lemma push_seed_wf [invs]:
  assumes "orch_wf o1" "push_seed n seed o1 = (r, o2)" shows "orch_wf o2 \<and> r = Inr ()"
proof (cases "map_of (o_subs o1) n")
  case None
  with assms show ?thesis by (simp add: push_seed_def)
next
  case (Some i)
  let ?ev = "must_event ''mutation_seed'' (SeedData seed)"
  have "\<not> is_closed (o_chans o1 i)" using Some assms(1) unfolding orch_wf_def by blast
  with Some assms(2) have o2: "o2 = set_chan i (offer ?ev (o_chans o1 i)) o1" "r = Inr ()"
    by (simp_all add: push_seed_def send_to_def try_send_open)
  have "orch_wf (set_chan i (offer ?ev (o_chans o1 i)) o1)"
    using assms(1) unfolding orch_wf_def set_chan_def by (auto simp: offer_length)
  with o2 show ?thesis by simp
qed

lemma scheduled_wf [invs]:
  assumes "orch_wf o1" "scheduled_step o1 e = (r, o2, e')" shows "orch_wf o2 \<and> r = Inr ()"
proof -
  obtain t o3 e1 where t: "scheduled_target o1 e = (t, o3, e1)" by (rule prod_cases3)
  have "orch_wf o3" using scheduled_target_keeps [OF t] assms(1) by (simp add: counters_wf)
  with assms(2) t push_seed_wf [OF this] show ?thesis
    by (cases t) (auto simp: scheduled_step_def split: prod.splits)
qed

lemma handle_wf:
  assumes "orch_wf o1" "orch_handle req now o1 = (resp, o2)"
  shows "orch_wf o2 \<and> resp \<noteq> None"
proof (cases req)
  case (PostRegister r)
  with assms show ?thesis by (cases r) (auto simp: orch_handle_def bad_request_def register_wf)
next
  case (PostAnnounce a)
  with assms show ?thesis
    by (cases a) (auto simp: orch_handle_def bad_request_def no_content_def split: prod.splits sum.splits dest: announce_wf)
next
  case (PostHeartbeat hb)
  with assms show ?thesis
    by (cases hb) (auto simp: orch_handle_def bad_request_def no_content_def heartbeat_wf)
next
  case (PostAck a)
  with assms show ?thesis
    by (cases a) (auto simp: orch_handle_def bad_request_def no_content_def split: prod.splits sum.splits dest: ack_wf)
next
  case (PostAlert a)
  with assms show ?thesis
    by (cases a) (auto simp: orch_handle_def bad_request_def no_content_def split: prod.splits bool.splits dest: alert_wf)
next
  case GetMap
  with assms show ?thesis by (auto simp: orch_handle_def split: prod.splits dest: snapshot_wf)
next
  case GetNodes
  with assms show ?thesis by (auto simp: orch_handle_def split: prod.splits dest: nodes_wf)
next
  case (GetEvents n)
  with assms show ?thesis by (auto simp: orch_handle_def split: prod.splits if_splits dest: subscribe_wf)
qed

section \<open>The server with its open event streams\<close>

text \<open>
  A run of the server: requests, the receives and the end of each open \<open>/events\<close> stream (the
  deferred \<open>unsubscribe\<close>), and firings of the mutation timer, each as one atomic step. The state
  carries the open streams as pairs of node and channel. A step that panics has no successor.
\<close>

type_synonym server = "orchestrator \<times> (string \<times> nat) set"

inductive server_step :: "server \<Rightarrow> server \<Rightarrow> bool" where
  request: "\<forall>n. req \<noteq> GetEvents n \<Longrightarrow> orch_handle req now o1 = (Some resp, o2) \<Longrightarrow>
    server_step (o1, st) (o2, st)"
| refused: "orch_handle (GetEvents n) now o1 = (Some resp, o2) \<Longrightarrow> \<forall>i. rs_body resp \<noteq> Stream i \<Longrightarrow>
    server_step (o1, st) (o2, st)"
| opened: "orch_handle (GetEvents n) now o1 = (Some resp, o2) \<Longrightarrow> rs_body resp = Stream i \<Longrightarrow>
    server_step (o1, st) (o2, insert (n, i) st)"
| received: "(n, i) \<in> st \<Longrightarrow> recv (o_chans o1 i) = (ev, c) \<Longrightarrow> server_step (o1, st) (set_chan i c o1, st)"
| ended: "(n, i) \<in> st \<Longrightarrow> unsubscribe n i o1 = (Inr (), o2) \<Longrightarrow> server_step (o1, st) (o2, st - {(n, i)})"
| fired: "scheduled_step o1 e = (Inr (), o2, e') \<Longrightarrow> server_step (o1, st) (o2, st)"

inductive server_reach :: "server \<Rightarrow> bool" where
  start: "server_reach (new_orchestrator ord, {})"
| step: "server_reach s \<Longrightarrow> server_step s s' \<Longrightarrow> server_reach s'"

definition server_wf :: "server \<Rightarrow> bool" where
  "server_wf s \<longleftrightarrow> orch_wf (fst s) \<and>
     (\<forall>n i. map_of (o_subs (fst s)) n = Some i \<longrightarrow> (n, i) \<in> snd s) \<and>
     (\<forall>n i. (n, i) \<in> snd s \<longrightarrow> i < o_next (fst s) \<and> \<not> is_closed (o_chans (fst s) i)) \<and>
     (\<forall>n m i. (n, i) \<in> snd s \<longrightarrow> (m, i) \<in> snd s \<longrightarrow> n = m)"

lemma same_subs_server: "server_wf (o1, st) \<Longrightarrow> same_subs o1 o2 \<Longrightarrow> orch_wf o2 \<Longrightarrow> server_wf (o2, st)"
  by (simp add: server_wf_def same_subs_def)

lemma unsubscribe_ok:
  assumes "server_wf (o1, st)" "(n, i) \<in> st"
  shows "unsubscribe n i o1 = (Inr (), set_chan i ((o_chans o1 i)\<lparr>is_closed := True\<rparr>)
      (o1\<lparr>o_subs := AList.delete n (o_subs o1)\<rparr>))"
  using assms by (simp add: unsubscribe_def Let_def close_chan_def server_wf_def)

lemma ended_wf:
  assumes "server_wf (o1, st)" "(n, i) \<in> st" "unsubscribe n i o1 = (r, o2)"
  shows "server_wf (o2, st - {(n, i)})"
proof -
  have o2: "o2 = set_chan i ((o_chans o1 i)\<lparr>is_closed := True\<rparr>) (o1\<lparr>o_subs := AList.delete n (o_subs o1)\<rparr>)"
    using unsubscribe_ok [OF assms(1,2)] assms(3) by simp
  have uniq: "m = n" if "(m, i) \<in> st" for m using assms(1,2) that by (auto simp: server_wf_def)
  have other: "j \<noteq> i" if "map_of (o_subs o1) m = Some j" "m \<noteq> n" for m j
    using assms(1) that uniq by (auto simp: server_wf_def)
  have "orch_wf o2"
    using assms(1) other unfolding o2 server_wf_def orch_wf_def set_chan_def
    by (auto simp: delete_conv' AList.distinct_delete split: if_splits)
  then show ?thesis
    using assms(1) other uniq unfolding o2 server_wf_def set_chan_def
    by (auto simp: delete_conv' split: if_splits)
qed

lemma server_step_wf [invs]:
  assumes "server_step s s'" "server_wf s" shows "server_wf s'"
  using assms
proof (induction rule: server_step.induct)
  case (request req now o1 resp o2 st)
  then have "orch_wf o1" "same_subs o1 o2" using handle_subs by (auto simp: server_wf_def)
  with request same_subs_server handle_wf show ?case by blast
next
  case (refused n now o1 resp o2 st)
  then show ?case by (auto simp: orch_handle_def split: if_splits prod.splits)
next
  case (opened n now o1 resp o2 i st)
  then have s: "subscribe n o1 = (i, o2)" by (auto simp: orch_handle_def split: if_splits prod.splits)
  then have "orch_wf o2" using opened.prems subscribe_wf by (auto simp: server_wf_def)
  moreover have fresh: "(m, o_next o1) \<notin> st" for m using opened.prems by (auto simp: server_wf_def)
  ultimately show ?case using s opened.prems fresh
    by (auto simp: server_wf_def subscribe_def Let_def set_chan_def make_chan_def update_conv'
        less_Suc_eq split: if_splits)
next
  case (received n i st o1 ev c)
  then have "is_closed c = is_closed (o_chans o1 i)" "length (buffered c) \<le> length (buffered (o_chans o1 i))"
    by (auto simp: recv_def split: list.splits)
  moreover have "length (buffered (o_chans o1 i)) \<le> chan_cap"
    using received.prems by (simp add: server_wf_def orch_wf_def)
  ultimately have "length (buffered c) \<le> chan_cap" "is_closed c = is_closed (o_chans o1 i)" by simp_all
  then have "orch_wf (set_chan i c o1)" "same_subs o1 (set_chan i c o1)"
    using received.prems by (auto simp: server_wf_def orch_wf_def set_chan_def same_subs_def)
  then show ?case using same_subs_server received.prems by blast
next
  case (ended n i st o1 o2)
  then show ?case using ended_wf by blast
next
  case (fired o1 e o2 e' st)
  then show ?case using same_subs_server scheduled_subs scheduled_wf by (metis fst_conv server_wf_def)
qed

lemma server_reach_wf: "server_reach s \<Longrightarrow> server_wf s"
proof (induction rule: server_reach.induct)
  case (start ord)
  then show ?case
    using new_orchestrator_wf [of ord] by (simp add: server_wf_def new_orchestrator_def)
qed (rule server_step_wf)

section \<open>What a receiver sees\<close>

text \<open>
  The contract of a bounded event channel between the control plane and one stream, over the
  events offered and the events received so far.
\<close>

locale bounded_channel =
  fixes offer_to :: "'e \<Rightarrow> 'c \<Rightarrow> 'c" and take_from :: "'c \<Rightarrow> 'e option option \<times> 'c"
    and contents :: "'c \<Rightarrow> 'e list" and cap :: nat
  assumes offer_contents: "contents (offer_to e c) = (if length (contents c) < cap then contents c @ [e] else contents c)"
    and take_contents: "take_from c = (r, c') \<Longrightarrow>
      (case r of Some (Some e) \<Rightarrow> contents c = e # contents c' | _ \<Rightarrow> contents c' = contents c)"
begin

text \<open>One use of the channel: an offered event (\<open>Inl\<close>) or a receive (\<open>Inr\<close>).\<close>

lemma history:
  assumes "subseq (rcvd @ contents c) sent"
  shows "subseq (rcvd @ contents (offer_to e c)) (sent @ [e])"
    and "take_from c = (r, c') \<Longrightarrow>
      subseq ((case r of Some (Some e) \<Rightarrow> rcvd @ [e] | _ \<Rightarrow> rcvd) @ contents c') sent"
proof -
  show "subseq (rcvd @ contents (offer_to e c)) (sent @ [e])"
    using assms by (auto simp: offer_contents intro: subseq_order.order_trans list_emb_append_mono
        subseq_append' simp flip: append_assoc)
  show "subseq ((case r of Some (Some e) \<Rightarrow> rcvd @ [e] | _ \<Rightarrow> rcvd) @ contents c') sent" if "take_from c = (r, c')"
    using take_contents [OF that] assms by (auto split: option.splits)
qed

lemma offer_bound: "length (contents c) \<le> cap \<Longrightarrow> length (contents (offer_to e c)) \<le> cap"
  by (simp add: offer_contents)

end

interpretation subscriber: bounded_channel offer recv buffered chan_cap
  by unfold_locales (auto simp: offer_def recv_def split: list.splits)

section \<open>Acknowledgements\<close>

lemma check_cold_cases:
  assumes "check_cold a o1 = (v, o2)"
  shows "v = (if ack_reason a \<noteq> ''cold'' then NotCold
       else case map_of (o_anchors o1) (ack_chain a) of None \<Rightarrow> ChainUnknown
          | Some anchor \<Rightarrow> if ack_seed a = sha256 anchor then ChainVerified else ChainFailed)"
    "o2 = (if v = ChainVerified then o1\<lparr>o_anchors := AList.update (ack_chain a) (ack_seed a) (o_anchors o1)\<rparr> else o1)"
  using assms by (auto simp: check_cold_def verify_step_iff split: if_splits option.splits)

lemma ack_effect:
  assumes "orch_wf o1" "ack_op a o1 = ((v, r), o2)"
  shows "v = (if ack_reason a \<noteq> ''cold'' then NotCold
       else case map_of (o_anchors o1) (ack_chain a) of None \<Rightarrow> ChainUnknown
          | Some anchor \<Rightarrow> if ack_seed a = sha256 anchor then ChainVerified else ChainFailed)"
    "map_of (o_anchors o2) = (if v = ChainVerified then (map_of (o_anchors o1))(ack_chain a \<mapsto> ack_seed a)
       else map_of (o_anchors o1))"
    "map_of (o_routes o2) = (map_of (o_routes o1))(ack_old a := None, ack_new a \<mapsto> ack_entry a o1)"
    "o_epoch o2 = o_epoch o1 + 1" "r = Inr ()" "o_nodes o2 = o_nodes o1"
proof -
  obtain v' o3 where c: "check_cold a o1 = (v', o3)" by force
  note cc = check_cold_cases [OF c]
  have keep: "o_routes o3 = o_routes o1" "o_epoch o3 = o_epoch o1" "o_nodes o3 = o_nodes o1" by (simp_all add: cc(2))
  let ?o = "o3\<lparr>o_routes := AList.update (ack_new a) (ack_entry a o3) (AList.delete (ack_old a) (o_routes o3))\<rparr>"
  have "orch_wf (o3\<lparr>o_routes := AList.delete (ack_old a) (o_routes o3)\<rparr>)"
    using routes_wf(2) check_cold_wf [OF assms(1) c] by blast
  from routes_wf(1) [OF this, of "ack_entry a o3" "ack_new a"] have wf: "orch_wf ?o" by (simp add: ack_entry_def)
  from assms(2) c have v: "v = v'" and b: "broadcast_delta [ack_entry a o3] ?o = (r, o2)"
    by (auto simp: ack_op_def Let_def split: prod.splits)
  have e: "ack_entry a o3 = ack_entry a o1" by (simp add: ack_entry_def keep)
  show "v = (if ack_reason a \<noteq> ''cold'' then NotCold
       else case map_of (o_anchors o1) (ack_chain a) of None \<Rightarrow> ChainUnknown
          | Some anchor \<Rightarrow> if ack_seed a = sha256 anchor then ChainVerified else ChainFailed)"
    using cc(1) v by simp
  from b [unfolded broadcast_open [OF wf]] have o2: "r = Inr ()" "o_anchors o2 = o_anchors o3"
      "o_routes o2 = AList.update (ack_new a) (ack_entry a o1) (AList.delete (ack_old a) (o_routes o1))"
      "o_epoch o2 = o_epoch o1 + 1" "o_nodes o2 = o_nodes o1"
    by (auto simp: keep e)
  then show "map_of (o_anchors o2) = (if v = ChainVerified then (map_of (o_anchors o1))(ack_chain a \<mapsto> ack_seed a)
       else map_of (o_anchors o1))"
    "map_of (o_routes o2) = (map_of (o_routes o1))(ack_old a := None, ack_new a \<mapsto> ack_entry a o1)"
    "o_epoch o2 = o_epoch o1 + 1" "r = Inr ()" "o_nodes o2 = o_nodes o1"
    by (auto simp: cc(2) v update_conv' delete_conv')
qed

fun run_acks :: "mutation_ack list \<Rightarrow> orchestrator \<Rightarrow> verdict list \<times> orchestrator" where
  "run_acks [] o1 = ([], o1)"
| "run_acks (a # as) o1 =
     (case ack_op a o1 of ((v, _), o2) \<Rightarrow> (case run_acks as o2 of (vs, o3) \<Rightarrow> (v # vs, o3)))"

lemma anchored_acks:
  assumes "orch_wf o1" "map_of (o_anchors o1) ch = Some anchor"
    "\<forall>a \<in> set as. ack_chain a = ch \<and> ack_reason a = ''cold'' \<and> ack_seed a \<noteq> sha256 anchor"
  shows "fst (run_acks as o1) = replicate (length as) ChainFailed
    \<and> map_of (o_anchors (snd (run_acks as o1))) ch = Some anchor"
  using assms
proof (induction as arbitrary: o1)
  case (Cons a as)
  obtain v r o2 where o2: "ack_op a o1 = ((v, r), o2)" by (metis prod.exhaust)
  note eff = ack_effect [OF Cons.prems(1) o2]
  have "v = ChainFailed" "map_of (o_anchors o2) ch = Some anchor" using eff(1,2) Cons.prems(2,3) by auto
  with Cons.IH [of o2] ack_wf [OF Cons.prems(1) o2] Cons.prems(3) o2
  show ?case by (auto split: prod.splits)
qed simp

lemma stepped_acks:
  assumes "orch_wf o1" "cold_wf c" "map_of (o_anchors o1) ch = Some (cold_anchor c)"
    "map Some (map ack_seed as) = fst (consume_n (length as) c)"
    "\<forall>a \<in> set as. ack_chain a = ch \<and> ack_reason a = ''cold''"
  shows "fst (run_acks as o1) = replicate (length as) ChainVerified"
  using assms
proof (induction as arbitrary: o1 c)
  case (Cons a as)
  obtain seed c' where c: "consume c = (seed, c')" by force
  with Cons.prems(4) have s: "seed = Some (ack_seed a)"
    and rest: "map Some (map ack_seed as) = fst (consume_n (length as) c')"
    by (auto split: prod.splits)
  note cs = consume_Some [OF Cons.prems(2) c [unfolded s]]
  obtain v r o2 where o2: "ack_op a o1 = ((v, r), o2)" by (metis prod.exhaust)
  note eff = ack_effect [OF Cons.prems(1) o2]
  have v: "v = ChainVerified" using eff(1) Cons.prems(3,5) cs(1) by auto
  then have "map_of (o_anchors o2) ch = Some (cold_anchor c')" using eff(2) Cons.prems(5) cs(2) by simp
  from Cons.IH [OF _ consume_wf [OF Cons.prems(2) c] this rest] ack_wf [OF Cons.prems(1) o2] Cons.prems(5)
  have "fst (run_acks as o2) = replicate (length as) ChainVerified" by simp
  with o2 v show ?case by (auto split: prod.splits)
qed simp

section \<open>Alerts\<close>

text \<open>The times of the accepted alerts of one node in a sequence of alerts from any nodes.\<close>

fun accepted :: "string \<Rightarrow> (immune_alert \<times> int) list \<Rightarrow> orchestrator \<Rightarrow> int list" where
  "accepted n [] o1 = []"
| "accepted n ((a, now) # as) o1 =
     (case alert_op a now o1 of
        (ok, o2) \<Rightarrow> (if ok \<and> al_node a = n then [now] else []) @ accepted n as o2)"

lemma alert_effect:
  "alert_op a now o1 = (ok, o2) \<Longrightarrow>
     ok = (\<forall>t. map_of (o_alerts o1) (al_node a) = Some t \<longrightarrow> 3 * second \<le> now - t) \<and>
     map_of (o_alerts o2) = (if ok then (map_of (o_alerts o1))(al_node a \<mapsto> now) else map_of (o_alerts o1))"
  by (auto simp: alert_op_def update_conv' split: option.splits if_splits)

lemma accepted_after:
  "map_of (o_alerts o1) n = Some t0 \<Longrightarrow> \<forall>t \<in> set (accepted n as o1). t0 + 3 * second \<le> t"
proof (induction n as o1 arbitrary: t0 rule: accepted.induct)
  case (2 n a now as o1)
  obtain ok o2 where o2: "alert_op a now o1 = (ok, o2)" by force
  note eff = alert_effect [OF o2]
  show ?case
  proof (cases "ok \<and> al_node a = n")
    case True
    then have "t0 + 3 * second \<le> now" "map_of (o_alerts o2) n = Some now" using eff 2(2) by auto
    with 2(1) [OF o2 [symmetric]] True show ?thesis
      using o2 by (fastforce simp: second_def)
  next
    case False
    then have "map_of (o_alerts o2) n = Some t0" using eff 2(2) by auto
    with 2(1) [OF o2 [symmetric]] False show ?thesis using o2 by auto
  qed
qed simp

section \<open>Using a channel\<close>

text \<open>A sequence of offers and receives on one channel, with the events received.\<close>

datatype chan_use = Offer event | Take

fun drive :: "chan_use list \<Rightarrow> channel \<Rightarrow> event list \<times> channel" where
  "drive [] c = ([], c)"
| "drive (Offer e # us) c = drive us (offer e c)"
| "drive (Take # us) c =
     (case recv c of
        (Some (Some e), c') \<Rightarrow> (case drive us c' of (rs, c'') \<Rightarrow> (e # rs, c''))
      | (_, c') \<Rightarrow> drive us c')"

fun offers :: "chan_use list \<Rightarrow> event list" where
  "offers [] = []"
| "offers (Offer e # us) = e # offers us"
| "offers (Take # us) = offers us"

lemma drive_history:
  "subseq (pre @ buffered c) sent \<Longrightarrow> drive us c = (rs, c') \<Longrightarrow> subseq (pre @ rs @ buffered c') (sent @ offers us)"
proof (induction us arbitrary: c pre sent rs)
  case (Cons u us)
  show ?case
  proof (cases u)
    case (Offer e)
    with Cons.IH [OF subscriber.history(1) [OF Cons.prems(1)], of e rs] Cons.prems(2) show ?thesis by simp
  next
    case Take
    obtain r c1 where r: "recv c = (r, c1)" by force
    note h = subscriber.history(2) [OF Cons.prems(1) r]
    show ?thesis
    proof (cases "\<exists>e. r = Some (Some e)")
      case True
      then obtain e where e: "r = Some (Some e)" ..
      obtain rs1 c2 where d: "drive us c1 = (rs1, c2)" by force
      from e have "subseq ((pre @ [e]) @ buffered c1) sent" using h by simp
      from Cons.IH [OF this, of rs1] Cons.prems(2) Take r e d show ?thesis by auto
    next
      case False
      then have "drive us c1 = (rs, c')" "subseq (pre @ buffered c1) sent"
        using Cons.prems(2) Take r h by (auto split: option.splits)
      with Cons.IH Take show ?thesis by simp
    qed
  qed
qed simp

section \<open>A closed channel in the list\<close>

lemma send_all_closed:
  "i \<in> set is \<Longrightarrow> is_closed (o_chans o1 i) \<Longrightarrow>
   fst (send_all ev is o1) = Inl (Panic ''send on closed channel'')"
proof (induction "is" arbitrary: o1)
  case (Cons j "is")
  obtain r o2 where s: "send_to ev j o1 = (r, o2)" by force
  have r: "r = Inl (Panic ''send on closed channel'') \<or> (r = Inr () \<and> \<not> is_closed (o_chans o1 j))"
    using s by (auto simp: send_to_def try_send_def split: if_splits)
  show ?case
  proof (cases "r = Inr ()")
    case True
    with r Cons.prems have "i \<in> set is" by auto
    moreover have "is_closed (o_chans o2 i)" using send_to_subs [OF s] Cons.prems(2) by (simp add: same_subs_def)
    ultimately show ?thesis using Cons.IH True s by simp
  qed (use r s in auto)
qed simp

section \<open>Properties\<close>

text \<open>C25: In every state the server can reach by whole requests, receives, ends of streams and timer
  firings, nothing panics: every request gets a response, every stream can end, the timer step
  succeeds; and no channel holds more than its 16 events.\<close>

theorem server_never_panics:
  assumes "server_reach (o1, st)"
  shows "fst (orch_handle req now o1) \<noteq> None \<and> fst (scheduled_step o1 e) = Inr () \<and>
    (\<forall>(n, i) \<in> st. fst (unsubscribe n i o1) = Inr ()) \<and> (\<forall>i. length (buffered (o_chans o1 i)) \<le> 16)"
proof -
  have wf: "server_wf (o1, st)" and o: "orch_wf o1"
    using server_reach_wf [OF assms] by (simp_all add: server_wf_def)
  have "fst (orch_handle req now o1) \<noteq> None" using handle_wf [OF o] by (metis prod.collapse)
  moreover have "fst (scheduled_step o1 e) = Inr ()" using scheduled_wf [OF o] by (metis prod.collapse)
  moreover have "\<forall>(n, i) \<in> st. fst (unsubscribe n i o1) = Inr ()" using unsubscribe_ok [OF wf] by auto
  moreover have "\<forall>i. length (buffered (o_chans o1 i)) \<le> 16" using o by (simp add: orch_wf_def chan_cap_def)
  ultimately show ?thesis by blast
qed

definition orch0 :: orchestrator where
  "orch0 = new_orchestrator (\<lambda>_ i. i)"

definition orch_sub :: orchestrator where
  "orch_sub = snd (subscribe ''n'' orch0)"

lemma orch_sub_reach: "server_reach (orch_sub, {(''n'', 0)})"
proof -
  have "orch_handle (GetEvents ''n'') 0 orch0 = (Some \<lparr>rs_status = 200, rs_body = Stream 0\<rparr>, orch_sub)"
    by (simp add: orch_handle_def orch_sub_def subscribe_def Let_def orch0_def new_orchestrator_def)
  from server_step.opened [OF this, of 0 "{}"] have "server_step (orch0, {}) (orch_sub, {(''n'', 0)})" by simp
  with server_reach.start [of "\<lambda>_ i. i"] show ?thesis
    unfolding orch0_def by (rule server_reach.step)
qed

lemma orch_sub_simps: "map_of (o_subs orch_sub) ''n'' = Some 0"
  by (simp add: orch_sub_def subscribe_def Let_def orch0_def new_orchestrator_def set_chan_def)

theorem server_never_panics_witness:
  "fst (orch_handle (GetEvents ''n'') 5 orch_sub) \<noteq> None \<and> fst (scheduled_step orch_sub entropy0) = Inr () \<and>
    fst (unsubscribe ''n'' 0 orch_sub) = Inr () \<and> length (buffered (o_chans orch_sub 0)) \<le> 16"
  using server_never_panics [OF orch_sub_reach, of "GetEvents ''n''" 5 entropy0] by simp

text \<open>An acknowledgement always moves the route: the old pseudonym disappears, the new one answers at
  the old one's endpoint (at the node's name where the old one was unknown), the epoch grows by
  one. The chain check of a cold acknowledgement only decides whether the anchor advances: a
  failed check changes nothing about the route.\<close>

theorem ack_moves_route:
  assumes "orch_wf o1" "ack_op a o1 = ((v, r), o2)"
  shows "map_of (o_routes o2) = (map_of (o_routes o1))(ack_old a := None, ack_new a \<mapsto> ack_entry a o1)
    \<and> o_epoch o2 = o_epoch o1 + 1 \<and> r = Inr ()
    \<and> (v = ChainVerified \<longleftrightarrow> ack_reason a = ''cold'' \<and>
         (\<exists>anchor. map_of (o_anchors o1) (ack_chain a) = Some anchor \<and> ack_seed a = sha256 anchor))
    \<and> map_of (o_anchors o2) =
        (if v = ChainVerified then (map_of (o_anchors o1))(ack_chain a \<mapsto> ack_seed a) else map_of (o_anchors o1))"
  using ack_effect [OF assms] by (auto split: option.splits if_splits)

definition ack0 :: mutation_ack where
  "ack0 = \<lparr>ack_node = ''n'', ack_old = ''p'', ack_new = ''q'', ack_epoch = 1, ack_commitment = [],
     ack_reason = ''cold'', ack_chain = ''x'', ack_seed = [7]\<rparr>"

theorem ack_moves_route_witness:
  "\<exists>v r o2. ack_op ack0 orch0 = ((v, r), o2) \<and>
    map_of (o_routes o2) = (map_of (o_routes orch0))(ack_old ack0 := None, ack_new ack0 \<mapsto> ack_entry ack0 orch0)"
proof -
  obtain v r o2 where "ack_op ack0 orch0 = ((v, r), o2)" by (metis prod.exhaust)
  moreover from this have "map_of (o_routes o2) =
      (map_of (o_routes orch0))(ack_old ack0 := None, ack_new ack0 \<mapsto> ack_entry ack0 orch0)"
    using ack_moves_route [of orch0 ack0 v r o2] new_orchestrator_wf unfolding orch0_def by blast
  ultimately show ?thesis by blast
qed

text \<open>C26: The acknowledgements of a node that consumes its chain link by link all verify, if the
  orchestrator starts from the chain's anchor and receives every one of them in order.\<close>

theorem cold_acks_verify:
  assumes "orch_wf o1" "cold_wf c" "map_of (o_anchors o1) ch = Some (cold_anchor c)"
    and "map Some (map ack_seed as) = fst (consume_n (length as) c)"
    and "\<forall>a \<in> set as. ack_chain a = ch \<and> ack_reason a = ''cold''"
  shows "fst (run_acks as o1) = replicate (length as) ChainVerified"
  by (rule stepped_acks [OF assms])

definition cold2 :: cold_chain where
  "cold2 = \<lparr>chain = chain2, next_link = 2 - 1\<rparr>"

lemma cold2_wf: "cold_wf cold2"
  unfolding cold2_def by (rule build_chain_cold(1) [OF build_chain_example]) simp

definition cold_ack :: "bytes \<Rightarrow> mutation_ack" where
  "cold_ack seed = \<lparr>ack_node = ''n'', ack_old = ''p'', ack_new = ''q'', ack_epoch = 1, ack_commitment = [],
     ack_reason = ''cold'', ack_chain = ''c'', ack_seed = seed\<rparr>"

definition orch_chain :: orchestrator where
  "orch_chain = orch0\<lparr>o_anchors := [(''c'', chain2 ! 2)]\<rparr>"

lemma orch_chain: "orch_wf orch_chain" "map_of (o_anchors orch_chain) ''c'' = Some (cold_anchor cold2)"
  by (simp_all add: orch_chain_def orch0_def new_orchestrator_def orch_wf_def make_chan_def
      cold_anchor_def cold2_def)

theorem cold_acks_verify_witness:
  "fst (run_acks [cold_ack (chain2 ! 1), cold_ack (chain2 ! 0)] orch_chain) =
    replicate (length [cold_ack (chain2 ! 1), cold_ack (chain2 ! 0)]) ChainVerified"
proof (rule cold_acks_verify [OF orch_chain(1) cold2_wf orch_chain(2)])
  show "map Some (map ack_seed [cold_ack (chain2 ! 1), cold_ack (chain2 ! 0)]) =
      fst (consume_n (length [cold_ack (chain2 ! 1), cold_ack (chain2 ! 0)]) cold2)"
    by (simp add: consume_def cold2_def cold_ack_def)
qed (simp add: cold_ack_def)

text \<open>C27: Once a cold acknowledgement has been lost, the anchor stands still: every later one fails the
  check, whatever its seed, unless it reveals the very seed that was lost. The source's comment
  promises hashing forward to the last trusted seed; the code compares a single step.\<close>

theorem lost_ack_blocks_chain:
  assumes "orch_wf o1" "cold_wf c" "map_of (o_anchors o1) ch = Some (cold_anchor c)"
    and "consume c = (Some lost, c')"
    and "\<forall>a \<in> set as. ack_chain a = ch \<and> ack_reason a = ''cold'' \<and> ack_seed a \<noteq> lost"
  shows "fst (run_acks as o1) = replicate (length as) ChainFailed
    \<and> map_of (o_anchors (snd (run_acks as o1))) ch = Some (cold_anchor c)"
  using anchored_acks [OF assms(1,3)] assms(5) consume_Some(1) [OF assms(2,4)] by simp

theorem lost_ack_blocks_chain_witness:
  "fst (run_acks [cold_ack [7]] orch_chain) = replicate (length [cold_ack [7]]) ChainFailed
    \<and> map_of (o_anchors (snd (run_acks [cold_ack [7]] orch_chain))) ''c'' = Some (cold_anchor cold2)"
proof (rule lost_ack_blocks_chain [OF orch_chain(1) cold2_wf orch_chain(2)])
  show "consume cold2 = (Some (chain2 ! 1), cold2\<lparr>next_link := 0\<rparr>)" by (simp add: consume_def cold2_def)
  have "length (chain2 ! 1) = 32" by (simp add: chain2_def)
  moreover have "length [7 :: byte] \<noteq> 32" by simp
  ultimately have "[7] \<noteq> chain2 ! 1" by metis
  then show "\<forall>a \<in> set [cold_ack [7]]. ack_chain a = ''c'' \<and> ack_reason a = ''cold'' \<and> ack_seed a \<noteq> chain2 ! 1"
    by (simp add: cold_ack_def)
qed

text \<open>Accepted alerts of one node are at least three seconds apart, in any sequence of alerts from
  any nodes.\<close>

theorem alerts_throttled:
  "sorted_wrt (\<lambda>s t. s + 3 * second \<le> t) (accepted n as o1)"
proof (induction n as o1 rule: accepted.induct)
  case (2 n a now as o1)
  obtain ok o2 where o2: "alert_op a now o1 = (ok, o2)" by force
  have "\<forall>t \<in> set (accepted n as o2). now + 3 * second \<le> t" if "ok" "al_node a = n"
    using alert_effect [OF o2] that by (intro accepted_after) simp
  with 2 [OF o2 [symmetric]] o2 show ?case by auto
qed simp


definition event0 :: event where
  "event0 = must_event ''map_delta'' (DeltaData \<lparr>md_epoch = 1, md_changes = []\<rparr>)"


text \<open>C34: A broadcast copies the list of channels under the lock and sends after releasing it. If a stream
  it copied ends in between, the send panics: in a request handler the connection is lost, in the
  timer goroutine the whole server ends.\<close>

theorem send_races_unsubscribe:
  assumes "server_reach (o1, st)" "map_of (o_subs o1) n = Some i"
    and "delta_snapshot changes o1 = ((ev, subs), o2)" "unsubscribe n i o2 = (Inr (), o3)"
  shows "fst (send_all ev subs o3) = Inl (Panic ''send on closed channel'')"
proof (rule send_all_closed)
  have "(n, i) \<in> set (o_subs o1)" using assms(2) by (rule map_of_SomeD)
  with assms(3) show "i \<in> set subs"
    by (auto simp: delta_snapshot_def Let_def range_values_def image_iff intro!: bexI [of _ "(n, i)"])
  show "is_closed (o_chans o3 i)"
    using assms(4) by (auto simp: unsubscribe_def Let_def close_chan_def set_chan_def split: if_splits)
qed

theorem send_races_unsubscribe_witness:
  "\<exists>ev subs o2 o3. delta_snapshot [] orch_sub = ((ev, subs), o2) \<and> unsubscribe ''n'' 0 o2 = (Inr (), o3) \<and>
    fst (send_all ev subs o3) = Inl (Panic ''send on closed channel'')"
proof -
  obtain ev subs o2 where s: "delta_snapshot [] orch_sub = ((ev, subs), o2)" by (metis prod.exhaust)
  have "\<exists>o3. unsubscribe ''n'' 0 o2 = (Inr (), o3)"
    using s by (auto simp: delta_snapshot_def Let_def range_values_def unsubscribe_def close_chan_def
        orch_sub_def subscribe_def set_chan_def make_chan_def orch0_def new_orchestrator_def)
  with s send_races_unsubscribe [OF orch_sub_reach orch_sub_simps s] show ?thesis by blast
qed

text \<open>C35: When a node reconnects before its old stream has ended, the end of the old stream deletes the
  entry of the new one: the new stream stays open, but no seed is ever pushed to it.\<close>

theorem reconnect_loses_subscription:
  assumes "server_reach (o1, st)" "(n, i) \<in> st" "subscribe n o1 = (j, o2)" "unsubscribe n i o2 = (r, o3)"
  shows "r = Inr () \<and> \<not> is_closed (o_chans o3 j) \<and> map_of (o_subs o3) n = None
    \<and> push_seed n seed o3 = (Inr (), o3)"
proof -
  have "i < o_next o1" "\<not> is_closed (o_chans o1 i)"
    using server_reach_wf [OF assms(1)] assms(2) by (auto simp: server_wf_def)
  then show ?thesis
    using assms(3,4)
    by (auto simp: subscribe_def unsubscribe_def Let_def close_chan_def set_chan_def make_chan_def push_seed_def
        delete_conv')
qed

theorem reconnect_loses_subscription_witness:
  "\<exists>j o2 r o3. subscribe ''n'' orch_sub = (j, o2) \<and> unsubscribe ''n'' 0 o2 = (r, o3) \<and>
    \<not> is_closed (o_chans o3 j) \<and> map_of (o_subs o3) ''n'' = None"
proof -
  obtain j o2 where s: "subscribe ''n'' orch_sub = (j, o2)" by force
  obtain r o3 where u: "unsubscribe ''n'' 0 o2 = (r, o3)" by force
  from reconnect_loses_subscription [OF orch_sub_reach _ s u] s u show ?thesis by blast
qed

text \<open>C37: A firing of the mutation timer picks an entry of the routing table and offers its node, and no
  one else, a fresh 32-byte seed for its current pseudonym with the next epoch; tables and epoch
  of the orchestrator do not change.\<close>

theorem timer_targets_live_route:
  assumes "orch_wf o1" "scheduled_target o1 e = (Some (node, seed), o2, e')"
  shows "(\<exists>entry. map_of (o_routes o1) (ms_pid seed) = Some entry \<and> node = re_node entry
      \<and> ms_epoch seed = re_epoch entry + 1) \<and> length (ms_seed seed) = 32 \<and> ms_reason seed = ''scheduled''
    \<and> o2 = o1\<lparr>ranges := Suc (ranges o1)\<rparr>
    \<and> push_seed node seed o2 = (Inr (), case map_of (o_subs o1) node of None \<Rightarrow> o2
        | Some i \<Rightarrow> set_chan i (offer (must_event ''mutation_seed'' (SeedData seed)) (o_chans o1 i)) o2)"
proof -
  let ?c = "arrange (range_order o1 (ranges o1)) (o_routes o1)"
  have o2: "o2 = o1\<lparr>ranges := Suc (ranges o1)\<rparr>" by (rule scheduled_target_keeps [OF assms(2)])
  obtain idx e1 e2 bs where i: "rand_int (length ?c) e = (Inr idx, e1)" and ne: "o_routes o1 \<noteq> []"
    and b: "rand_read 32 e1 = (Inr bs, e2)" and s: "node = re_node (snd (?c ! idx))"
      "seed = \<lparr>ms_pid = re_pid (snd (?c ! idx)), ms_seed = bs, ms_reason = ''scheduled'',
         ms_epoch = re_epoch (snd (?c ! idx)) + 1\<rparr>"
    using assms(2) by (auto simp: scheduled_target_def range_values_def Let_def split: if_splits prod.splits sum.splits)
  from i ne have "idx < length ?c" by (auto simp: rand_int_def split: prod.splits sum.splits)
  then have "?c ! idx \<in> set (o_routes o1)" by (metis nth_mem set_arrange)
  then have "map_of (o_routes o1) (fst (?c ! idx)) = Some (snd (?c ! idx))"
    using assms(1) by (simp add: orch_wf_def)
  moreover from this have "re_pid (snd (?c ! idx)) = fst (?c ! idx)" using assms(1) by (simp add: orch_wf_def)
  moreover have "push_seed node seed o2 = (Inr (), case map_of (o_subs o1) node of None \<Rightarrow> o2
        | Some i \<Rightarrow> set_chan i (offer (must_event ''mutation_seed'' (SeedData seed)) (o_chans o1 i)) o2)"
    using assms(1) by (auto simp: push_seed_def o2 send_to_def try_send_open orch_wf_def split: option.splits)
  ultimately show ?thesis using s rand_read_length [OF b] o2 by auto
qed

theorem timer_targets_live_route_witness:
  "\<exists>node seed o1 o2 e'. scheduled_target o1 entropy0 = (Some (node, seed), o2, e') \<and>
     (\<exists>entry. map_of (o_routes o1) (ms_pid seed) = Some entry \<and> node = re_node entry
      \<and> ms_epoch seed = re_epoch entry + 1) \<and> length (ms_seed seed) = 32"
proof -
  let ?a = "\<lparr>ra_node = ''n'', ra_pid = ''p'', ra_endpoint = ''x'', ra_chain = ''c'', ra_tip = []\<rparr>"
  obtain r o1 where a: "announce_route ?a orch0 = (r, o1)" by force
  have wf: "orch_wf orch0" by (simp add: orch0_def new_orchestrator_wf)
  have "o_routes o1 = [(''p'', \<lparr>re_pid = ''p'', re_node = ''n'', re_endpoint = ''x'', re_epoch = 0, re_chain = ''c''\<rparr>)]"
    using a by (auto simp: announce_route_def Let_def orch0_def new_orchestrator_def broadcast_delta_def
        delta_snapshot_def range_values_def)
  then obtain node seed o2 e' where t: "scheduled_target o1 entropy0 = (Some (node, seed), o2, e')"
    by (simp add: scheduled_target_def range_values_def rand_int_def rand_read_def entropy0_def Let_def)
  from timer_targets_live_route [OF _ t] announce_wf [OF wf a] t show ?thesis by blast
qed

end
