(* ===== verification/Encoding.thy ===== *)
theory Encoding
  imports Messages "HOL-Library.Sublist"
begin

text \<open>
  The texts the program writes with the standard library: decimal numbers (\<open>%d\<close>), base64
  (\<open>base64.StdEncoding\<close>) and the JSON of the two event payloads (\<open>json.Marshal\<close> of
  \<open>protocol.MutationSeed\<close> and \<open>protocol.MapDelta\<close>). Strings are taken to be valid UTF-8 without
  U+2028 and U+2029, which the encoder would replace; their bytes above 127 are copied.
\<close>

section \<open>Numbers and base64\<close>

abbreviation nl :: char where "nl \<equiv> CHR 0x0A"
abbreviation cr :: char where "cr \<equiv> CHR 0x0D"
abbreviation dq :: char where "dq \<equiv> CHR 0x22"
abbreviation bs :: char where "bs \<equiv> CHR 0x5C"

definition digit :: "nat \<Rightarrow> char" where
  "digit d = ''0123456789'' ! (d mod 10)"

fun dec :: "nat \<Rightarrow> string" where
  "dec n = (if n < 10 then [digit n] else dec (n div 10) @ [digit (n mod 10)])"

declare dec.simps [simp del]

definition dec_int :: "int \<Rightarrow> string" where
  "dec_int i = (if i < 0 then CHR ''-'' # dec (nat (- i)) else dec (nat i))"

definition b64_alphabet :: string where
  "b64_alphabet = ''ABCDEFGHIJKLMNOPQRSTUVWXYZabcdefghijklmnopqrstuvwxyz0123456789+/''"

definition b64 :: "nat \<Rightarrow> char" where
  "b64 k = b64_alphabet ! (k mod 64)"

fun base64 :: "bytes \<Rightarrow> string" where
  "base64 [] = []"
| "base64 [a] =
     (let n = unat a * 65536 in [b64 (n div 262144), b64 (n div 4096), CHR ''='', CHR ''=''])"
| "base64 [a, b] =
     (let n = unat a * 65536 + unat b * 256
      in [b64 (n div 262144), b64 (n div 4096), b64 (n div 64), CHR ''=''])"
| "base64 (a # b # c # rest) =
     (let n = unat a * 65536 + unat b * 256 + unat c
      in [b64 (n div 262144), b64 (n div 4096), b64 (n div 64), b64 n] @ base64 rest)"

section \<open>JSON\<close>

definition hex4 :: "nat \<Rightarrow> string" where
  "hex4 n = bs # ''u00'' @ [''0123456789abcdef'' ! (n div 16 mod 16), ''0123456789abcdef'' ! (n mod 16)]"

definition json_char :: "char \<Rightarrow> string" where
  "json_char c =
     (if c = dq \<or> c = bs then [bs, c]
      else if c = CHR 0x08 then [bs, CHR ''b''] else if c = CHR 0x0C then [bs, CHR ''f'']
      else if c = nl then [bs, CHR ''n''] else if c = cr then [bs, CHR ''r'']
      else if c = CHR 0x09 then [bs, CHR ''t'']
      else if (of_char c :: nat) < 32 \<or> c \<in> set ''<>&'' then hex4 (of_char c)
      else [c])"

definition json_string :: "string \<Rightarrow> string" where
  "json_string s = dq # concat (map json_char s) @ [dq]"

text \<open>An object: the fields in the order of the struct.\<close>

fun json_fields :: "(string \<times> string) list \<Rightarrow> string" where
  "json_fields [] = []"
| "json_fields [(k, v)] = json_string k @ '':'' @ v"
| "json_fields ((k, v) # kvs) = json_string k @ '':'' @ v @ '','' @ json_fields kvs"

definition json_object :: "(string \<times> string) list \<Rightarrow> string" where
  "json_object kvs = ''{'' @ json_fields kvs @ ''}''"

fun json_items :: "string list \<Rightarrow> string" where
  "json_items [] = []"
| "json_items [v] = v"
| "json_items (v # vs) = v @ '','' @ json_items vs"

definition json_seed :: "mutation_seed \<Rightarrow> string" where
  "json_seed m = json_object
     [(''pid'', json_string (ms_pid m)), (''seed'', json_string (base64 (ms_seed m))),
      (''reason'', json_string (ms_reason m)), (''epoch'', dec (unat (ms_epoch m)))]"

definition json_route :: "route_entry \<Rightarrow> string" where
  "json_route r = json_object
     [(''pid'', json_string (re_pid r)), (''node_id'', json_string (re_node r)),
      (''endpoint'', json_string (re_endpoint r)), (''epoch'', dec (unat (re_epoch r))),
      (''chain_id'', json_string (re_chain r))]"

definition json_delta :: "map_delta \<Rightarrow> string" where
  "json_delta d = json_object
     [(''epoch'', dec (unat (md_epoch d))),
      (''changes'', ''['' @ json_items (map json_route (md_changes d)) @ '']'')]"

definition json_payload :: "payload \<Rightarrow> string" where
  "json_payload p = (case p of SeedData m \<Rightarrow> json_seed m | DeltaData d \<Rightarrow> json_delta d)"

section \<open>A JSON text is one line\<close>

definition one_line :: "string \<Rightarrow> bool" where
  "one_line s \<longleftrightarrow> nl \<notin> set s \<and> cr \<notin> set s"

lemma one_line_simps [simp]:
  "one_line []" "one_line (c # s) \<longleftrightarrow> c \<noteq> nl \<and> c \<noteq> cr \<and> one_line s"
  "one_line (s @ t) \<longleftrightarrow> one_line s \<and> one_line t"
  by (auto simp: one_line_def)

lemma one_line_concat: "one_line (concat ss) \<longleftrightarrow> (\<forall>s \<in> set ss. one_line s)"
  by (induction ss) auto

lemma digit_safe: "digit d \<noteq> nl \<and> digit d \<noteq> cr"
proof -
  have "digit d \<in> set ''0123456789''" unfolding digit_def by (rule nth_mem) simp
  then show ?thesis by auto
qed

lemma one_line_dec [simp]: "one_line (dec n)"
  by (induction n rule: dec.induct) (subst dec.simps, auto simp: digit_safe)

lemma hex_digit_safe: "''0123456789abcdef'' ! (k mod 16) \<noteq> nl \<and> ''0123456789abcdef'' ! (k mod 16) \<noteq> cr"
proof -
  have "''0123456789abcdef'' ! (k mod 16) \<in> set ''0123456789abcdef''" by (rule nth_mem) simp
  then show ?thesis by auto
qed

lemma one_line_json_char: "one_line (json_char c)"
  unfolding json_char_def hex4_def by (simp add: hex_digit_safe)

lemma one_line_json_string [simp]: "one_line (json_string s)"
  by (simp add: json_string_def one_line_concat one_line_json_char)

lemma one_line_fields: "\<forall>(k, v) \<in> set kvs. one_line v \<Longrightarrow> one_line (json_fields kvs)"
  by (induction kvs rule: json_fields.induct) auto

lemma one_line_object [simp]: "\<forall>(k, v) \<in> set kvs. one_line v \<Longrightarrow> one_line (json_object kvs)"
  by (simp add: json_object_def one_line_fields)

lemma one_line_items: "\<forall>v \<in> set vs. one_line v \<Longrightarrow> one_line (json_items vs)"
  by (induction vs rule: json_items.induct) auto

lemma one_line_payload: "one_line (json_payload p)"
  by (auto simp: json_payload_def json_seed_def json_delta_def json_route_def one_line_items
      intro!: one_line_object split: payload.splits)

section \<open>Lines, fields and numbers of a text\<close>

text \<open>
  \<open>bufio.Scanner\<close> over lines: the text up to the next newline, less a final carriage return; the
  scan ends at a line that does not fit a buffer of \<open>width\<close> bytes.
\<close>

definition drop_cr :: "string \<Rightarrow> string" where
  "drop_cr l = (if l \<noteq> [] \<and> last l = cr then butlast l else l)"

fun scan_lines :: "nat \<Rightarrow> string \<Rightarrow> string list" where
  "scan_lines width [] = []"
| "scan_lines width (c # s) =
     (let line = takeWhile (\<lambda>x. x \<noteq> nl) (c # s)
      in if width \<le> length line then []
         else drop_cr line # scan_lines width (drop (Suc (length line)) (c # s)))"

lemma scan_lines_unfold:
  "s \<noteq> [] \<Longrightarrow> scan_lines width s =
     (let line = takeWhile (\<lambda>x. x \<noteq> nl) s
      in if width \<le> length line then [] else drop_cr line # scan_lines width (drop (Suc (length line)) s))"
  by (cases s) (simp_all only: scan_lines.simps)

text \<open>\<open>bufio.MaxScanTokenSize\<close>, the limit of a scanner whose buffer was not set.\<close>

definition default_line :: nat where "default_line = 64 * 1024"

text \<open>\<open>strings.Fields\<close> on ASCII text: the maximal runs of characters other than white space.\<close>

definition is_space :: "char \<Rightarrow> bool" where
  "is_space c \<longleftrightarrow> c = CHR '' '' \<or> c = CHR 0x09 \<or> c = nl \<or> c = CHR 0x0B \<or> c = CHR 0x0C \<or> c = cr"

function split_fields :: "string \<Rightarrow> string list" where
  "split_fields s =
     (let t = dropWhile is_space s
      in if t = [] then [] else takeWhile (\<lambda>c. \<not> is_space c) t # split_fields (dropWhile (\<lambda>c. \<not> is_space c) t))"
  by pat_completeness auto

termination
proof (relation "measure length")
  fix s t :: string
  assume t: "t = dropWhile is_space s" "t \<noteq> []"
  then have "\<not> is_space (hd t)" using hd_dropWhile by blast
  then have "length (dropWhile (\<lambda>c. \<not> is_space c) t) < length t"
    using t(2) by (cases t) (auto simp: le_imp_less_Suc length_dropWhile_le)
  also have "\<dots> \<le> length s" using t(1) by (simp add: length_dropWhile_le)
  finally show "(dropWhile (\<lambda>c. \<not> is_space c) t, s) \<in> measure length" by simp
qed simp

declare split_fields.simps [simp del]

text \<open>\<open>strconv.Atoi\<close>: an optional sign and digits, in the range of a 64-bit \<open>int\<close>.\<close>

definition digit_value :: "char \<Rightarrow> nat option" where
  "digit_value c =
     (let n = (of_char c :: nat) in if 48 \<le> n \<and> n \<le> 57 then Some (n - 48) else None)"

fun digits_value :: "nat \<Rightarrow> string \<Rightarrow> nat option" where
  "digits_value acc [] = Some acc"
| "digits_value acc (c # s) =
     (case digit_value c of None \<Rightarrow> None | Some d \<Rightarrow> digits_value (acc * 10 + d) s)"

definition in_int64 :: "int \<Rightarrow> bool" where
  "in_int64 i \<longleftrightarrow> - (2 ^ 63) \<le> i \<and> i < 2 ^ 63"

definition atoi :: "string \<Rightarrow> int option" where
  "atoi s =
     (let neg = (s \<noteq> [] \<and> hd s = CHR ''-'');
          body = (if s \<noteq> [] \<and> (hd s = CHR ''-'' \<or> hd s = CHR ''+'') then tl s else s)
      in if body = [] then None
         else case digits_value 0 body of
                None \<Rightarrow> None
              | Some n \<Rightarrow> (let i = (if neg then - int n else int n) in if in_int64 i then Some i else None))"

lemma digit_digit: "d < 10 \<Longrightarrow> digit_value (digit d) = Some d"
proof -
  assume "d < 10"
  then have "d \<in> {0, 1, 2, 3, 4, 5, 6, 7, 8, 9}" by auto
  then show ?thesis by (auto simp: digit_def digit_value_def)
qed

lemma digits_append:
  "digits_value acc (s @ t) = (case digits_value acc s of None \<Rightarrow> None | Some n \<Rightarrow> digits_value n t)"
  by (induction acc s rule: digits_value.induct) (auto split: option.splits)

lemma digits_dec: "digits_value 0 (dec n) = Some n"
proof (induction n rule: dec.induct)
  case (1 n)
  show ?case
    by (subst dec.simps) (use 1 in \<open>auto simp: digits_append digit_digit\<close>)
qed

lemma dec_not_sign: "dec n \<noteq> [] \<and> hd (dec n) \<noteq> CHR ''-'' \<and> hd (dec n) \<noteq> CHR ''+''"
proof (induction n rule: dec.induct)
  case (1 n)
  have "digit d \<noteq> CHR ''-'' \<and> digit d \<noteq> CHR ''+''" for d
  proof -
    have "digit d \<in> set ''0123456789''" unfolding digit_def by (rule nth_mem) simp
    then show ?thesis by auto
  qed
  then show ?case by (subst (1 2 3) dec.simps) (use 1 in \<open>auto simp: hd_append\<close>)
qed

lemma scan_lines_line:
  "nl \<notin> set l \<Longrightarrow> length l < width \<Longrightarrow> scan_lines width (l @ nl # s) = drop_cr l # scan_lines width s"
proof -
  assume l: "nl \<notin> set l" "length l < width"
  have "takeWhile (\<lambda>x. x \<noteq> nl) (l @ nl # s) = l" using l(1) by (induction l) auto
  then show ?thesis using l(2) by (subst scan_lines_unfold) (simp_all add: Let_def)
qed

lemma drop_cr_id: "cr \<notin> set l \<Longrightarrow> drop_cr l = l"
  by (auto simp: drop_cr_def dest: last_in_set)

lemma dec_not_space: "\<forall>c \<in> set (dec n). \<not> is_space c"
proof (induction n rule: dec.induct)
  case (1 n)
  have "\<not> is_space (digit d)" for d
  proof -
    have "digit d \<in> set ''0123456789''" unfolding digit_def by (rule nth_mem) simp
    then show ?thesis by (auto simp: is_space_def)
  qed
  then show ?case by (subst dec.simps) (use 1 in auto)
qed

lemma fields_word:
  assumes "\<forall>c \<in> set w. \<not> is_space c" "w \<noteq> []" shows "split_fields w = [w]"
proof -
  have 1: "dropWhile is_space w = w" using assms by (cases w) auto
  have 2: "takeWhile (\<lambda>c. \<not> is_space c) w = w" "dropWhile (\<lambda>c. \<not> is_space c) w = []"
    using assms(1) by (simp_all add: takeWhile_eq_all_conv dropWhile_eq_Nil_conv)
  have 3: "split_fields [] = []" by (subst split_fields.simps) simp
  show ?thesis using assms(2) by (subst split_fields.simps) (simp add: Let_def 1 2 3)
qed

lemma fields_cons:
  assumes "\<forall>c \<in> set w. \<not> is_space c" "w \<noteq> []" "is_space c"
  shows "split_fields (w @ c # s) = w # split_fields (c # s)"
proof -
  have "dropWhile is_space (w @ c # s) = w @ c # s" using assms(1,2) by (cases w) auto
  moreover have "takeWhile (\<lambda>c. \<not> is_space c) (w @ c # s) = w"
    "dropWhile (\<lambda>c. \<not> is_space c) (w @ c # s) = c # s"
    using assms(1,3) by (induction w) auto
  ultimately show ?thesis using assms(2) by (subst split_fields.simps) (simp add: Let_def)
qed

lemma fields_space: "is_space c \<Longrightarrow> split_fields (c # s) = split_fields s"
  by (subst (1 2) split_fields.simps) simp

lemma atoi_dec_int_nat: "atoi (dec n) = (if in_int64 (int n) then Some (int n) else None)"
  using dec_not_sign [of n] by (auto simp: atoi_def digits_dec Let_def)

end
