(* ===== verification/Watchdog.thy ===== *)
theory Watchdog
  imports Encoding
begin

text \<open>
  The local watchdog, \<open>client/watchdog.go\<close> and the platform files \<open>watchdog_linux.go\<close>,
  \<open>watchdog_darwin.go\<close>, \<open>watchdog_unix.go\<close>, \<open>watchdog_windows.go\<close> and \<open>watchdog_stub.go\<close>: the
  detectors, the score of a tick, and the state that decides between no reaction, a suspect and
  a confirmed one. What a reaction does is in theory \<open>Healing\<close>. Times are in nanoseconds.
\<close>

section \<open>Detectors\<close>

text \<open>
  Linux: \<open>/proc/self/status\<close> as a text, \<open>None\<close> where it cannot be opened. Reading stops at the
  first line that starts with \<open>TracerPid:\<close>.
\<close>

fun tracer_line :: "string list \<Rightarrow> bool" where
  "tracer_line [] = False"
| "tracer_line (line # ls) =
     (if \<not> prefix ''TracerPid:'' line then tracer_line ls
      else let fs = split_fields line
           in if length fs \<noteq> 2 then False
              else case atoi (fs ! 1) of None \<Rightarrow> False | Some pid \<Rightarrow> pid \<noteq> 0)"

definition detect_debugger_linux :: "string option \<Rightarrow> bool" where
  "detect_debugger_linux status =
     (case status of None \<Rightarrow> False | Some text \<Rightarrow> tracer_line (scan_lines default_line text))"

text \<open>macOS: the flags the kernel reports for this process, \<open>None\<close> where the call fails.\<close>

definition pTraced :: "32 word" where "pTraced = 0x800"

definition detect_debugger_darwin :: "32 word option \<Rightarrow> bool" where
  "detect_debugger_darwin flags = (case flags of None \<Rightarrow> False | Some f \<Rightarrow> f AND pTraced \<noteq> 0)"

text \<open>Linux and macOS: the environment, where a variable that is not set reads as empty.\<close>

definition detect_remote_unix :: "(string \<Rightarrow> string) \<Rightarrow> bool" where
  "detect_remote_unix env \<longleftrightarrow> env ''SSH_CONNECTION'' \<noteq> [] \<or> env ''SSH_TTY'' \<noteq> []"

text \<open>
  Windows: the return value of \<open>IsDebuggerPresent\<close>; the status of \<open>ProcessIdToSessionId\<close> with the
  session it stores; the status of \<open>WTSQuerySessionInformationW\<close> for a session with the 16-bit
  value behind the buffer it stores, \<open>None\<close> for a null buffer.
\<close>

record win_api =
  win_debugger :: nat
  win_session :: "nat \<times> 32 word"
  win_protocol :: "32 word \<Rightarrow> nat \<times> 16 word option"

definition detect_debugger_windows :: "win_api \<Rightarrow> bool" where
  "detect_debugger_windows w \<longleftrightarrow> win_debugger w \<noteq> 0"

definition detect_remote_windows :: "win_api \<Rightarrow> bool" where
  "detect_remote_windows w =
     (case win_session w of
        (ok, sessionID) \<Rightarrow>
          if ok = 0 then False
          else case win_protocol w sessionID of
                 (ok', buf) \<Rightarrow>
                   if ok' = 0 then False
                   else case buf of None \<Rightarrow> False | Some protocolType \<Rightarrow> protocolType = 2)"

text \<open>Elsewhere neither signal exists.\<close>

definition detect_debugger_stub :: bool where "detect_debugger_stub = False"

definition detect_remote_stub :: bool where "detect_remote_stub = False"

section \<open>Score and state\<close>

record signals =
  remoteSession :: bool
  debuggerAttached :: bool
  reparented :: bool

definition weightRemoteSession :: int where "weightRemoteSession = 15"
definition weightDebuggerAttached :: int where "weightDebuggerAttached = 60"
definition weightReparented :: int where "weightReparented = 10"
definition scoreSuspect :: int where "scoreSuspect = 20"
definition scoreConfirm :: int where "scoreConfirm = 55"
definition confirmStreak :: int where "confirmStreak = 2"

lemmas weights = weightRemoteSession_def weightDebuggerAttached_def weightReparented_def
  scoreSuspect_def scoreConfirm_def confirmStreak_def

record watchdog =
  lastScore :: int
  confirmedTicks :: int
  startPPID :: int
  cooldownUntil :: int

text \<open>The zero time of Go lies before every clock reading of a run; the model uses 0.\<close>

definition new_watchdog :: "int \<Rightarrow> watchdog" where
  "new_watchdog ppid = \<lparr>lastScore = 0, confirmedTicks = 0, startPPID = ppid, cooldownUntil = 0\<rparr>"

definition observe :: "bool \<Rightarrow> bool \<Rightarrow> int \<Rightarrow> watchdog \<Rightarrow> signals" where
  "observe remote debugger ppid w =
     \<lparr>remoteSession = remote, debuggerAttached = debugger, reparented = (ppid \<noteq> startPPID w)\<rparr>"

definition score :: "signals \<Rightarrow> int" where
  "score s =
     (if remoteSession s then weightRemoteSession else 0) +
     (if debuggerAttached s then weightDebuggerAttached else 0) +
     (if reparented s then weightReparented else 0)"

datatype severity = Suspect | Confirmed

text \<open>
  \<open>tick\<close> up to the call of \<open>react\<close>, at time \<open>now\<close>: the reaction it asks for. \<open>react_state\<close> is the
  first part of \<open>react\<close>, at time \<open>now\<close>: it sets the cooldown and clears the streak.
\<close>

definition tick :: "signals \<Rightarrow> int \<Rightarrow> watchdog \<Rightarrow> severity option \<times> watchdog" where
  "tick s now w =
     (let sc = score s;
          w1 = w\<lparr>lastScore := sc,
                 confirmedTicks := (if scoreConfirm \<le> sc then confirmedTicks w + 1 else 0)\<rparr>;
          inCooldown = (now < cooldownUntil w);
          confirmed = (confirmStreak \<le> confirmedTicks w1);
          suspect = (scoreSuspect \<le> sc)
      in (if inCooldown then None
          else if confirmed then Some Confirmed
          else if suspect then Some Suspect else None, w1))"

definition seconds :: int where "seconds = 1000000000"

definition react_state :: "severity \<Rightarrow> int \<Rightarrow> watchdog \<Rightarrow> watchdog" where
  "react_state sev now w =
     w\<lparr>cooldownUntil := now + (if sev = Confirmed then 20 else 10) * seconds, confirmedTicks := 0\<rparr>"

text \<open>A tick with the reaction it starts; the clock is read again when the reaction starts.\<close>

definition tick_react :: "signals \<times> int \<times> int \<Rightarrow> watchdog \<Rightarrow> severity option \<times> watchdog" where
  "tick_react o1 w =
     (case o1 of (s, now, later) \<Rightarrow>
        (case tick s now w of
           (None, w1) \<Rightarrow> (None, w1)
         | (Some sev, w1) \<Rightarrow> (Some sev, react_state sev later w1)))"

fun run_ticks :: "(signals \<times> int \<times> int) list \<Rightarrow> watchdog \<Rightarrow> severity option list \<times> watchdog" where
  "run_ticks [] w = ([], w)"
| "run_ticks (o1 # os) w =
     (case tick_react o1 w of (r, w1) \<Rightarrow> (case run_ticks os w1 of (rs, w2) \<Rightarrow> (r # rs, w2)))"

section \<open>Scores\<close>

lemma score_range: "0 \<le> score s \<and> score s \<le> 85"
  by (simp add: score_def weights)

lemma score_confirm: "scoreConfirm \<le> score s \<longleftrightarrow> debuggerAttached s"
  by (simp add: score_def weights)

lemma score_suspect: "scoreSuspect \<le> score s \<longleftrightarrow> debuggerAttached s \<or> remoteSession s \<and> reparented s"
  by (simp add: score_def weights)

lemma tick_alt:
  "tick s now w =
     (if now < cooldownUntil w then None
      else if debuggerAttached s \<and> 1 \<le> confirmedTicks w then Some Confirmed
      else if debuggerAttached s \<or> remoteSession s \<and> reparented s then Some Suspect else None,
      w\<lparr>lastScore := score s, confirmedTicks := (if debuggerAttached s then confirmedTicks w + 1 else 0)\<rparr>)"
  by (simp add: tick_def Let_def score_confirm score_suspect confirmStreak_def)

text \<open>The streak counts ticks with a debugger since the last reaction, and never goes below zero.\<close>

lemma streak_nonneg: "0 \<le> confirmedTicks w \<Longrightarrow> tick_react o1 w = (r, w') \<Longrightarrow> 0 \<le> confirmedTicks w'"
  by (auto simp: tick_react_def tick_alt react_state_def split: prod.splits if_splits)

lemma cooldown_grows:
  "tick_react (s, now, later) w = (r, w') \<Longrightarrow>
   cooldownUntil w' = (case r of None \<Rightarrow> cooldownUntil w
     | Some Confirmed \<Rightarrow> later + 20 * seconds | Some Suspect \<Rightarrow> later + 10 * seconds)
   \<and> (r \<noteq> None \<longrightarrow> cooldownUntil w \<le> now)"
  by (auto simp: tick_react_def tick_alt react_state_def split: if_splits)

text \<open>The times at which a run of ticks reacts.\<close>

fun reactions :: "(signals \<times> int \<times> int) list \<Rightarrow> watchdog \<Rightarrow> (int \<times> severity) list" where
  "reactions [] w = []"
| "reactions ((s, now, later) # os) w =
     (case tick_react (s, now, later) w of
        (None, w1) \<Rightarrow> reactions os w1
      | (Some sev, w1) \<Rightarrow> (later, sev) # reactions os w1)"

lemma reactions_after:
  "\<forall>(s, now, later) \<in> set os. now \<le> later \<Longrightarrow> (t, sev) \<in> set (reactions os w) \<Longrightarrow> cooldownUntil w \<le> t"
proof (induction os w rule: reactions.induct)
  case (2 s now later os w)
  obtain r w1 where r: "tick_react (s, now, later) w = (r, w1)" by force
  note cg = cooldown_grows [OF r]
  show ?case
  proof (cases r)
    case None
    with 2 r cg show ?thesis by auto
  next
    case (Some v)
    have "cooldownUntil w \<le> now" "now \<le> later" using cg Some 2(3) by auto
    moreover have "cooldownUntil w1 \<ge> later" using cg Some by (cases v) (simp_all add: seconds_def)
    ultimately show ?thesis using 2 r Some by fastforce
  qed
qed simp

section \<open>Properties\<close>


text \<open>C39: The decision of one tick: nothing during a cooldown; a confirmed reaction exactly when a
  debugger is attached and was attached at the tick before, with no reaction in between; a
  suspect one on the first tick with a debugger, or for a remote session together with a changed
  parent. A debugger alone is enough for both, and nothing else ever confirms, so the source's
  remark that no single signal crosses the suspect threshold does not hold.\<close>

theorem tick_decides:
  assumes "0 \<le> confirmedTicks w" "tick s now w = (d, w')"
  shows "d = (if now < cooldownUntil w then None
      else if debuggerAttached s \<and> confirmedTicks w \<noteq> 0 then Some Confirmed
      else if debuggerAttached s \<or> remoteSession s \<and> reparented s then Some Suspect else None)
    \<and> lastScore w' = score s \<and> 0 \<le> score s \<and> score s \<le> 85
    \<and> confirmedTicks w' = (if debuggerAttached s then confirmedTicks w + 1 else 0)"
  using assms score_range [of s] by (auto simp: tick_alt)

definition debugger_only :: signals where
  "debugger_only = \<lparr>remoteSession = False, debuggerAttached = True, reparented = False\<rparr>"

theorem tick_decides_witness:
  "Some Suspect = (if (5 :: int) < cooldownUntil (new_watchdog 1) then None
      else if debuggerAttached debugger_only \<and> confirmedTicks (new_watchdog 1) \<noteq> 0 then Some Confirmed
      else if debuggerAttached debugger_only \<or> remoteSession debugger_only \<and> reparented debugger_only
           then Some Suspect else None)"
  using tick_decides [of "new_watchdog 1" debugger_only 5 "Some Suspect"
      "(new_watchdog 1)\<lparr>lastScore := 60, confirmedTicks := 1\<rparr>"]
  by (simp add: tick_alt new_watchdog_def debugger_only_def score_def weights)


text \<open>On Linux the debugger signal is exactly a non-zero \<open>TracerPid\<close> in the status file, for files
  whose lines fit the scanner's buffer.\<close>

theorem tracer_pid_detected:
  assumes "\<forall>l \<in> set pre. one_line l \<and> length l < default_line \<and> \<not> prefix ''TracerPid:'' l"
    and "n < 2 ^ 63"
  shows "detect_debugger_linux (Some (concat (map (\<lambda>l. l @ [nl]) pre) @
      ''TracerPid:'' @ [CHR 0x09] @ dec n @ [nl] @ rest)) = (n \<noteq> 0)"
proof -
  let ?t = "''TracerPid:'' @ CHR 0x09 # dec n"
  have small: "length (dec n) < 100"
  proof -
    have "n < 10 ^ k \<Longrightarrow> length (dec n) \<le> max 1 k" for n k
    proof (induction n arbitrary: k rule: dec.induct)
      case (1 n)
      show ?case
      proof (cases "n < 10")
        case True
        then show ?thesis by (simp add: dec.simps [of n])
      next
        case False
        then obtain j where k: "k = Suc j" "n div 10 < 10 ^ j" "0 < j"
          using 1(2) by (cases k; cases "k - 1") (auto simp: less_mult_imp_div_less mult.commute)
        with 1(1) [OF False k(2)] False show ?thesis by (simp add: dec.simps [of n])
      qed
    qed
    moreover have "n < 10 ^ 20" using assms(2) by simp
    ultimately have "length (dec n) \<le> max 1 20" by blast
    then show ?thesis by simp
  qed
  have line: "nl \<notin> set ?t" "cr \<notin> set ?t" "length ?t < default_line"
    using one_line_dec [of n] small by (auto simp: one_line_def default_line_def)
  have "split_fields ?t = [''TracerPid:'', dec n]"
  proof -
    have "split_fields ?t = ''TracerPid:'' # split_fields (CHR 0x09 # dec n)"
      by (rule fields_cons) (auto simp: is_space_def)
    then show ?thesis
      using fields_word [OF dec_not_space, of n] dec_not_sign [of n] by (simp add: fields_space is_space_def)
  qed
  moreover have "atoi (dec n) = Some (int n)"
    using atoi_dec_int_nat [of n] assms(2) by (simp add: in_int64_def)
  ultimately have "tracer_line (?t # ls) = (n \<noteq> 0)" for ls by (simp add: Let_def)
  moreover have "tracer_line (scan_lines default_line (concat (map (\<lambda>l. l @ [nl]) pre) @ ?t @ nl # rest)) =
      tracer_line (?t # scan_lines default_line rest)"
    using assms(1)
  proof (induction pre)
    case Nil
    show ?case using scan_lines_line [OF line(1,3), of rest] drop_cr_id [OF line(2)] by (simp only: concat.simps list.map append_Nil)
  next
    case (Cons l pre)
    then have l: "nl \<notin> set l" "cr \<notin> set l" "length l < default_line" "\<not> prefix ''TracerPid:'' l"
      by (simp_all add: one_line_def)
    have "scan_lines default_line (concat (map (\<lambda>l. l @ [nl]) (l # pre)) @ ?t @ nl # rest) =
        l # scan_lines default_line (concat (map (\<lambda>l. l @ [nl]) pre) @ ?t @ nl # rest)"
      using scan_lines_line [OF l(1,3)] drop_cr_id [OF l(2)] by simp
    with Cons l(4) show ?case by simp
  qed
  ultimately show ?thesis by (simp add: detect_debugger_linux_def)
qed

theorem tracer_pid_detected_witness:
  "detect_debugger_linux (Some (concat (map (\<lambda>l. l @ [nl]) [''Name: x'', ''State: R'']) @
      ''TracerPid:'' @ [CHR 0x09] @ dec 4711 @ [nl] @ [])) = ((4711 :: nat) \<noteq> 0)"
  by (rule tracer_pid_detected) (simp_all add: default_line_def)

end
