(* ===== verification/Node.thy ===== *)
theory Node
  imports Store Orchestrator Watchdog
begin

text \<open>
  Nodes and the network between them. A node's state (\<open>Node\<close> of \<open>client/node.go\<close>), the HTTP calls
  of \<open>protocol/client.go\<close> and \<open>peer/client.go\<close>, the custody of a new fragment
  (\<open>registerNewFragment\<close>) and the peer server of \<open>client/peerserver.go\<close>. Operations are state
  transformers of the whole world, so that a call runs the handler of the node it reaches.
\<close>

section \<open>The world\<close>

text \<open>
  \<open>n_chains\<close> is the map of cold chains by chain identifier. The constructor's other fields are the
  clients, which have no state of their own.
\<close>

record node =
  n_id :: string
  n_endpoint :: string
  n_root :: bytes
  n_dbpath :: string
  n_db :: db
  n_chains :: "string \<rightharpoonup> cold_chain"
  n_watch :: watchdog
  n_entropy :: entropy

text \<open>
  What becomes of an HTTP call: it reaches its server and the response comes back, it never gets
  there, or the server handles it and the response is lost.
\<close>

datatype fate = Reached | Unsent | Unanswered

text \<open>
  \<open>w_addr\<close> gives the node that answers at a URL, if any. The \<open>k\<close>-th call of the world has the
  fate \<open>w_fate k\<close> and happens at time \<open>w_clock k\<close>.
\<close>

record world =
  w_nodes :: "nat \<Rightarrow> node"
  w_addr :: "string \<rightharpoonup> nat"
  w_orch :: orchestrator
  w_fate :: "nat \<Rightarrow> fate"
  w_clock :: "nat \<Rightarrow> int"
  w_calls :: nat

type_synonym 'a act = "world \<Rightarrow> 'a res \<times> world"

text \<open>\<open>bindr m f\<close> is \<open>x, err := m(); if err != nil { return err }; f(x)\<close>.\<close>

definition bindr :: "'a act \<Rightarrow> ('a \<Rightarrow> 'b act) \<Rightarrow> 'b act" where
  "bindr m f w = (case m w of (Inl err, w1) \<Rightarrow> (Inl err, w1) | (Inr x, w1) \<Rightarrow> f x w1)"

definition ret :: "'a res \<Rightarrow> 'a act" where
  "ret r w = (r, w)"

text \<open>
  \<open>attempt m f\<close> is \<open>x, err := m(); f(x, err)\<close>: the error is a value the caller looks at. A panic is
  not an error value: it passes the caller by.
\<close>

definition died :: "'a res \<Rightarrow> string option" where
  "died r = (case r of Inl (Panic msg) \<Rightarrow> Some msg | _ \<Rightarrow> None)"

definition attempt :: "'a act \<Rightarrow> ('a res \<Rightarrow> 'b act) \<Rightarrow> 'b act" where
  "attempt m f w =
     (case m w of (r, w1) \<Rightarrow> (case died r of Some msg \<Rightarrow> (Inl (Panic msg), w1) | None \<Rightarrow> f r w1))"

lemma died_simps [simp]: "died (Inr x) = None" "died (Inl (Panic msg)) = Some msg"
  by (simp_all add: died_def)

lemma died_Some: "died r = Some msg \<longleftrightarrow> r = Inl (Panic msg)"
  by (auto simp: died_def split: sum.splits goerr.splits)

lemma died_Inl [simp]: "(\<And>msg. err \<noteq> Panic msg) \<Longrightarrow> died (Inl err) = None"
  using died_Some [of "Inl err"] by (cases "died (Inl err)") auto

definition with_node :: "nat \<Rightarrow> (node \<Rightarrow> 'b act) \<Rightarrow> 'b act" where
  "with_node i f w = f (w_nodes w i) w"

definition set_node :: "nat \<Rightarrow> node \<Rightarrow> world \<Rightarrow> world" where
  "set_node i n w = w\<lparr>w_nodes := (w_nodes w)(i := n)\<rparr>"

definition on_db :: "nat \<Rightarrow> (db \<Rightarrow> 'a res \<times> db) \<Rightarrow> 'a act" where
  "on_db i f w =
     (let n = w_nodes w i in case f (n_db n) of (r, d) \<Rightarrow> (r, set_node i (n\<lparr>n_db := d\<rparr>) w))"

definition on_db_rand :: "nat \<Rightarrow> (db \<Rightarrow> entropy \<Rightarrow> 'a res \<times> db \<times> entropy) \<Rightarrow> 'a act" where
  "on_db_rand i f w =
     (let n = w_nodes w i
      in case f (n_db n) (n_entropy n) of
           (r, d, e) \<Rightarrow> (r, set_node i (n\<lparr>n_db := d, n_entropy := e\<rparr>) w))"

definition on_rand :: "nat \<Rightarrow> (entropy \<Rightarrow> 'a res \<times> entropy) \<Rightarrow> 'a act" where
  "on_rand i f w =
     (let n = w_nodes w i in case f (n_entropy n) of (r, e) \<Rightarrow> (r, set_node i (n\<lparr>n_entropy := e\<rparr>) w))"

fun for_each :: "('a \<Rightarrow> unit act) \<Rightarrow> 'a list \<Rightarrow> unit act" where
  "for_each f [] = ret (Inr ())"
| "for_each f (x # xs) = bindr (f x) (\<lambda>_. for_each f xs)"

definition random_id :: "nat \<Rightarrow> entropy \<Rightarrow> string res \<times> entropy" where
  "random_id nBytes e =
     (case rand_read nBytes e of (Inl err, e') \<Rightarrow> (Inl err, e') | (Inr b, e') \<Rightarrow> (Inr (hex_encode b), e'))"

section \<open>Calls to the orchestrator\<close>

definition orch_call :: "orch_request \<Rightarrow> orch_response act" where
  "orch_call req w =
     (let k = w_calls w; w1 = w\<lparr>w_calls := Suc k\<rparr>
      in if w_fate w k = Unsent then (Inl ErrTransport, w1)
         else case orch_handle req (w_clock w k) (w_orch w) of
                (resp, o2) \<Rightarrow>
                  ((case resp of
                      Some r \<Rightarrow> if w_fate w k = Unanswered then Inl ErrTransport else Inr r
                    | None \<Rightarrow> Inl ErrTransport), w1\<lparr>w_orch := o2\<rparr>))"

text \<open>\<open>postJSON\<close>: a status of 300 or more is an error; otherwise the body goes to the decoder.\<close>

definition orch_post :: "orch_request \<Rightarrow> (orch_body \<Rightarrow> 'a res) \<Rightarrow> 'a act" where
  "orch_post req decode =
     bindr (orch_call req) (\<lambda>resp.
       ret (if 300 \<le> rs_status resp then Inl (ErrStatus (rs_status resp)) else decode (rs_body resp)))"

definition no_out :: "orch_body \<Rightarrow> unit res" where "no_out b = Inr ()"

definition client_register :: "register_request \<Rightarrow> unit act" where
  "client_register req = orch_post (PostRegister (Some req))
     (\<lambda>b. case b of RegisterBody _ \<Rightarrow> Inr () | _ \<Rightarrow> Inl ErrDecode)"

definition client_announce :: "route_announce \<Rightarrow> unit act" where
  "client_announce a = orch_post (PostAnnounce (Some a)) no_out"

definition client_heartbeat :: "heartbeat \<Rightarrow> unit act" where
  "client_heartbeat hb = orch_post (PostHeartbeat (Some hb)) no_out"

definition client_ack :: "mutation_ack \<Rightarrow> unit act" where
  "client_ack a = orch_post (PostAck (Some a)) no_out"

definition client_alert :: "immune_alert \<Rightarrow> unit act" where
  "client_alert a = orch_post (PostAlert (Some a)) no_out"

text \<open>\<open>ListNodes\<close> and \<open>GetMap\<close> do not look at the status.\<close>

definition list_nodes :: "node_info list act" where
  "list_nodes = bindr (orch_call GetNodes) (\<lambda>resp.
     ret (case rs_body resp of NodesBody ns \<Rightarrow> Inr ns | _ \<Rightarrow> Inl ErrDecode))"

definition get_map :: "route_entry list act" where
  "get_map = bindr (orch_call GetMap) (\<lambda>resp.
     ret (case rs_body resp of MapBody es \<Rightarrow> Inr es | _ \<Rightarrow> Inl ErrDecode))"

definition subscribe_events :: "string \<Rightarrow> nat act" where
  "subscribe_events nodeID = bindr (orch_call (GetEvents nodeID)) (\<lambda>resp.
     ret (if 300 \<le> rs_status resp then Inl (ErrStatus (rs_status resp))
          else case rs_body resp of Stream i \<Rightarrow> Inr i | _ \<Rightarrow> Inl ErrDecode))"

section \<open>Custody of a new fragment\<close>

definition coldChainLength :: int where "coldChainLength = 64"

definition register_new_fragment :: "nat \<Rightarrow> string \<Rightarrow> string \<Rightarrow> cold_chain act" where
  "register_new_fragment i pid chainID =
     bindr (on_rand i (build_chain coldChainLength)) (\<lambda>chainValues.
       let cc = \<lparr>chain = chainValues, next_link = coldChainLength - 1\<rparr>
       in with_node i (\<lambda>n w.
            attempt
              (client_announce
                 \<lparr>ra_node = n_id n, ra_pid = pid, ra_endpoint = n_endpoint n, ra_chain = chainID,
                  ra_tip = chainValues ! nat coldChainLength\<rparr>)
              (\<lambda>_. ret (Inr cc))
              (set_node i (n\<lparr>n_chains := (n_chains n)(chainID \<mapsto> cc)\<rparr>) w)))"

section \<open>The peer server\<close>

datatype peer_request =
    PeerDeliver "deliver_request option"
  | PeerPing
  | PeerStatus string string
  | PeerFetch string string
  | PeerNotice "mutation_notice option"

datatype peer_body =
    PeerNoBody
  | PeerError string
  | PresenceBody presence_response
  | ShareBody share_response

record peer_response =
  ps_status :: nat
  ps_body :: peer_body

definition reply :: "nat \<Rightarrow> peer_body \<Rightarrow> peer_response act" where
  "reply st b = ret (Inr \<lparr>ps_status = st, ps_body = b\<rparr>)"

text \<open>The associated data of a share: \<open>groupID + ":" + pid\<close>.\<close>

definition share_aad :: "string \<Rightarrow> string \<Rightarrow> bytes" where
  "share_aad groupID pid = bytes_of (groupID @ '':'' @ pid)"

definition member_of_peer :: "peer_member \<Rightarrow> member" where
  "member_of_peer m = \<lparr>m_pid = pm_pid m, m_node = pm_node m, m_endpoint = pm_endpoint m\<rparr>"

definition peer_of_member :: "member \<Rightarrow> peer_member" where
  "peer_of_member m = \<lparr>pm_pid = m_pid m, pm_node = m_node m, pm_endpoint = m_endpoint m\<rparr>"

definition handle_deliver :: "nat \<Rightarrow> deliver_request option \<Rightarrow> peer_response act" where
  "handle_deliver i body =
     (case body of
        None \<Rightarrow> reply 400 (PeerError ''decode'')
      | Some req \<Rightarrow>
          attempt (on_rand i (random_id 8)) (\<lambda>r1. case r1 of
            Inl _ \<Rightarrow> reply 500 (PeerError ''random'')
          | Inr chainID \<Rightarrow>
              attempt (register_new_fragment i (dr_pid req) chainID) (\<lambda>r2. case r2 of
                Inl _ \<Rightarrow> reply 500 (PeerError ''registrazione rotta fallita'')
              | Inr _ \<Rightarrow>
                  attempt (on_db_rand i (put_fragment
                    \<lparr>f_pid = dr_pid req, f_group = dr_group req, f_token = dr_token req,
                     f_chain = chainID, f_epoch = dr_epoch req, f_threshold = dr_threshold req,
                     f_total = dr_total req, f_key = dr_key req, f_ciphertext = dr_ciphertext req,
                     f_members = map member_of_peer (dr_members req), f_updated = 0\<rparr>)) (\<lambda>r3. case r3 of
                    Inl _ \<Rightarrow> reply 500 (PeerError ''store'')
                  | Inr _ \<Rightarrow> reply 204 PeerNoBody))))"

definition handle_status :: "nat \<Rightarrow> string \<Rightarrow> string \<Rightarrow> peer_response act" where
  "handle_status i groupID token =
     attempt (on_db i (get_fragment_by_group groupID)) (\<lambda>r. case r of
       Inl _ \<Rightarrow> reply 404 (PeerError ''gruppo sconosciuto'')
     | Inr frag \<Rightarrow>
         if token \<noteq> f_token frag then reply 403 (PeerError ''token di gruppo non valido'')
         else reply 200 (PresenceBody \<lparr>pr_present = True, pr_epoch = f_epoch frag\<rparr>))"

definition handle_fetch :: "nat \<Rightarrow> string \<Rightarrow> string \<Rightarrow> peer_response act" where
  "handle_fetch i groupID token =
     attempt (on_db i (get_fragment_by_group groupID)) (\<lambda>r. case r of
       Inl _ \<Rightarrow> reply 404 (PeerError ''gruppo sconosciuto'')
     | Inr frag \<Rightarrow>
         if token \<noteq> f_token frag then reply 403 (PeerError ''token di gruppo non valido'')
         else case decrypt (f_key frag) (f_ciphertext frag) (share_aad (f_group frag) (f_pid frag)) of
                Inl _ \<Rightarrow> reply 500 (PeerError ''decifratura locale fallita'')
              | Inr share \<Rightarrow> reply 200 (ShareBody \<lparr>sr_share = share, sr_epoch = f_epoch frag\<rparr>))"

definition handle_notice :: "nat \<Rightarrow> mutation_notice option \<Rightarrow> peer_response act" where
  "handle_notice i body =
     (case body of
        None \<Rightarrow> reply 400 (PeerError ''decode'')
      | Some req \<Rightarrow>
          attempt (on_db i (update_sibling (mn_group req) (mn_old req) (mn_new req) (mn_endpoint req))) (\<lambda>r. case r of
            Inl _ \<Rightarrow> reply 500 (PeerError ''store'')
          | Inr _ \<Rightarrow>
              attempt (on_db i (update_manifest_member (mn_group req) (mn_old req) (mn_new req) (mn_endpoint req)))
                (\<lambda>_. reply 204 PeerNoBody)))"

definition peer_handle :: "nat \<Rightarrow> peer_request \<Rightarrow> peer_response act" where
  "peer_handle i req =
     (case req of
        PeerDeliver body \<Rightarrow> handle_deliver i body
      | PeerPing \<Rightarrow> reply 204 PeerNoBody
      | PeerStatus groupID token \<Rightarrow> handle_status i groupID token
      | PeerFetch groupID token \<Rightarrow> handle_fetch i groupID token
      | PeerNotice body \<Rightarrow> handle_notice i body)"

section \<open>Calls to peers\<close>

text \<open>The server recovers a panic of its handler and closes the connection.\<close>

definition peer_call :: "string \<Rightarrow> peer_request \<Rightarrow> peer_response act" where
  "peer_call ep req w =
     (let k = w_calls w; w1 = w\<lparr>w_calls := Suc k\<rparr>
      in case w_addr w ep of
           None \<Rightarrow> (Inl ErrTransport, w1)
         | Some i \<Rightarrow>
             if w_fate w k = Unsent then (Inl ErrTransport, w1)
             else case peer_handle i req w1 of
                    (r, w2) \<Rightarrow> ((case r of
                        Inl _ \<Rightarrow> Inl ErrTransport
                      | Inr resp \<Rightarrow> if w_fate w k = Unanswered then Inl ErrTransport else Inr resp), w2))"

definition ok_status :: "peer_response \<Rightarrow> unit act" where
  "ok_status resp = ret (if 300 \<le> ps_status resp then Inl (ErrStatus (ps_status resp)) else Inr ())"

definition deliver_share :: "string \<Rightarrow> deliver_request \<Rightarrow> unit act" where
  "deliver_share ep req = bindr (peer_call ep (PeerDeliver (Some req))) ok_status"

definition ping :: "string \<Rightarrow> unit act" where
  "ping ep = bindr (peer_call ep PeerPing) ok_status"

definition check_presence :: "string \<Rightarrow> string \<Rightarrow> string \<Rightarrow> presence_response act" where
  "check_presence ep groupID token =
     bindr (peer_call ep (PeerStatus groupID token)) (\<lambda>resp.
       ret (if 300 \<le> ps_status resp then Inr \<lparr>pr_present = False, pr_epoch = 0\<rparr>
            else case ps_body resp of PresenceBody p \<Rightarrow> Inr p | _ \<Rightarrow> Inl ErrDecode))"

definition notify_mutation :: "string \<Rightarrow> mutation_notice \<Rightarrow> unit act" where
  "notify_mutation ep req = bindr (peer_call ep (PeerNotice (Some req))) ok_status"

definition fetch_group_share :: "string \<Rightarrow> string \<Rightarrow> string \<Rightarrow> share_response act" where
  "fetch_group_share ep groupID token =
     bindr (peer_call ep (PeerFetch groupID token)) (\<lambda>resp.
       ret (if 300 \<le> ps_status resp then Inl (ErrStatus (ps_status resp))
            else case ps_body resp of ShareBody s \<Rightarrow> Inr s | _ \<Rightarrow> Inl ErrDecode))"

end
