(* ===== verification/Interpolation.thy ===== *)
theory Interpolation
  imports Complex_Main
begin

text \<open>
  Polynomials over a field as coefficient lists, lowest degree first: evaluation, division by
  a linear factor, the bound on the number of roots, and Lagrange's formula at 0. The Shamir
  theory applies these to the field of \<open>Gf256\<close>.
\<close>

section \<open>Coefficient lists\<close>

fun peval :: "'a :: comm_ring_1 list \<Rightarrow> 'a \<Rightarrow> 'a" where
  "peval [] x = 0"
| "peval (c # cs) x = c + x * peval cs x"

text \<open>The quotient of a polynomial by \<open>x - a\<close>.\<close>

fun pquot :: "'a :: comm_ring_1 list \<Rightarrow> 'a \<Rightarrow> 'a list" where
  "pquot [] a = []"
| "pquot [c] a = []"
| "pquot (c # d # cs) a = peval (d # cs) a # pquot (d # cs) a"

lemma length_pquot: "length (pquot cs a) = length cs - 1"
  by (induction cs a rule: pquot.induct) auto

lemma peval_Cons2: "peval (c # d # cs) x = c + x * peval (d # cs) x"
  by simp

lemma peval_pquot: "peval cs x = (x - a) * peval (pquot cs a) x + peval cs a"
proof (induction cs a rule: pquot.induct)
  case (3 c d cs a)
  define p q r where pqr: "p = peval (d # cs) x" "q = peval (pquot (d # cs) a) x" "r = peval (d # cs) a"
  have ih: "p = (x - a) * q + r" using "3.IH" unfolding pqr .
  have q: "peval (pquot (c # d # cs) a) x = r + x * q" unfolding pqr by simp
  have "c + x * p = (x - a) * (r + x * q) + (c + a * r)" unfolding ih by (simp add: algebra_simps)
  then show ?case unfolding peval_Cons2 q pqr [symmetric] .
qed simp_all

lemma pquot_zero: "\<forall>c \<in> set (pquot cs a). c = 0 \<Longrightarrow> peval cs a = 0 \<Longrightarrow> \<forall>c \<in> set cs. c = 0"
  by (induction cs a rule: pquot.induct) auto

text \<open>A polynomial with as many distinct roots as coefficients is zero.\<close>

lemma root_bound:
  fixes cs :: "'a :: idom list"
  assumes "distinct xs" "length cs \<le> length xs" "\<forall>x \<in> set xs. peval cs x = 0"
  shows "\<forall>c \<in> set cs. c = 0"
  using assms
proof (induction xs arbitrary: cs)
  case (Cons a xs)
  have a: "peval cs a = 0" and d: "distinct xs" "a \<notin> set xs"
    and l: "length (pquot cs a) \<le> length xs"
    using Cons.prems by (auto simp: length_pquot)
  have "peval (pquot cs a) x = 0" if x: "x \<in> set xs" for x
  proof -
    have "peval cs x = 0" using Cons.prems(3) x by simp
    then have "(x - a) * peval (pquot cs a) x = 0" using peval_pquot [of cs x a] a by simp
    moreover have "x - a \<noteq> 0" using x d by auto
    ultimately show ?thesis by simp
  qed
  then have "\<forall>c \<in> set (pquot cs a). c = 0" using Cons.IH [OF d(1) l] by blast
  then show ?case using a by (rule pquot_zero)
qed simp

lemma peval_zero: "\<forall>c \<in> set cs. c = 0 \<Longrightarrow> peval cs x = 0"
  by (induction cs) auto

lemma peval_append_zeros: "peval (cs @ replicate k 0) x = peval cs x"
  by (induction cs) (auto simp: peval_zero)

lemma peval_at_0: "peval cs 0 = (case cs of [] \<Rightarrow> 0 | c # _ \<Rightarrow> c)"
  by (cases cs) auto

lemma peval_map2_add:
  "length cs = length ds \<Longrightarrow> peval (map2 (+) cs ds) x = peval cs x + peval ds x"
  by (induction cs ds rule: list_induct2) (auto simp: algebra_simps)

lemma peval_map_mult: "peval (map ((*) a) cs) x = a * peval cs x"
  by (induction cs) (auto simp: algebra_simps)

lemma peval_diff:
  fixes cs :: "'a :: comm_ring_1 list"
  assumes "length cs = length ds"
  shows "peval (map2 (-) cs ds) x = peval cs x - peval ds x"
  using assms
  by (induction cs ds rule: list_induct2) (simp_all add: right_diff_distrib)

lemma map2_diff_zero:
  fixes cs :: "'a :: comm_ring_1 list"
  assumes "length cs = length ds" "\<forall>c \<in> set (map2 (-) cs ds). c = 0"
  shows "cs = ds"
  using assms by (induction cs ds rule: list_induct2) simp_all

text \<open>Two polynomials that agree at as many points as they have coefficients are equal.\<close>

lemma peval_unique:
  fixes cs :: "'a :: idom list"
  assumes "distinct xs" "length cs = length ds" "length cs \<le> length xs"
    "\<forall>x \<in> set xs. peval cs x = peval ds x"
  shows "cs = ds"
proof -
  have "\<forall>c \<in> set (map2 (-) cs ds). c = 0"
    by (rule root_bound [OF assms(1)]) (use assms in \<open>simp_all add: peval_diff\<close>)
  with assms(2) show ?thesis by (rule map2_diff_zero)
qed

section \<open>Polynomial functions of bounded degree\<close>

definition polyf :: "nat \<Rightarrow> ('a :: comm_ring_1 \<Rightarrow> 'a) \<Rightarrow> bool" where
  "polyf n f \<longleftrightarrow> (\<exists>cs. length cs = n \<and> (\<forall>z. f z = peval cs z))"

lemma polyf_peval: "length cs \<le> n \<Longrightarrow> polyf n (peval cs)"
  unfolding polyf_def
  by (rule exI [of _ "cs @ replicate (n - length cs) 0"]) (simp add: peval_append_zeros)

lemma polyf_0: "polyf n (\<lambda>z. 0)"
  using polyf_peval [of "[]" n] by (simp add: polyf_def)

lemma polyf_1: "polyf (Suc 0) (\<lambda>z. 1)"
  unfolding polyf_def by (rule exI [of _ "[1]"]) simp

lemma polyf_mult: "polyf n f \<Longrightarrow> polyf n (\<lambda>z. a * f z)"
  unfolding polyf_def by (metis length_map peval_map_mult)

lemma polyf_add: "polyf n f \<Longrightarrow> polyf n g \<Longrightarrow> polyf n (\<lambda>z. f z + g z)"
proof -
  assume "polyf n f" "polyf n g"
  then obtain cs ds where "length cs = n" "\<forall>z. f z = peval cs z" "length ds = n"
    "\<forall>z. g z = peval ds z" by (auto simp: polyf_def)
  then show ?thesis unfolding polyf_def
    by (intro exI [of _ "map2 (+) cs ds"]) (simp add: peval_map2_add)
qed

lemma polyf_sum: "(\<And>i. i \<in> A \<Longrightarrow> polyf n (f i)) \<Longrightarrow> polyf n (\<lambda>z. \<Sum>i\<in>A. f i z)"
proof (induction A rule: infinite_finite_induct)
  case (insert i A)
  then show ?case by (simp add: polyf_add)
qed (simp_all add: polyf_0)

lemma polyf_linear:
  assumes "polyf n f" shows "polyf (Suc n) (\<lambda>z. (z - a) * f z)"
proof -
  obtain cs where cs: "length cs = n" "\<forall>z. f z = peval cs z" using assms by (auto simp: polyf_def)
  let ?as = "0 # cs" and ?bs = "map ((*) (- a)) (cs @ replicate 1 0)"
  have "peval ?as z = z * peval cs z" "peval ?bs z = - a * peval cs z" for z
    by (simp, simp only: peval_map_mult peval_append_zeros)
  then have "(z - a) * f z = peval (map2 (+) ?as ?bs) z" for z
    by (subst peval_map2_add) (simp_all add: cs algebra_simps del: peval.simps)
  then show ?thesis unfolding polyf_def
    by (intro exI [of _ "map2 (+) ?as ?bs"]) (simp add: cs)
qed

lemma polyf_prod_linear: "finite A \<Longrightarrow> polyf (Suc (card A)) (\<lambda>z. \<Prod>j\<in>A. z - x j)"
proof (induction A rule: finite_induct)
  case empty
  show ?case by (simp add: polyf_1)
next
  case (insert i A)
  then show ?case using polyf_linear [of "Suc (card A)" _ "x i"] by simp
qed

lemma polyf_roots:
  fixes f :: "'a :: idom \<Rightarrow> 'a"
  assumes "polyf n f" "inj_on x {..<n}" "\<And>i. i < n \<Longrightarrow> f (x i) = 0" shows "f z = 0"
proof -
  obtain cs where cs: "length cs = n" "\<forall>z. f z = peval cs z" using assms by (auto simp: polyf_def)
  have "distinct (map x [0..<n])" using assms(2) by (simp add: distinct_map atLeast0LessThan)
  from root_bound [OF this, of cs] cs assms(3) show ?thesis by (simp add: peval_zero)
qed

section \<open>Lagrange interpolation\<close>

definition lagrange :: "nat \<Rightarrow> (nat \<Rightarrow> 'a :: field) \<Rightarrow> (nat \<Rightarrow> 'a) \<Rightarrow> 'a \<Rightarrow> 'a" where
  "lagrange n x y z = (\<Sum>i<n. y i * ((\<Prod>j\<in>{..<n} - {i}. z - x j) / (\<Prod>j\<in>{..<n} - {i}. x i - x j)))"

lemma polyf_lagrange: "polyf n (lagrange n x y)"
proof -
  have "polyf n (\<lambda>z. y i * ((\<Prod>j\<in>{..<n} - {i}. z - x j) / (\<Prod>j\<in>{..<n} - {i}. x i - x j)))"
    if "i < n" for i
  proof -
    let ?d = "\<Prod>j\<in>{..<n} - {i}. x i - x j"
    have "polyf n (\<lambda>z. \<Prod>j\<in>{..<n} - {i}. z - x j)"
      using polyf_prod_linear [of "{..<n} - {i}" x] that by simp
    from polyf_mult [OF this, of "y i / ?d"] show ?thesis by simp
  qed
  then show ?thesis unfolding lagrange_def by (intro polyf_sum) simp
qed

lemma lagrange_at:
  assumes "inj_on x {..<n}" "k < n" shows "lagrange n x y (x k) = y k"
proof -
  have z: "(\<Prod>j\<in>{..<n} - {i}. x k - x j) = 0" if "i < n" "i \<noteq> k" for i
    using that assms(2) by (intro prod_zero) auto
  have nz: "(\<Prod>j\<in>{..<n} - {k}. x k - x j) \<noteq> 0"
    using assms by (auto simp: inj_on_def)
  have "lagrange n x y (x k) = (\<Sum>i\<in>{k}. y i)"
    unfolding lagrange_def using assms(2) z nz by (intro sum.mono_neutral_cong_right) auto
  then show ?thesis by simp
qed

text \<open>The formula recovers a polynomial with at most \<open>n\<close> coefficients from \<open>n\<close> values.\<close>

theorem lagrange_peval:
  assumes "inj_on x {..<n}" "length cs \<le> n" "\<And>i. i < n \<Longrightarrow> y i = peval cs (x i)"
  shows "lagrange n x y z = peval cs z"
proof -
  have "polyf n (\<lambda>z. lagrange n x y z + (- 1) * peval cs z)"
    using assms(2) by (intro polyf_add polyf_lagrange polyf_mult polyf_peval)
  from polyf_roots [OF this assms(1), of z] show ?thesis
    by (simp add: lagrange_at assms)
qed

text \<open>
  With one value too few, the formula misses the polynomial by its leading coefficient times
  the product of the differences.
\<close>

lemma polyf_power: "polyf (Suc m) (\<lambda>z. z ^ m)"
proof (induction m)
  case (Suc m)
  from polyf_linear [OF this, of 0] show ?case by simp
qed (simp add: polyf_1)

lemma polyf_prod_monic:
  "finite A \<Longrightarrow> polyf (card A) (\<lambda>z. (\<Prod>j\<in>A. z - x j) - z ^ card A)"
proof (induction A rule: finite_induct)
  case empty
  show ?case by (simp add: polyf_0)
next
  case (insert i A)
  have "polyf (Suc (card A)) (\<lambda>z. (z - x i) * ((\<Prod>j\<in>A. z - x j) - z ^ card A) + (- x i) * z ^ card A)"
    by (intro polyf_add polyf_linear polyf_mult polyf_power insert.IH)
  then show ?case using insert.hyps by (simp add: algebra_simps)
qed

lemma peval_snoc: "peval (cs @ [c]) z = peval cs z + c * z ^ length cs"
  by (induction cs) (auto simp: algebra_simps)

theorem lagrange_short:
  assumes "inj_on x {..<n}" "length cs = n" "\<And>i. i < n \<Longrightarrow> y i = peval (cs @ [c]) (x i)"
  shows "peval (cs @ [c]) z = lagrange n x y z + c * (\<Prod>j<n. z - x j)"
proof -
  define f where
    "f z = peval cs z + (- 1) * lagrange n x y z + (- c) * ((\<Prod>j<n. z - x j) - z ^ n)" for z
  have f: "f z = (peval (cs @ [c]) z - lagrange n x y z) - c * (\<Prod>j<n. z - x j)" for z
    by (simp add: f_def peval_snoc assms(2) right_diff_distrib)
  have "polyf n f"
    using polyf_prod_monic [of "{..<n}" x] assms(2) unfolding f_def
    by (intro polyf_add polyf_lagrange polyf_mult polyf_peval) simp_all
  moreover have "f (x i) = 0" if "i < n" for i
  proof -
    have "(\<Prod>j<n. x i - x j) = 0" using that by (intro prod_zero) auto
    moreover have "lagrange n x y (x i) = peval (cs @ [c]) (x i)"
      using lagrange_at [OF assms(1) that] assms(3) [OF that] by simp
    ultimately show ?thesis unfolding f by simp
  qed
  ultimately have "f z = 0" by (rule polyf_roots [OF _ assms(1)])
  then show ?thesis unfolding f by (simp add: diff_eq_eq add.commute)
qed

end
