(* ===== verification/Shamir.thy ===== *)
theory Shamir
  imports Gf256 Interpolation
begin

text \<open>
  Shamir secret sharing, \<open>crypto/shamir.go\<close>: \<open>Split\<close>, \<open>evalPoly\<close> and \<open>Combine\<close> with every
  validation branch. The lemmas show that any \<open>threshold\<close> (or more) shares of a split
  recombine to the secret, that fewer determine nothing about it, and what \<open>Combine\<close> returns
  when one share is missing.
\<close>

section \<open>The routines of the source\<close>

type_synonym share = bytes

text \<open>\<open>evalPoly\<close>: Horner's rule from the last coefficient down.\<close>

fun evalPoly_loop :: "bytes \<Rightarrow> byte \<Rightarrow> nat \<Rightarrow> byte \<Rightarrow> byte" where
  "evalPoly_loop coeffs x 0 result = result"
| "evalPoly_loop coeffs x (Suc i) result =
     evalPoly_loop coeffs x i (gfMul result x XOR coeffs ! i)"

definition evalPoly :: "bytes \<Rightarrow> byte \<Rightarrow> byte" where
  "evalPoly coeffs x =
     evalPoly_loop coeffs x (length coeffs - 1) (coeffs ! (length coeffs - 1))"

text \<open>
  The loop of \<open>Split\<close> over the secret's bytes: \<open>threshold - 1\<close> fresh coefficients per byte,
  then one y-value into every share.
\<close>

fun split_loop ::
  "nat \<Rightarrow> nat \<Rightarrow> bytes \<Rightarrow> nat \<Rightarrow> share list \<Rightarrow> entropy \<Rightarrow> share list res \<times> entropy" where
  "split_loop shares threshold [] byteIdx out e = (Inr out, e)"
| "split_loop shares threshold (secretByte # secret) byteIdx out e =
     (case rand_read (threshold - 1) e of
        (Inl err, e') \<Rightarrow> (Inl err, e')
      | (Inr rs, e') \<Rightarrow>
          let coeffs = secretByte # rs;
              out' = map (\<lambda>i. (out ! i)[byteIdx + 1 := evalPoly coeffs (of_nat (i + 1))])
                       [0..<shares]
          in split_loop shares threshold secret (byteIdx + 1) out' e')"

definition split_secret :: "bytes \<Rightarrow> int \<Rightarrow> int \<Rightarrow> entropy \<Rightarrow> share list res \<times> entropy" where
  "split_secret secret shares threshold e =
     (if threshold < 2 then (Inl ErrThreshold, e)
      else if shares < threshold then (Inl ErrSharesBelowThreshold, e)
      else if shares > 255 then (Inl ErrTooManyShares, e)
      else if secret = [] then (Inl ErrEmptySecret, e)
      else let out = map (\<lambda>i. of_nat (i + 1) # replicate (length secret) 0) [0..<nat shares]
           in split_loop (nat shares) (nat threshold) secret 0 out e)"

text \<open>The validation loop of \<open>Combine\<close>: it collects the x-coordinates.\<close>

fun check_shares :: "nat \<Rightarrow> byte set \<Rightarrow> share list \<Rightarrow> bytes res" where
  "check_shares secretLen seen [] = Inr []"
| "check_shares secretLen seen (s # ss) =
     (if length s \<noteq> secretLen + 1 then Inl ErrShareLengths
      else if s ! 0 = 0 then Inl ErrShareZero
      else if s ! 0 \<in> seen then Inl ErrShareDuplicate
      else case check_shares secretLen (insert (s ! 0) seen) ss of
             Inl err \<Rightarrow> Inl err
           | Inr xs \<Rightarrow> Inr (s ! 0 # xs))"

text \<open>The inner loop over \<open>j\<close>: numerator and denominator of the \<open>i\<close>-th Lagrange factor.\<close>

fun num_den :: "bytes \<Rightarrow> nat \<Rightarrow> nat list \<Rightarrow> byte \<Rightarrow> byte \<Rightarrow> byte \<times> byte" where
  "num_den xs i [] num den = (num, den)"
| "num_den xs i (j # js) num den =
     (if i = j then num_den xs i js num den
      else num_den xs i js (gfMul num (xs ! j)) (gfMul den (xs ! i XOR xs ! j)))"

fun combine_byte :: "share list \<Rightarrow> bytes \<Rightarrow> nat \<Rightarrow> nat list \<Rightarrow> byte \<Rightarrow> byte res" where
  "combine_byte shares xs byteIdx [] acc = Inr acc"
| "combine_byte shares xs byteIdx (i # is) acc =
     (let yi = shares ! i ! (byteIdx + 1);
          (num, den) = num_den xs i [0..<length shares] 1 1
      in case gfDiv num den of
           Inl err \<Rightarrow> Inl err
         | Inr q \<Rightarrow> combine_byte shares xs byteIdx is (acc XOR gfMul yi q))"

fun combine_bytes :: "share list \<Rightarrow> bytes \<Rightarrow> nat list \<Rightarrow> bytes res" where
  "combine_bytes shares xs [] = Inr []"
| "combine_bytes shares xs (k # ks) =
     (case combine_byte shares xs k [0..<length shares] 0 of
        Inl err \<Rightarrow> Inl err
      | Inr b \<Rightarrow> (case combine_bytes shares xs ks of Inl err \<Rightarrow> Inl err | Inr bs \<Rightarrow> Inr (b # bs)))"

definition combine :: "share list \<Rightarrow> bytes res" where
  "combine shares =
     (if length shares < 2 then Inl ErrTooFewShares
      else let secretLen = int (length (shares ! 0)) - 1
           in if secretLen \<le> 0 then Inl ErrMalformedShare
              else case check_shares (nat secretLen) {} shares of
                     Inl err \<Rightarrow> Inl err
                   | Inr xs \<Rightarrow> combine_bytes shares xs [0..<nat secretLen])"

section \<open>Polynomial evaluation\<close>

lemma evalPoly_loop_field:
  "i \<le> length cs \<Longrightarrow>
   gf_of (evalPoly_loop cs x i r) =
     peval (map gf_of (take i cs)) (gf_of x) + gf_of r * gf_of x ^ i"
proof (induction i arbitrary: r)
  case (Suc i)
  then show ?case
    by (simp add: gf_of_xor gf_of_gfMul take_Suc_conv_app_nth peval_snoc algebra_simps)
qed simp

theorem evalPoly_field:
  "cs \<noteq> [] \<Longrightarrow> gf_of (evalPoly cs x) = peval (map gf_of cs) (gf_of x)"
proof -
  assume ne: "cs \<noteq> []"
  then have cs: "cs = take (length cs - 1) cs @ [cs ! (length cs - 1)]"
    by (metis append_butlast_last_id butlast_conv_take last_conv_nth)
  have "peval (map gf_of cs) (gf_of x) =
    peval (map gf_of (take (length cs - 1) cs)) (gf_of x)
      + gf_of (cs ! (length cs - 1)) * gf_of x ^ (length cs - 1)"
    by (subst cs) (simp add: peval_snoc)
  then show ?thesis by (simp add: evalPoly_def evalPoly_loop_field)
qed

section \<open>Recombination\<close>

lemma num_den_field:
  assumes "num_den xs i js num den = (n', d')"
  shows "gf_of n' = gf_of num * (\<Prod>j\<leftarrow>filter (\<lambda>j. j \<noteq> i) js. gf_of (xs ! j))
    \<and> gf_of d' = gf_of den * (\<Prod>j\<leftarrow>filter (\<lambda>j. j \<noteq> i) js. gf_of (xs ! i) + gf_of (xs ! j))"
  using assms
  by (induction xs i js num den rule: num_den.induct)
    (auto simp: gf_of_gfMul gf_of_xor mult.assoc split: if_splits)

lemma num_den_prod:
  assumes "num_den xs i [0..<n] 1 1 = (num, den)"
  shows "gf_of num = (\<Prod>j\<in>{..<n} - {i}. gf_of (xs ! j))"
    and "gf_of den = (\<Prod>j\<in>{..<n} - {i}. gf_of (xs ! i) - gf_of (xs ! j))"
proof -
  have d: "distinct (filter (\<lambda>j. j \<noteq> i) [0..<n])" by simp
  have "set (filter (\<lambda>j. j \<noteq> i) [0..<n]) = {..<n} - {i}" by auto
  then have "prod g ({..<n} - {i}) = prod_list (map g (filter (\<lambda>j. j \<noteq> i) [0..<n]))" for g :: "nat \<Rightarrow> gf"
    using prod.distinct_set_conv_list [OF d, of g] by (simp only:)
  then show "gf_of num = (\<Prod>j\<in>{..<n} - {i}. gf_of (xs ! j))"
    and "gf_of den = (\<Prod>j\<in>{..<n} - {i}. gf_of (xs ! i) - gf_of (xs ! j))"
    using num_den_field [OF assms] by (simp_all add: gf_minus flip: one_gf.abs_eq)
qed

text \<open>The sum the combination computes is Lagrange's formula at 0, whatever the y-values are.\<close>

lemma combine_byte_sum:
  assumes dist: "distinct xs" "length xs = n" "length shares = n"
    and "\<forall>i \<in> set is. i < n"
  shows "\<exists>b. combine_byte shares xs k is acc = Inr b \<and>
    gf_of b = gf_of acc + (\<Sum>i\<leftarrow>is. gf_of (shares ! i ! (k + 1)) *
      ((\<Prod>j\<in>{..<n} - {i}. gf_of (xs ! j)) / (\<Prod>j\<in>{..<n} - {i}. gf_of (xs ! i) - gf_of (xs ! j))))"
  using assms(4)
proof (induction "is" arbitrary: acc)
  case (Cons i "is")
  obtain num den where nd: "num_den xs i [0..<length shares] 1 1 = (num, den)" by fastforce
  note p = num_den_prod [OF nd [unfolded dist(3)]]
  have "gf_of den \<noteq> 0"
    unfolding p(2) using dist Cons.prems by (auto simp: nth_eq_iff_index_eq)
  then have "den \<noteq> 0" by simp
  then have q: "gfDiv num den = Inr (byte_of (gf_of num / gf_of den))" by (rule gfDiv_field)
  from Cons.IH [of "acc XOR gfMul (shares ! i ! (k + 1)) (byte_of (gf_of num / gf_of den))"] Cons.prems
  show ?case
    by (auto simp: nd q gf_of_xor gf_of_gfMul p add.assoc)
qed simp

theorem combine_byte_lagrange:
  assumes "distinct xs" "length xs = n" "length shares = n"
  shows "combine_byte shares xs k [0..<n] 0 =
    Inr (byte_of (lagrange n (\<lambda>i. gf_of (xs ! i)) (\<lambda>i. gf_of (shares ! i ! (k + 1))) 0))"
proof -
  obtain b where b: "combine_byte shares xs k [0..<n] 0 = Inr b"
    and s: "gf_of b = gf_of 0 + (\<Sum>i\<leftarrow>[0..<n]. gf_of (shares ! i ! (k + 1)) *
      ((\<Prod>j\<in>{..<n} - {i}. gf_of (xs ! j)) / (\<Prod>j\<in>{..<n} - {i}. gf_of (xs ! i) - gf_of (xs ! j))))"
    using combine_byte_sum [OF assms, of "[0..<n]" k 0] by auto
  from s have "gf_of b = lagrange n (\<lambda>i. gf_of (xs ! i)) (\<lambda>i. gf_of (shares ! i ! (k + 1))) 0"
    by (simp add: lagrange_def interv_sum_list_conv_sum_set_nat atLeast0LessThan flip: zero_gf.abs_eq)
  then have "b = byte_of (lagrange n (\<lambda>i. gf_of (xs ! i)) (\<lambda>i. gf_of (shares ! i ! (k + 1))) 0)"
    by (metis byte_of_gf_of)
  with b show ?thesis by simp
qed

definition shares_wf :: "nat \<Rightarrow> byte set \<Rightarrow> share list \<Rightarrow> bool" where
  "shares_wf m seen ss \<longleftrightarrow>
     (\<forall>s \<in> set ss. length s = m + 1 \<and> s ! 0 \<noteq> 0 \<and> s ! 0 \<notin> seen) \<and> distinct (map (\<lambda>s. s ! 0) ss)"

lemma check_shares_Inr:
  "check_shares m seen ss = Inr xs \<Longrightarrow> xs = map (\<lambda>s. s ! 0) ss \<and> shares_wf m seen ss"
  by (induction m seen ss arbitrary: xs rule: check_shares.induct)
    (auto simp: shares_wf_def split: sum.splits if_splits)

lemma check_shares_wf:
  "shares_wf m seen ss \<Longrightarrow> check_shares m seen ss = Inr (map (\<lambda>s. s ! 0) ss)"
proof (induction m seen ss rule: check_shares.induct)
  case (2 m seen s ss)
  have s: "length s = m + 1" "s ! 0 \<noteq> 0" "s ! 0 \<notin> seen"
    and ss: "shares_wf m (insert (s ! 0) seen) ss"
    using "2.prems" by (auto simp: shares_wf_def image_iff)
  then show ?case using "2.IH" by simp
qed simp

lemma combine_bytes_ok:
  "(\<And>k. k \<in> set ks \<Longrightarrow> combine_byte shares xs k [0..<length shares] 0 = Inr (f k)) \<Longrightarrow>
   combine_bytes shares xs ks = Inr (map f ks)"
  by (induction ks) auto

text \<open>\<open>Combine\<close> on well-formed shares: Lagrange's formula at 0, byte by byte.\<close>

theorem combine_lagrange:
  assumes wf: "shares_wf m {} shares" and n: "length shares = n" "2 \<le> n" and m: "0 < m"
  shows "combine shares = Inr (map (\<lambda>k. byte_of (lagrange n (\<lambda>i. gf_of (shares ! i ! 0))
    (\<lambda>i. gf_of (shares ! i ! (k + 1))) 0)) [0..<m])"
proof -
  let ?xs = "map (\<lambda>s. s ! 0) shares"
  have len: "length (shares ! 0) = m + 1"
    using wf n by (metis nth_mem shares_wf_def less_le_trans zero_less_numeral)
  have xs: "distinct ?xs" "length ?xs = n" using wf n by (auto simp: shares_wf_def)
  have "lagrange n (\<lambda>i. gf_of (?xs ! i)) y z = lagrange n (\<lambda>i. gf_of (shares ! i ! 0)) y z" for y z
    unfolding lagrange_def using n by (intro sum.cong prod.cong arg_cong2 [where f = "(*)"]
      arg_cong2 [where f = "(/)"] refl) auto
  then show ?thesis
    using combine_bytes_ok [of "[0..<m]" shares ?xs] combine_byte_lagrange [OF xs n(1)] n m
      check_shares_wf [OF wf] len
    by (simp add: combine_def)
qed

lemma check_shares_Inl:
  "check_shares m seen ss = Inl err \<Longrightarrow> err \<in> {ErrShareLengths, ErrShareZero, ErrShareDuplicate}"
  by (induction m seen ss rule: check_shares.induct) (auto split: if_splits sum.splits)

text \<open>The whole error behaviour of \<open>Combine\<close>: it never divides by zero.\<close>

theorem combine_total:
  "(\<exists>s. combine shares = Inr s \<and> int (length s) = int (length (shares ! 0)) - 1) \<or>
   (\<exists>err \<in> {ErrTooFewShares, ErrMalformedShare, ErrShareLengths, ErrShareZero, ErrShareDuplicate}.
      combine shares = Inl err)"
proof (cases "length shares < 2 \<or> int (length (shares ! 0)) - 1 \<le> 0")
  case False
  define m where "m = nat (int (length (shares ! 0)) - 1)"
  show ?thesis
  proof (cases "check_shares m {} shares")
    case (Inl err)
    then show ?thesis using False check_shares_Inl [OF Inl] by (auto simp: combine_def m_def Let_def)
  next
    case (Inr xs)
    then have "shares_wf m {} shares" by (simp add: check_shares_Inr)
    from combine_lagrange [OF this refl] False show ?thesis by (cases "shares ! 0") (simp_all add: m_def)
  qed
qed (auto simp: combine_def)

section \<open>What Split produces\<close>

text \<open>The coefficients the \<open>k\<close>-th secret byte draws, and the share of participant \<open>i\<close>.\<close>

definition coeffs_of :: "entropy \<Rightarrow> nat \<Rightarrow> nat \<Rightarrow> bytes" where
  "coeffs_of e t k = map (tape e (draws e + k)) [0..<t - 1]"

definition share_of :: "entropy \<Rightarrow> nat \<Rightarrow> bytes \<Rightarrow> nat \<Rightarrow> share" where
  "share_of e t secret i = of_nat (i + 1) #
     map (\<lambda>k. evalPoly (secret ! k # coeffs_of e t k) (of_nat (i + 1))) [0..<length secret]"

lemma length_coeffs_of [simp]: "length (coeffs_of e t k) = t - 1"
  by (simp add: coeffs_of_def)

lemma split_loop_ok:
  "(\<forall>k<length ss. \<not> broken e (draws e + k)) \<Longrightarrow> (\<forall>i<n. length (out ! i) = idx + 1 + length ss) \<Longrightarrow>
   length out = n \<Longrightarrow>
   split_loop n t ss idx out e =
     (Inr (map (\<lambda>i. take (idx + 1) (out ! i) @
        map (\<lambda>k. evalPoly (ss ! k # coeffs_of e t k) (of_nat (i + 1))) [0..<length ss]) [0..<n]),
      e\<lparr>draws := draws e + length ss\<rparr>)"
proof (induction ss arbitrary: idx out e)
  case Nil
  then show ?case by (auto intro!: nth_equalityI)
next
  case (Cons s ss)
  let ?c = "s # coeffs_of e t 0"
  let ?out = "map (\<lambda>i. (out ! i)[idx + 1 := evalPoly ?c (of_nat (i + 1))]) [0..<n]"
  let ?e = "e\<lparr>draws := Suc (draws e)\<rparr>"
  have ok: "\<forall>k<length ss. \<not> broken ?e (draws ?e + k)"
  proof (intro allI impI)
    fix k assume "k < length ss"
    then show "\<not> broken ?e (draws ?e + k)" using Cons.prems(1) [rule_format, of "Suc k"] by simp
  qed
  have rd: "rand_read (t - 1) e = (Inr (coeffs_of e t 0), ?e)"
    using Cons.prems(1) by (force simp: rand_read_def coeffs_of_def)
  have shift: "coeffs_of ?e t k = coeffs_of e t (Suc k)" for k by (simp add: coeffs_of_def)
  have "split_loop n t (s # ss) idx out e = split_loop n t ss (idx + 1) ?out ?e"
    unfolding split_loop.simps rd by (simp add: Let_def)
  also have "\<dots> = (Inr (map (\<lambda>i. take (idx + 2) (?out ! i) @
      map (\<lambda>k. evalPoly (ss ! k # coeffs_of e t (Suc k)) (of_nat (i + 1))) [0..<length ss]) [0..<n]),
      e\<lparr>draws := draws e + length (s # ss)\<rparr>)"
    using Cons.IH [OF ok, of ?out "idx + 1"] Cons.prems(2) by (simp add: shift)
  also have "map (\<lambda>i. take (idx + 2) (?out ! i) @
      map (\<lambda>k. evalPoly (ss ! k # coeffs_of e t (Suc k)) (of_nat (i + 1))) [0..<length ss]) [0..<n] =
    map (\<lambda>i. take (idx + 1) (out ! i) @
        map (\<lambda>k. evalPoly ((s # ss) ! k # coeffs_of e t k) (of_nat (i + 1))) [0..<length (s # ss)]) [0..<n]"
  proof (intro map_cong refl)
    fix i assume "i \<in> set [0..<n]"
    then have i: "i < n" by simp
    then have "?out ! i = (out ! i)[idx + 1 := evalPoly ?c (of_nat (i + 1))]" by simp
    then show "take (idx + 2) (?out ! i) @
        map (\<lambda>k. evalPoly (ss ! k # coeffs_of e t (Suc k)) (of_nat (i + 1))) [0..<length ss] =
      take (idx + 1) (out ! i) @
        map (\<lambda>k. evalPoly ((s # ss) ! k # coeffs_of e t k) (of_nat (i + 1))) [0..<length (s # ss)]"
      using Cons.prems(2) i
      by (simp add: take_Suc_conv_app_nth upt_conv_Cons map_Suc_upt [symmetric] comp_def
          del: upt_Suc map_Suc_upt)
  qed
  finally show ?case .
qed

lemma split_loop_broken:
  "j < length ss \<Longrightarrow> broken e (draws e + j) \<Longrightarrow> (\<forall>k<j. \<not> broken e (draws e + k)) \<Longrightarrow>
   split_loop n t ss idx out e = (Inl ErrRand, e\<lparr>draws := draws e + j + 1\<rparr>)"
proof (induction ss arbitrary: idx out e j)
  case (Cons s ss)
  show ?case
  proof (cases j)
    case 0
    then show ?thesis using Cons.prems by (simp add: rand_read_def)
  next
    case (Suc i)
    let ?e = "e\<lparr>draws := Suc (draws e)\<rparr>"
    have "\<not> broken e (draws e)" using Cons.prems(3) Suc by force
    moreover have "\<forall>k<i. \<not> broken e (Suc (draws e) + k)"
      using Cons.prems(3) Suc by (metis Suc_less_eq add_Suc_shift)
    ultimately show ?thesis
      using Cons.IH [of i ?e] Cons.prems Suc by (simp add: rand_read_def Let_def)
  qed
qed simp

definition split_valid :: "bytes \<Rightarrow> int \<Rightarrow> int \<Rightarrow> bool" where
  "split_valid secret shares threshold \<longleftrightarrow>
     2 \<le> threshold \<and> threshold \<le> shares \<and> shares \<le> 255 \<and> secret \<noteq> []"

theorem split_shares:
  assumes "split_valid secret n t" "\<forall>k<length secret. \<not> broken e (draws e + k)"
  shows "split_secret secret n t e =
    (Inr (map (share_of e (nat t) secret) [0..<nat n]), e\<lparr>draws := draws e + length secret\<rparr>)"
proof -
  let ?out = "map (\<lambda>i. of_nat (i + 1) # replicate (length secret) 0) [0..<nat n]"
  have "split_loop (nat n) (nat t) secret 0 ?out e =
    (Inr (map (\<lambda>i. take 1 (?out ! i) @ map (\<lambda>k. evalPoly (secret ! k # coeffs_of e (nat t) k)
        (of_nat (i + 1))) [0..<length secret]) [0..<nat n]), e\<lparr>draws := draws e + length secret\<rparr>)"
    using split_loop_ok [OF assms(2), of "nat n" ?out 0 "nat t"] by simp
  also have "map (\<lambda>i. take 1 (?out ! i) @ map (\<lambda>k. evalPoly (secret ! k # coeffs_of e (nat t) k)
        (of_nat (i + 1))) [0..<length secret]) [0..<nat n] = map (share_of e (nat t) secret) [0..<nat n]"
    by (simp add: share_of_def)
  finally show ?thesis
    using assms(1) by (simp add: split_secret_def split_valid_def Let_def)
qed

lemma split_Inr:
  assumes "split_secret secret n t e = (Inr out, e')"
  shows "split_valid secret n t" "out = map (share_of e (nat t) secret) [0..<nat n]"
    "e' = e\<lparr>draws := draws e + length secret\<rparr>"
    "\<forall>k<length secret. \<not> broken e (draws e + k)"
proof -
  show v: "split_valid secret n t"
    using assms by (auto simp: split_secret_def split_valid_def split: if_splits)
  show nb: "\<forall>k<length secret. \<not> broken e (draws e + k)"
  proof (rule ccontr)
    assume "\<not> ?thesis"
    then have "\<exists>k. k < length secret \<and> broken e (draws e + k)" by blast
    then obtain j where "j < length secret" "broken e (draws e + j)"
      "\<forall>k<j. \<not> broken e (draws e + k)"
      using exists_least_iff [of "\<lambda>k. k < length secret \<and> broken e (draws e + k)"]
      by (meson less_trans)
    from split_loop_broken [OF this] v assms show False
      by (auto simp: split_secret_def split_valid_def Let_def)
  qed
  from split_shares [OF v nb] assms
  show "out = map (share_of e (nat t) secret) [0..<nat n]" "e' = e\<lparr>draws := draws e + length secret\<rparr>"
    by auto
qed

section \<open>The interface of a secret-sharing scheme\<close>

text \<open>
  What the node code relies on when it deals shares and later recombines some of them:
  \<open>count\<close> and \<open>distinct\<close> describe a deal, \<open>recover\<close> is the threshold property. The lemmas
  below are proved from these laws alone.
\<close>

locale secret_sharing =
  fixes deal :: "bytes \<Rightarrow> int \<Rightarrow> int \<Rightarrow> entropy \<Rightarrow> share list res \<times> entropy"
    and recombine :: "share list \<Rightarrow> bytes res"
  assumes count: "deal secret n t e = (Inr out, e') \<Longrightarrow> length out = nat n"
    and distinct_shares: "deal secret n t e = (Inr out, e') \<Longrightarrow> distinct out"
    and recover: "deal secret n t e = (Inr out, e') \<Longrightarrow> distinct picks \<Longrightarrow>
      set picks \<subseteq> {..<length out} \<Longrightarrow> nat t \<le> length picks \<Longrightarrow>
      recombine (map (\<lambda>i. out ! i) picks) = Inr secret"
    and no_repeats: "recombine picks' = Inr x \<Longrightarrow> distinct picks'"
begin

lemma recover_set:
  assumes "deal secret n t e = (Inr out, e')" "distinct ss" "set ss \<subseteq> set out" "nat t \<le> length ss"
  shows "recombine ss = Inr secret"
proof -
  have "\<forall>s \<in> set ss. \<exists>i<length out. out ! i = s"
    using assms(3) by (meson in_set_conv_nth subsetD)
  then obtain f where f: "\<And>s. s \<in> set ss \<Longrightarrow> f s < length out \<and> out ! f s = s" by metis
  then have "inj_on f (set ss)" by (metis inj_onI)
  then have "distinct (map f ss)" using assms(2) by (simp add: distinct_map)
  moreover have "set (map f ss) \<subseteq> {..<length out}" using f by auto
  ultimately have "recombine (map (\<lambda>i. out ! i) (map f ss)) = Inr secret"
    by (rule recover [OF assms(1)]) (simp add: assms(4))
  moreover have "map (\<lambda>i. out ! i) (map f ss) = ss" using f by (simp add: map_idI)
  ultimately show ?thesis by simp
qed

lemma recover_or_refuse:
  assumes "deal secret n t e = (Inr out, e')" "set ss \<subseteq> set out" "nat t \<le> length ss"
  shows "recombine ss = Inr secret \<or> (\<exists>err. recombine ss = Inl err)"
  using recover_set [OF assms(1) _ assms(2,3)] no_repeats by (cases "recombine ss") auto

lemma recover_all:
  assumes "deal secret n t e = (Inr out, e')" "t \<le> n" shows "recombine out = Inr secret"
  using assms distinct_shares [OF assms(1)] count [OF assms(1)] by (intro recover_set) auto

end

section \<open>The threshold property\<close>

lemma of_nat_byte_eq: "i < 255 \<Longrightarrow> j < 255 \<Longrightarrow> (of_nat i :: byte) = of_nat j \<longleftrightarrow> i = j"
  by (metis unat_of_nat_byte)

lemma of_nat_byte_nonzero: "i < 255 \<Longrightarrow> (1 + of_nat i :: byte) \<noteq> 0"
proof
  assume "i < 255" "(1 + of_nat i :: byte) = 0"
  then have "unat (of_nat (Suc i) :: byte) = 0" by simp
  then show False using \<open>i < 255\<close> by (simp only: unat_of_nat) simp
qed

lemma share_of_simps [simp]:
  "share_of e t secret i ! 0 = 1 + of_nat i"
  "length (share_of e t secret i) = length secret + 1"
  "k < length secret \<Longrightarrow>
     share_of e t secret i ! Suc k = evalPoly (secret ! k # coeffs_of e t k) (1 + of_nat i)"
  by (simp_all add: share_of_def)

lemma share_of_eq_iff:
  "i < 255 \<Longrightarrow> j < 255 \<Longrightarrow> share_of e t secret i = share_of e t secret j \<longleftrightarrow> i = j"
  by (metis add_left_cancel of_nat_byte_eq share_of_simps(1))

lemma picks_shares:
  assumes "split_secret secret n t e = (Inr out, e')" "set picks \<subseteq> {..<nat n}"
  shows "map (\<lambda>i. out ! i) picks = map (share_of e (nat t) secret) picks" "set picks \<subseteq> {..<255}"
  using assms(2) split_Inr [OF assms(1)] by (auto simp: split_valid_def)

lemma picks_wf:
  assumes "distinct picks" "set picks \<subseteq> {..<255}"
  shows "shares_wf (length secret) {} (map (share_of e t secret) picks)"
  using assms
  by (auto simp: shares_wf_def distinct_map inj_on_def subset_iff of_nat_byte_eq of_nat_byte_nonzero)

lemma picks_inj:
  assumes "distinct picks" "set picks \<subseteq> {..<255}"
  shows "inj_on (\<lambda>i. gf_of (1 + of_nat (picks ! i))) {..<length picks}"
proof (rule inj_onI)
  fix i j assume ij: "i \<in> {..<length picks}" "j \<in> {..<length picks}"
    "gf_of (1 + of_nat (picks ! i)) = gf_of (1 + of_nat (picks ! j))"
  then have "picks ! i < 255" "picks ! j < 255" using assms(2) nth_mem by fastforce+
  then show "i = j" using ij assms(1) by (simp add: of_nat_byte_eq nth_eq_iff_index_eq)
qed

lemma combine_picks:
  assumes "distinct picks" "set picks \<subseteq> {..<255}" "2 \<le> length picks" "secret \<noteq> []"
  shows "combine (map (share_of e t secret) picks) =
    Inr (map (\<lambda>k. byte_of (lagrange (length picks) (\<lambda>i. gf_of (1 + of_nat (picks ! i)))
      (\<lambda>i. peval (map gf_of (secret ! k # coeffs_of e t k)) (gf_of (1 + of_nat (picks ! i)))) 0))
      [0..<length secret])"
proof -
  have "lagrange (length picks) (\<lambda>i. gf_of (map (share_of e t secret) picks ! i ! 0))
      (\<lambda>i. gf_of (map (share_of e t secret) picks ! i ! (k + 1))) 0 =
    lagrange (length picks) (\<lambda>i. gf_of (1 + of_nat (picks ! i)))
      (\<lambda>i. peval (map gf_of (secret ! k # coeffs_of e t k)) (gf_of (1 + of_nat (picks ! i)))) 0"
    if "k < length secret" for k
    unfolding lagrange_def using that
    by (intro sum.cong arg_cong2 [where f = "(*)"] arg_cong2 [where f = "(/)"] prod.cong refl)
      (simp_all flip: evalPoly_field add: evalPoly_field)
  then show ?thesis
    using combine_lagrange [OF picks_wf [OF assms(1,2), of secret e t] refl] assms(3,4)
    by simp
qed

theorem combine_split:
  assumes "split_secret secret n t e = (Inr out, e')"
    and "distinct picks" "set picks \<subseteq> {..<nat n}" "nat t \<le> length picks"
  shows "combine (map (\<lambda>i. out ! i) picks) = Inr secret"
proof -
  have v: "split_valid secret n t" by (rule split_Inr [OF assms(1)])
  then have s: "secret \<noteq> []" "2 \<le> length picks" using assms(4) by (auto simp: split_valid_def)
  note p = picks_shares [OF assms(1,3)]
  have "lagrange (length picks) (\<lambda>i. gf_of (1 + of_nat (picks ! i)))
      (\<lambda>i. peval (map gf_of (secret ! k # coeffs_of e (nat t) k)) (gf_of (1 + of_nat (picks ! i)))) 0 =
      gf_of (secret ! k)" for k
    using lagrange_peval [OF picks_inj [OF assms(2) p(2)],
        of "map gf_of (secret ! k # coeffs_of e (nat t) k)"] assms(4) v
    by (simp add: split_valid_def)
  then show ?thesis
    unfolding p(1) combine_picks [OF assms(2) p(2) s(2,1)] by (simp add: map_nth)
qed

lemma combine_distinct: "combine ss = Inr x \<Longrightarrow> distinct ss"
proof -
  assume "combine ss = Inr x"
  then obtain xs where "check_shares (nat (int (length (ss ! 0)) - 1)) {} ss = Inr xs"
    by (auto simp: combine_def Let_def split: if_splits sum.splits)
  then have "shares_wf (nat (int (length (ss ! 0)) - 1)) {} ss" by (simp add: check_shares_Inr)
  then show ?thesis by (auto simp: shares_wf_def distinct_map)
qed

interpretation shamir: secret_sharing split_secret combine
proof
  show "combine picks' = Inr x \<Longrightarrow> distinct picks'" for picks' x by (rule combine_distinct)
next
  fix secret n t e out e' picks
  assume d: "split_secret secret n t e = (Inr out, e')"
  note out = split_Inr [OF d]
  show "length out = nat n" using out by simp
  show "distinct out" using out
    by (auto simp: distinct_map inj_on_def share_of_eq_iff split_valid_def)
  assume "distinct picks" "set picks \<subseteq> {..<length out}" "nat t \<le> length picks"
  then show "combine (map (\<lambda>i. out ! i) picks) = Inr secret"
    using out by (intro combine_split [OF d]) auto
qed

section \<open>Secrecy below the threshold\<close>

definition eval_at :: "byte \<Rightarrow> bytes \<Rightarrow> bytes \<Rightarrow> bytes" where
  "eval_at s xs rs = map (evalPoly (s # rs)) xs"

lemma eval_at_inj:
  assumes "distinct xs" "0 \<notin> set xs"
  shows "inj_on (eval_at s xs) {rs. length rs = length xs}"
proof (rule inj_onI)
  fix rs rs'
  assume rs: "rs \<in> {rs. length rs = length xs}" "rs' \<in> {rs. length rs = length xs}"
    and eq: "eval_at s xs rs = eval_at s xs rs'"
  have "map gf_of (s # rs) = map gf_of (s # rs')"
  proof (rule peval_unique)
    show "distinct (0 # map gf_of xs)" using assms by (auto simp: distinct_map inj_on_def)
    have "peval (map gf_of (s # rs)) (gf_of x) = peval (map gf_of (s # rs')) (gf_of x)"
      if "x \<in> set xs" for x
    proof -
      have "evalPoly (s # rs) x = evalPoly (s # rs') x" using eq that by (simp add: eval_at_def)
      moreover have "gf_of (evalPoly (s # rs) x) = peval (map gf_of (s # rs)) (gf_of x)"
        "gf_of (evalPoly (s # rs') x) = peval (map gf_of (s # rs')) (gf_of x)"
        by (rule evalPoly_field, simp)+
      ultimately show ?thesis by metis
    qed
    then show "\<forall>x \<in> set (0 # map gf_of xs). peval (map gf_of (s # rs)) x = peval (map gf_of (s # rs')) x"
      by simp
  qed (use rs in simp_all)
  then show "rs = rs'" by (simp add: inj_map_eq_map inj_on_def)
qed

text \<open>
  Counting: the coefficient vectors and the value vectors are equally many, so every vector of
  observed values comes from exactly one choice of coefficients, whatever the secret byte is.
\<close>

lemma eval_at_bij:
  assumes "distinct xs" "0 \<notin> set xs"
  shows "eval_at s xs ` {rs. length rs = length xs} = {ys. length ys = length xs}"
proof -
  let ?A = "{rs :: bytes. length rs = length xs}"
  have "finite ?A" using finite_lists_length_eq [of "UNIV :: byte set" "length xs"] by simp
  moreover have "eval_at s xs ` ?A \<subseteq> ?A" by (auto simp: eval_at_def)
  ultimately show ?thesis using eval_at_inj [OF assms] by (rule endo_inj_surj)
qed

lemma evalPoly_explains:
  assumes "distinct xs" "0 \<notin> set xs" "length ys = length xs"
  shows "\<exists>!rs. length rs = length xs \<and> map (evalPoly (s # rs)) xs = ys"
proof -
  have "ys \<in> eval_at s xs ` {rs. length rs = length xs}"
    using eval_at_bij [OF assms(1,2)] assms(3) by blast
  then show ?thesis
    using eval_at_inj [OF assms(1,2), of s] by (auto simp: eval_at_def inj_on_def)
qed

lemma split_secret_secrecy:
  assumes split: "split_secret secret n t e = (Inr out, e')"
    and picks: "distinct picks" "set picks \<subseteq> {..<nat n}" "length picks = nat t - 1"
    and len: "length secret' = length secret"
  obtains tp out' e'' where "split_secret secret' n t (e\<lparr>tape := tp\<rparr>) = (Inr out', e'')"
    "map (\<lambda>i. out' ! i) picks = map (\<lambda>i. out ! i) picks"
proof -
  let ?xs = "map (\<lambda>i. 1 + of_nat i :: byte) picks"
  note p = picks_shares [OF split picks(2)]
  have xs: "distinct ?xs" "0 \<notin> set ?xs"
    using picks(1) p(2)
    by (auto simp: distinct_map inj_on_def subset_iff of_nat_byte_eq of_nat_byte_nonzero dest!: sym [of 0])
  have "\<exists>rs. length rs = nat t - 1 \<and>
      map (evalPoly (secret' ! k # rs)) ?xs = map (evalPoly (secret ! k # coeffs_of e (nat t) k)) ?xs"
    for k
    using evalPoly_explains [OF xs, of _ "secret' ! k"] picks(3) by (metis length_map)
  then obtain f where f: "\<And>k. length (f k) = nat t - 1"
    "\<And>k. map (evalPoly (secret' ! k # f k)) ?xs =
       map (evalPoly (secret ! k # coeffs_of e (nat t) k)) ?xs" by metis
  let ?e = "e\<lparr>tape := \<lambda>d j. f (d - draws e) ! j\<rparr>"
  have c: "coeffs_of ?e (nat t) k = f k" for k
    by (rule nth_equalityI) (simp_all add: f(1) coeffs_of_def)
  have v: "split_valid secret n t" by (rule split_Inr [OF split])
  then have v': "split_valid secret' n t" using len by (auto simp: split_valid_def)
  have nb: "\<forall>k<length secret'. \<not> broken ?e (draws ?e + k)"
    using split_Inr(4) [OF split] len by simp
  have "share_of ?e (nat t) secret' i = share_of e (nat t) secret i" if "i \<in> set picks" for i
    using f(2) that len by (auto simp: share_of_def c)
  then have "map (share_of ?e (nat t) secret') picks = map (share_of e (nat t) secret) picks" by simp
  moreover have "split_secret secret' n t ?e =
    (Inr (map (share_of ?e (nat t) secret') [0..<nat n]), ?e\<lparr>draws := draws ?e + length secret'\<rparr>)"
    by (rule split_shares [OF v' nb])
  ultimately show ?thesis using that p(1) picks_shares(1) [OF _ picks(2)] by metis
qed

section \<open>One share too few\<close>

lemma combine_short:
  assumes "split_secret secret n t e = (Inr out, e')"
    and "distinct picks" "set picks \<subseteq> {..<nat n}" "length picks = nat t - 1" "3 \<le> t"
  shows "\<exists>got. combine (map (\<lambda>i. out ! i) picks) = Inr got \<and>
    (got = secret \<longleftrightarrow> (\<forall>k<length secret. last (coeffs_of e (nat t) k) = 0))"
proof -
  have v: "split_valid secret n t" by (rule split_Inr [OF assms(1)])
  then have s: "secret \<noteq> []" "2 \<le> length picks" using assms(4,5) by (auto simp: split_valid_def)
  note p = picks_shares [OF assms(1,3)]
  let ?x = "\<lambda>i. gf_of (1 + of_nat (picks ! i))"
  let ?n = "length picks"
  let ?L = "\<lambda>k. lagrange ?n ?x
      (\<lambda>i. peval (map gf_of (secret ! k # coeffs_of e (nat t) k)) (?x i)) 0"
  have L: "gf_of (secret ! k) = ?L k + gf_of (last (coeffs_of e (nat t) k)) * (\<Prod>j<?n. ?x j)" for k
  proof -
    let ?c = "secret ! k # coeffs_of e (nat t) k"
    have "length (coeffs_of e (nat t) k) \<noteq> 0" using s(2) assms(4) by simp
    then have "coeffs_of e (nat t) k \<noteq> []" by (metis list.size(3))
    then have "last ?c = last (coeffs_of e (nat t) k)" by simp
    moreover have "butlast ?c @ [last ?c] = ?c" by (rule append_butlast_last_id) simp
    ultimately have c: "map gf_of ?c = map gf_of (butlast ?c) @ [gf_of (last (coeffs_of e (nat t) k))]"
      by (metis map_append list.simps(8,9))
    have "length (map gf_of (butlast ?c)) = ?n"
      by (simp only: length_map length_butlast list.size(4) length_coeffs_of assms(4) add_diff_cancel_right')
    then have "peval (map gf_of (butlast ?c) @ [gf_of (last (coeffs_of e (nat t) k))]) 0 =
        ?L k + gf_of (last (coeffs_of e (nat t) k)) * (\<Prod>j<?n. 0 - ?x j)"
      by (rule lagrange_short [OF picks_inj [OF assms(2) p(2)]]) (simp only: c)
    then have "peval (map gf_of ?c) 0 =
        ?L k + gf_of (last (coeffs_of e (nat t) k)) * (\<Prod>j<?n. 0 - ?x j)"
      by (simp only: c)
    moreover have "peval (map gf_of ?c) 0 = gf_of (secret ! k)" by simp
    moreover have "0 - x = x" for x :: gf by simp
    ultimately show ?thesis by (simp only:)
  qed
  have prod: "(\<Prod>j<?n. ?x j) \<noteq> 0"
    using p(2) by (auto simp: of_nat_byte_nonzero subset_iff)
  have byte: "byte_of (?L k) = secret ! k \<longleftrightarrow> last (coeffs_of e (nat t) k) = 0" for k
  proof -
    have "byte_of l = s \<longleftrightarrow> c = 0" if "gf_of s = l + gf_of c * p" "p \<noteq> 0" for l p s c
      using that by (metis add_cancel_left_right byte_of_gf_of gf_of_byte_of gf_of_eq_0 mult_eq_0_iff)
    from this [OF L prod] show ?thesis .
  qed
  have got_iff: "map (\<lambda>k. byte_of (?L k)) [0..<length secret] = secret \<longleftrightarrow>
      (\<forall>k<length secret. last (coeffs_of e (nat t) k) = 0)"
  proof -
    have "map f [0..<length s] = s \<longleftrightarrow> (\<forall>k<length s. c k = 0)"
      if "\<And>k. f k = s ! k \<longleftrightarrow> c k = 0" for f :: "nat \<Rightarrow> byte" and c :: "nat \<Rightarrow> byte" and s
      unfolding list_eq_iff_nth_eq [of "map f [0..<length s]" s] using that by simp
    from this [of "\<lambda>k. byte_of (?L k)", OF byte] show ?thesis .
  qed
  show ?thesis
    unfolding p(1) combine_picks [OF assms(2) p(2) s(2,1)]
    by (rule exI, rule conjI [OF refl]) (rule got_iff)
qed

section \<open>Properties\<close>

text \<open>C22: Any selection of at least \<open>threshold\<close> distinct shares of a successful \<open>Split\<close>, in any
  order, is recombined by \<open>Combine\<close> to exactly the secret.\<close>

theorem shamir_any_threshold:
  assumes "split_secret secret shares threshold e = (Inr out, e')"
    and "distinct picks" "set picks \<subseteq> {..<nat shares}" "nat threshold \<le> length picks"
  shows "combine (map (\<lambda>i. out ! i) picks) = Inr secret"
  by (rule combine_split [OF assms])

definition entropy7 :: entropy where
  "entropy7 = \<lparr>tape = \<lambda>_ _. 7, broken = \<lambda>_. False, draws = 0\<rparr>"

lemma split_example:
  "split_secret [97] 3 2 entropy7 = (Inr [[1, 102], [2, 111], [3, 104]], entropy7\<lparr>draws := 1\<rparr>)"
proof -
  have mul: "gfMulSlow 7 1 = 7" "gfMulSlow 7 2 = 14" "gfMulSlow 7 3 = 9"
    by (simp_all add: gfMulSlow_eval)
  have upt: "[0..<3 :: nat] = [0, 1, 2]" by (simp add: upt_rec)
  show ?thesis
    by (simp add: split_secret_def entropy7_def rand_read_def evalPoly_def gfMul_slow mul upt)
qed

theorem shamir_any_threshold_witness:
  "combine (map (\<lambda>i. [[1, 102], [2, 111], [3, 104]] ! i) [2, 0]) = Inr [97]"
  by (rule shamir_any_threshold [OF split_example]) auto

text \<open>C23: Information-theoretic secrecy: for every other secret of the same length there is a
  random tape with which \<open>Split\<close> deals the very same shares to any \<open>threshold - 1\<close> chosen
  participants, so their shares exclude no secret.\<close>

theorem shamir_secrecy:
  assumes "split_secret secret shares threshold e = (Inr out, e')"
    and "distinct picks" "set picks \<subseteq> {..<nat shares}" "length picks = nat threshold - 1"
    and "length other = length secret"
  shows "\<exists>tp out' e''. split_secret other shares threshold (e\<lparr>tape := tp\<rparr>) = (Inr out', e'')
    \<and> map (\<lambda>i. out' ! i) picks = map (\<lambda>i. out ! i) picks"
  by (rule split_secret_secrecy [OF assms]) blast

theorem shamir_secrecy_witness:
  "\<exists>tp out' e''. split_secret [5] 3 2 (entropy7\<lparr>tape := tp\<rparr>) = (Inr out', e'')
    \<and> map (\<lambda>i. out' ! i) [2] = map (\<lambda>i. [[1, 102], [2, 111], [3, 104]] ! i) [2]"
  by (rule shamir_secrecy [OF split_example]) auto

text \<open>\<open>Combine\<close> never panics: on any list of byte strings it returns a secret one byte shorter
  than the first share, or one of its five documented errors.\<close>

theorem combine_never_panics:
  "(\<exists>s. combine shares = Inr s \<and> int (length s) = int (length (shares ! 0)) - 1) \<or>
   (\<exists>err \<in> {ErrTooFewShares, ErrMalformedShare, ErrShareLengths, ErrShareZero, ErrShareDuplicate}.
      combine shares = Inl err)"
  by (rule combine_total)

text \<open>\<open>Split\<close> succeeds exactly when its parameters are valid and no read of randomness fails;
  it then returns \<open>shares\<close> shares, one byte longer than the secret, numbered from 1.\<close>

theorem split_succeeds_iff:
  "(\<exists>out e'. split_secret secret shares threshold e = (Inr out, e') \<and> length out = nat shares
      \<and> list_all2 (\<lambda>i s. length s = length secret + 1 \<and> s ! 0 = of_nat (i + 1)) [0..<nat shares] out)
   \<longleftrightarrow> 2 \<le> threshold \<and> threshold \<le> shares \<and> shares \<le> 255 \<and> secret \<noteq> []
      \<and> list_all (\<lambda>k. \<not> broken e (draws e + k)) [0..<length secret]"
proof
  assume "\<exists>out e'. split_secret secret shares threshold e = (Inr out, e') \<and> length out = nat shares
      \<and> list_all2 (\<lambda>i s. length s = length secret + 1 \<and> s ! 0 = of_nat (i + 1)) [0..<nat shares] out"
  then show "2 \<le> threshold \<and> threshold \<le> shares \<and> shares \<le> 255 \<and> secret \<noteq> []
      \<and> list_all (\<lambda>k. \<not> broken e (draws e + k)) [0..<length secret]"
    using split_Inr [of secret shares threshold e] by (auto simp: split_valid_def list_all_iff)
next
  assume "2 \<le> threshold \<and> threshold \<le> shares \<and> shares \<le> 255 \<and> secret \<noteq> []
      \<and> list_all (\<lambda>k. \<not> broken e (draws e + k)) [0..<length secret]"
  then show "\<exists>out e'. split_secret secret shares threshold e = (Inr out, e') \<and> length out = nat shares
      \<and> list_all2 (\<lambda>i s. length s = length secret + 1 \<and> s ! 0 = of_nat (i + 1)) [0..<nat shares] out"
    using split_shares [of secret shares threshold e]
    by (auto simp: split_valid_def list_all_iff list_all2_conv_all_nth)
qed

end
