(* ===== verification/Sharing.thy ===== *)
theory Sharing
  imports Mutation Shamir
begin

text \<open>
  Splitting, backing up and reconstructing secrets across nodes: \<open>client/split.go\<close>,
  \<open>client/backup.go\<close> and \<open>client/reconstruct.go\<close>.
\<close>

section \<open>Finding peers\<close>

fun find_reachable :: "string \<Rightarrow> int \<Rightarrow> node_info list \<Rightarrow> node_info list \<Rightarrow> node_info list act" where
  "find_reachable self need [] reachable = ret (Inr reachable)"
| "find_reachable self need (nd # nds) reachable =
     (if ni_node nd = self then find_reachable self need nds reachable
      else attempt (ping (ni_endpoint nd)) (\<lambda>r. case r of
        Inl _ \<Rightarrow> find_reachable self need nds reachable
      | Inr _ \<Rightarrow>
          if int (length (reachable @ [nd])) = need then ret (Inr (reachable @ [nd]))
          else find_reachable self need nds (reachable @ [nd])))"

definition reachable_peers :: "nat \<Rightarrow> int \<Rightarrow> node_info list act" where
  "reachable_peers i need = with_node i (\<lambda>n.
     bindr list_nodes (\<lambda>nodes.
     bindr (find_reachable (n_id n) need nodes []) (\<lambda>reachable.
     ret (if int (length reachable) < need then Inl ErrPeersReachable else Inr reachable))))"

section \<open>Handing out shares\<close>

record holder =
  h_node :: string
  h_endpoint :: string
  h_pid :: string

definition member_of_holder :: "holder \<Rightarrow> member" where
  "member_of_holder h = \<lparr>m_pid = h_pid h, m_node = h_node h, m_endpoint = h_endpoint h\<rparr>"

text \<open>What the shares of one split have in common.\<close>

record split_group =
  g_id :: string
  g_token :: string
  g_threshold :: int
  g_total :: int
  g_members :: "member list"

fun draw_holders :: "nat \<Rightarrow> (string \<times> string) list \<Rightarrow> holder list act" where
  "draw_holders i [] = ret (Inr [])"
| "draw_holders i ((nid, ep) # ps) =
     bindr (on_rand i (random_id 16)) (\<lambda>pid.
     bindr (draw_holders i ps) (\<lambda>hs.
     ret (Inr (\<lparr>h_node = nid, h_endpoint = ep, h_pid = pid\<rparr> # hs))))"

definition keep_share :: "packages \<Rightarrow> nat \<Rightarrow> split_group \<Rightarrow> holder \<Rightarrow> bytes \<Rightarrow> unit act" where
  "keep_share X i g h share =
     bindr (on_rand i (random_id 16)) (\<lambda>salt.
     with_node i (\<lambda>n.
     bindr (ret (derive_fragment_root X (n_root n) (bytes_of salt))) (\<lambda>key.
     bindr (on_rand i (encrypt key share (share_aad (g_id g) (h_pid h)))) (\<lambda>ciphertext.
     bindr (on_rand i (random_id 8)) (\<lambda>chainID.
     bindr (register_new_fragment i (h_pid h) chainID) (\<lambda>_.
     on_db_rand i (put_fragment
       \<lparr>f_pid = h_pid h, f_group = g_id g, f_token = g_token g, f_chain = chainID, f_epoch = 0,
        f_threshold = g_threshold g, f_total = g_total g, f_key = key, f_ciphertext = ciphertext,
        f_members = g_members g, f_updated = 0\<rparr>)))))))"

definition send_share :: "nat \<Rightarrow> split_group \<Rightarrow> holder \<Rightarrow> bytes \<Rightarrow> unit act" where
  "send_share i g h share =
     bindr (on_rand i (rand_read KeySize)) (\<lambda>key.
     bindr (on_rand i (encrypt key share (share_aad (g_id g) (h_pid h)))) (\<lambda>ciphertext.
     deliver_share (h_endpoint h)
       \<lparr>dr_group = g_id g, dr_token = g_token g, dr_pid = h_pid h, dr_epoch = 0,
        dr_threshold = g_threshold g, dr_total = g_total g, dr_key = key, dr_ciphertext = ciphertext,
        dr_members = map peer_of_member (g_members g)\<rparr>))"

definition send_shares :: "nat \<Rightarrow> split_group \<Rightarrow> (holder \<times> bytes) list \<Rightarrow> unit act" where
  "send_shares i g = for_each (\<lambda>(h, share). send_share i g h share)"

definition manifest_of_group :: "string \<Rightarrow> string \<Rightarrow> split_group \<Rightarrow> manifest" where
  "manifest_of_group name kind g =
     \<lparr>mf_name = name, mf_kind = kind, mf_group = g_id g, mf_token = g_token g,
      mf_threshold = g_threshold g, mf_total = g_total g, mf_members = g_members g, mf_created = 0\<rparr>"

section \<open>Split and Backup\<close>

definition split_op :: "packages \<Rightarrow> nat \<Rightarrow> string \<Rightarrow> bytes \<Rightarrow> int \<Rightarrow> int \<Rightarrow> unit act" where
  "split_op X i secretName data threshold tot =
     (if tot < 2 then ret (Inl ErrTotal)
      else
        bindr (reachable_peers i (tot - 1)) (\<lambda>peers.
        bindr (on_rand i (split_secret data tot threshold)) (\<lambda>shares.
        bindr (on_rand i (random_id 16)) (\<lambda>groupID.
        bindr (on_rand i (random_id 32)) (\<lambda>groupToken.
        with_node i (\<lambda>n.
        bindr (draw_holders i ((n_id n, n_endpoint n) # map (\<lambda>p. (ni_node p, ni_endpoint p)) peers)) (\<lambda>holders.
        let g = \<lparr>g_id = groupID, g_token = groupToken, g_threshold = threshold, g_total = tot,
                 g_members = map member_of_holder holders\<rparr> in
        bindr (keep_share X i g (hd holders) (hd shares)) (\<lambda>_.
        bindr (send_shares i g (zip (tl holders) (tl shares))) (\<lambda>_.
        on_db i (put_manifest (manifest_of_group secretName ''secret'' g)))))))))))"

definition distribute_backup :: "nat \<Rightarrow> string \<Rightarrow> bytes \<Rightarrow> int \<Rightarrow> mesh_peer list \<Rightarrow> unit act" where
  "distribute_backup i label data threshold meshPeers =
     (let tot = int (length meshPeers)
      in if tot < threshold then ret (Inl ErrMeshPeers)
         else
           bindr (on_rand i (split_secret data tot threshold)) (\<lambda>shares.
           bindr (on_rand i (random_id 16)) (\<lambda>groupID.
           bindr (on_rand i (random_id 32)) (\<lambda>groupToken.
           bindr (draw_holders i (map (\<lambda>p. (p_name p, p_endpoint p)) meshPeers)) (\<lambda>holders.
           let g = \<lparr>g_id = groupID, g_token = groupToken, g_threshold = threshold, g_total = tot,
                    g_members = map member_of_holder holders\<rparr> in
           bindr (send_shares i g (zip holders shares)) (\<lambda>_.
           on_db i (put_manifest (manifest_of_group label ''backup'' g))))))))"

definition backup_op :: "nat \<Rightarrow> string \<Rightarrow> bytes \<Rightarrow> int \<Rightarrow> unit act" where
  "backup_op i label data threshold =
     bindr (on_db i list_mesh_peers) (distribute_backup i label data threshold)"

section \<open>Reconstruct\<close>

definition local_share :: "nat \<Rightarrow> string \<Rightarrow> bytes act" where
  "local_share i groupID =
     bindr (on_db i (get_fragment_by_group groupID)) (\<lambda>frag.
     ret (decrypt (f_key frag) (f_ciphertext frag) (share_aad (f_group frag) (f_pid frag))))"

definition member_share :: "nat \<Rightarrow> string \<Rightarrow> manifest \<Rightarrow> member \<Rightarrow> bytes act" where
  "member_share i self m mb =
     (if m_node mb = self then local_share i (mf_group m)
      else bindr (fetch_group_share (m_endpoint mb) (mf_group m) (mf_token m)) (\<lambda>resp. ret (Inr (sr_share resp))))"

text \<open>The loop over the members: it stops at the threshold and passes over members that fail.\<close>

fun gather :: "nat \<Rightarrow> string \<Rightarrow> manifest \<Rightarrow> member list \<Rightarrow> bytes list \<Rightarrow> bytes list act" where
  "gather i self m [] shares = ret (Inr shares)"
| "gather i self m (mb # mbs) shares =
     (if mf_threshold m \<le> int (length shares) then ret (Inr shares)
      else attempt (member_share i self m mb) (\<lambda>r. case r of
        Inl _ \<Rightarrow> gather i self m mbs shares
      | Inr s \<Rightarrow> gather i self m mbs (shares @ [s])))"

text \<open>\<open>make([]Share, 0, cap)\<close> of 24-byte slice headers, on a 64-bit platform.\<close>

definition cap_ok :: "int \<Rightarrow> bool" where
  "cap_ok c \<longleftrightarrow> 0 \<le> c \<and> 24 * c \<le> 2 ^ 48"

definition reconstruct :: "nat \<Rightarrow> string \<Rightarrow> bytes act" where
  "reconstruct i secretName =
     bindr (on_db i (get_manifest secretName)) (\<lambda>m.
     if \<not> cap_ok (mf_threshold m) then ret (Inl (Panic ''makeslice: cap out of range''))
     else with_node i (\<lambda>n.
       bindr (gather i (n_id n) m (mf_members m) []) (\<lambda>shares.
       ret (if int (length shares) < mf_threshold m then Inl ErrSharesAvailable else combine shares))))"

end
