(* ===== verification/Healing.thy ===== *)
theory Healing
  imports Sharing
begin

text \<open>
  Self-healing and the immune reaction: \<open>client/selfheal.go\<close> and the acting part of
  \<open>client/watchdog.go\<close>.
\<close>

section \<open>Probing and resharing\<close>

fun probe_members :: "manifest \<Rightarrow> member list \<Rightarrow> member list act" where
  "probe_members m [] = ret (Inr [])"
| "probe_members m (mem # mems) =
     attempt (check_presence (m_endpoint mem) (mf_group m) (mf_token m)) (\<lambda>r.
     bindr (probe_members m mems) (\<lambda>alive.
     ret (Inr (case r of Inl _ \<Rightarrow> alive | Inr resp \<Rightarrow> if pr_present resp then mem # alive else alive))))"

fun ping_peers :: "mesh_peer list \<Rightarrow> mesh_peer list act" where
  "ping_peers [] = ret (Inr [])"
| "ping_peers (p # ps) =
     attempt (ping (p_endpoint p)) (\<lambda>r.
     bindr (ping_peers ps) (\<lambda>reachable.
     ret (Inr (case r of Inl _ \<Rightarrow> reachable | Inr _ \<Rightarrow> p # reachable))))"

text \<open>Errors end the cycle for this manifest and are only logged.\<close>

definition reshare_manifest :: "packages \<Rightarrow> nat \<Rightarrow> manifest \<Rightarrow> unit act" where
  "reshare_manifest X i m =
     attempt
       (bindr (reconstruct i (mf_name m)) (\<lambda>data.
          if mf_kind m = ''backup'' then
            bindr (on_db i list_mesh_peers) (\<lambda>meshPeers.
            bindr (ping_peers meshPeers) (\<lambda>reachable.
            if int (length reachable) < mf_threshold m then ret (Inr ())
            else distribute_backup i (mf_name m) data (mf_threshold m) reachable))
          else split_op X i (mf_name m) data (mf_threshold m) (mf_total m)))
       (\<lambda>_. ret (Inr ()))"

definition heal_one :: "packages \<Rightarrow> nat \<Rightarrow> int \<Rightarrow> manifest \<Rightarrow> unit act" where
  "heal_one X i margin m =
     bindr (probe_members m (mf_members m)) (\<lambda>alive.
       let live = int (length alive)
       in if mf_total m \<le> live then ret (Inr ())
          else if live < mf_threshold m then ret (Inr ())
          else if mf_threshold m + margin < live then ret (Inr ())
          else reshare_manifest X i m)"

definition owned_manifests :: "nat \<Rightarrow> manifest list act" where
  "owned_manifests i =
     attempt (on_db i (list_manifests_by_kind ''backup'')) (\<lambda>r1.
     attempt (on_db i (list_manifests_by_kind ''secret'')) (\<lambda>r2.
     ret (Inr ((case r1 of Inl _ \<Rightarrow> [] | Inr ms \<Rightarrow> ms) @ (case r2 of Inl _ \<Rightarrow> [] | Inr ms \<Rightarrow> ms)))))"

definition heal_manifests :: "packages \<Rightarrow> nat \<Rightarrow> int \<Rightarrow> unit act" where
  "heal_manifests X i margin = bindr (owned_manifests i) (for_each (heal_one X i margin))"

definition heal_now :: "packages \<Rightarrow> nat \<Rightarrow> unit act" where
  "heal_now X i = heal_manifests X i 1"

definition force_reshare_owned :: "packages \<Rightarrow> nat \<Rightarrow> unit act" where
  "force_reshare_owned X i = bindr (owned_manifests i) (for_each (reshare_manifest X i))"

section \<open>The immune reaction\<close>

definition severity_text :: "severity \<Rightarrow> string" where
  "severity_text sev = (case sev of Suspect \<Rightarrow> ''suspect'' | Confirmed \<Rightarrow> ''confirmed'')"

definition now_of :: "world \<Rightarrow> int" where
  "now_of w = w_clock w (w_calls w)"

definition react_fragment :: "packages \<Rightarrow> nat \<Rightarrow> severity \<Rightarrow> bool \<Rightarrow> string \<Rightarrow> unit act" where
  "react_fragment X i sev alert pid =
     attempt (cold_mutate X i pid) (\<lambda>r. case r of
       Inl _ \<Rightarrow> ret (Inr ())
     | Inr _ \<Rightarrow>
         if alert then with_node i (\<lambda>n w.
           attempt (client_alert \<lparr>al_node = n_id n, al_pid = pid, al_severity = severity_text sev, al_at = now_of w\<rparr>)
             (\<lambda>_. ret (Inr ())) w)
         else ret (Inr ()))"

text \<open>
  The forced reshare of a confirmed reaction runs in a goroutine of its own; here it follows the
  mutations of the local fragments.
\<close>

definition react :: "packages \<Rightarrow> nat \<Rightarrow> severity \<Rightarrow> bool \<Rightarrow> unit act" where
  "react X i sev alert w =
     (let w1 = set_node i ((w_nodes w i)\<lparr>n_watch := react_state sev (now_of w) (n_watch (w_nodes w i))\<rparr>) w
      in bindr
           (attempt (on_db i list_fragment_pids) (\<lambda>r. case r of
              Inl _ \<Rightarrow> ret (Inr ())
            | Inr pids \<Rightarrow> for_each (react_fragment X i sev alert) pids))
           (\<lambda>_. if sev = Confirmed then force_reshare_owned X i else ret (Inr ())) w1)"

definition simulate_attack :: "packages \<Rightarrow> nat \<Rightarrow> unit act" where
  "simulate_attack X i = react X i Confirmed True"

definition watchdog_tick :: "packages \<Rightarrow> nat \<Rightarrow> bool \<Rightarrow> bool \<Rightarrow> int \<Rightarrow> unit act" where
  "watchdog_tick X i remote debugger ppid w =
     (let n = w_nodes w i
      in case tick (observe remote debugger ppid (n_watch n)) (now_of w) (n_watch n) of
           (d, wd) \<Rightarrow>
             (case d of
                None \<Rightarrow> ret (Inr ())
              | Some Confirmed \<Rightarrow> react X i Confirmed True
              | Some Suspect \<Rightarrow> react X i Suspect False) (set_node i (n\<lparr>n_watch := wd\<rparr>) w))"

end
