(* ===== verification/Custody.thy ===== *)
theory Custody
  imports Healing
begin

text \<open>
  Invariants of the whole world. The locale \<open>custody\<close> states what an invariant has to withstand:
  the effects of the primitive operations on one node's database, randomness, chains and watchdog
  and on the orchestrator. Inside it, every operation of a node and every handler is shown to
  keep the invariant, and to store only fragments that satisfy \<open>ok\<close>. The
  interpretations on the model's own invariants are in \<open>World\<close>, \<open>Panics\<close> and \<open>Startup\<close>.
\<close>

section \<open>Keeping an invariant\<close>

text \<open>\<open>yields I m V\<close>: run in a world with \<open>I\<close>, \<open>m\<close> keeps \<open>I\<close> and returns an error or a value with \<open>V\<close>.\<close>

definition yields :: "(world \<Rightarrow> bool) \<Rightarrow> 'a act \<Rightarrow> ('a \<Rightarrow> bool) \<Rightarrow> bool" where
  "yields I m V \<longleftrightarrow> (\<forall>w r w'. I w \<longrightarrow> m w = (r, w') \<longrightarrow> I w' \<and> (\<forall>x. r = Inr x \<longrightarrow> V x))"

abbreviation any :: "'a \<Rightarrow> bool" where "any x \<equiv> True"

named_theorems yields_intros

lemma yieldsI:
  "(\<And>w r w'. I w \<Longrightarrow> m w = (r, w') \<Longrightarrow> I w' \<and> (\<forall>x. r = Inr x \<longrightarrow> V x)) \<Longrightarrow> yields I m V"
  by (simp add: yields_def)

lemma yieldsD: "yields I m V \<Longrightarrow> I w \<Longrightarrow> m w = (r, w') \<Longrightarrow> I w'"
  "yields I m V \<Longrightarrow> I w \<Longrightarrow> m w = (Inr x, w') \<Longrightarrow> V x"
  by (auto simp: yields_def)

lemma yields_weaken: "yields I m V \<Longrightarrow> (\<And>x. V x \<Longrightarrow> U x) \<Longrightarrow> yields I m U"
  by (simp add: yields_def)

lemma yields_ret: "(\<And>x. r = Inr x \<Longrightarrow> V x) \<Longrightarrow> yields I (ret r) V"
  by (simp add: yields_def ret_def)

lemma yields_bindr:
  assumes "yields I m V" "\<And>x. V x \<Longrightarrow> yields I (f x) U" shows "yields I (bindr m f) U"
proof (rule yieldsI)
  fix w r w' assume a: "I w" "bindr m f w = (r, w')"
  obtain q w1 where q: "m w = (q, w1)" by force
  with assms(1) a(1) have I1: "I w1" by (rule yieldsD(1))
  show "I w' \<and> (\<forall>x. r = Inr x \<longrightarrow> U x)"
  proof (cases q)
    case (Inl err)
    with a(2) q have "w' = w1" "r = Inl err" by (simp_all add: bindr_def)
    with I1 show ?thesis by simp
  next
    case (Inr x)
    with q yieldsD(2) [OF assms(1) a(1)] have V: "V x" by blast
    from a(2) q Inr have "f x w1 = (r, w')" by (simp add: bindr_def)
    with assms(2) [OF V] I1 show ?thesis unfolding yields_def by blast
  qed
qed

lemma yields_attempt:
  assumes "yields I m V" "\<And>r. (\<And>x. r = Inr x \<Longrightarrow> V x) \<Longrightarrow> yields I (f r) U"
  shows "yields I (attempt m f) U"
proof (rule yieldsI)
  fix w r w' assume a: "I w" "attempt m f w = (r, w')"
  obtain q w1 where q: "m w = (q, w1)" by force
  then have "I w1" "\<And>x. q = Inr x \<Longrightarrow> V x" using assms(1) a(1) by (auto simp: yields_def)
  with assms(2) have "yields I (f q) U" by blast
  then show "I w' \<and> (\<forall>x. r = Inr x \<longrightarrow> U x)" using a q \<open>I w1\<close> by (auto simp: attempt_def yields_def split: option.splits)
qed

lemma yields_with_node: "(\<And>n. yields I (f n) U) \<Longrightarrow> yields I (with_node i f) U"
  by (simp add: yields_def with_node_def)

lemma yields_for_each: "(\<And>x. x \<in> set xs \<Longrightarrow> yields I (f x) V) \<Longrightarrow> yields I (for_each f xs) any"
proof (induction xs)
  case (Cons x xs)
  then show ?case using yields_bindr [of I "f x" V "\<lambda>_. for_each f xs" any] by simp
qed (simp add: yields_ret)

lemma yields_ret_any [yields_intros]: "yields I (ret r) any"
  by (rule yields_ret) simp

lemma yields_ret_eq: "yields I (ret r) (\<lambda>x. r = Inr x)"
  by (rule yields_ret)

lemma yields_seq: "yields I m any \<Longrightarrow> (\<And>x. yields I (f x) U) \<Longrightarrow> yields I (bindr m f) U"
  by (rule yields_bindr)

lemma yields_try: "yields I m any \<Longrightarrow> (\<And>r. yields I (f r) U) \<Longrightarrow> yields I (attempt m f) U"
  by (rule yields_attempt)

lemma yields_any: "yields I m V \<Longrightarrow> yields I m any"
  by (simp add: yields_def)

section \<open>Randomness\<close>

text \<open>The users of randomness change nothing of it but the position.\<close>

definition advances :: "(entropy \<Rightarrow> 'b \<times> entropy) \<Rightarrow> bool" where
  "advances f \<longleftrightarrow> (\<forall>e r e'. f e = (r, e') \<longrightarrow> e' = e\<lparr>draws := draws e'\<rparr> \<and> draws e \<le> draws e')"

lemma advances_rand_read: "advances (rand_read n)"
  by (auto simp: advances_def rand_read_def)

lemma advances_random_id: "advances (random_id n)"
  using advances_rand_read [of n] by (auto simp: advances_def random_id_def split: prod.splits sum.splits)

lemma advances_encrypt: "advances (encrypt k p a)"
  using advances_rand_read [of 12] by (auto simp: advances_def encrypt_def split: prod.splits sum.splits if_splits)

lemma advances_build_chain: "advances (build_chain len)"
  using advances_rand_read [of 32] by (auto simp: advances_def build_chain_def Let_def split: prod.splits sum.splits)

lemma split_loop_advances:
  "split_loop n t secret j out e = (r, e') \<Longrightarrow> e' = e\<lparr>draws := draws e'\<rparr> \<and> draws e \<le> draws e'"
proof (induction secret arbitrary: j out e)
  case (Cons b secret)
  obtain q e1 where q: "rand_read (t - 1) e = (q, e1)" by force
  then have e1: "e1 = e\<lparr>draws := Suc (draws e)\<rparr>" by (auto simp: rand_read_def)
  show ?case
  proof (cases q)
    case (Inl err)
    with Cons.prems q e1 show ?thesis by auto
  next
    case (Inr rs)
    then obtain out' where "split_loop n t secret (j + 1) out' e1 = (r, e')"
      using Cons.prems q by (auto simp: Let_def)
    from Cons.IH [OF this] e1 show ?thesis by auto
  qed
qed simp

lemma advances_split: "advances (split_secret secret n t)"
  unfolding advances_def split_secret_def using split_loop_advances by (auto simp: Let_def split: if_splits)

section \<open>What an invariant withstands\<close>

definition set_db :: "nat \<Rightarrow> db \<Rightarrow> world \<Rightarrow> world" where
  "set_db i d w = set_node i ((w_nodes w i)\<lparr>n_db := d\<rparr>) w"

definition set_entropy :: "nat \<Rightarrow> entropy \<Rightarrow> world \<Rightarrow> world" where
  "set_entropy i e w = set_node i ((w_nodes w i)\<lparr>n_entropy := e\<rparr>) w"

text \<open>The part of the contract that calls to the orchestrator rest on.\<close>

locale messaging =
  fixes I :: "world \<Rightarrow> bool"
  assumes calls: "I w \<Longrightarrow> I (w\<lparr>w_calls := k\<rparr>)"
    and orch: "I w \<Longrightarrow> orch_handle req now (w_orch w) = (resp, o2) \<Longrightarrow> I (w\<lparr>w_orch := o2\<rparr>)"
begin

lemma orch_call_any: "yields I (orch_call req) any"
proof (rule yieldsI)
  fix w r w' assume a: "I w" "orch_call req w = (r, w')"
  obtain resp o2 where h: "orch_handle req (w_clock w (w_calls w)) (w_orch w) = (resp, o2)" by force
  have "I (w\<lparr>w_calls := k\<rparr>)" for k using a(1) by (rule calls)
  moreover have "I (w\<lparr>w_calls := k\<rparr>\<lparr>w_orch := o2\<rparr>)" for k
    using orch [OF calls [OF a(1)], of req "w_clock w (w_calls w)" k resp o2] h by simp
  ultimately show "I w' \<and> (\<forall>x. r = Inr x \<longrightarrow> any x)"
    using a(2) h by (auto simp: orch_call_def Let_def split: if_splits)
qed

lemma orch_post_any: "yields I (orch_post req decode) any"
  unfolding orch_post_def by (rule yields_bindr [OF orch_call_any yields_ret_any])

lemma clients_any [yields_intros]:
  "yields I (client_register req) any" "yields I (client_announce a) any" "yields I (client_heartbeat hb) any"
  "yields I (client_ack k) any" "yields I (client_alert al) any"
  unfolding client_register_def client_announce_def client_heartbeat_def client_ack_def client_alert_def
  by (rule orch_post_any)+

lemma lists_any [yields_intros]:
  "yields I list_nodes any" "yields I get_map any" "yields I (subscribe_events n) any"
  unfolding list_nodes_def get_map_def subscribe_events_def
  by (rule yields_bindr [OF orch_call_any yields_ret_any])+

text \<open>Probing a peer for its presence on the network.\<close>

lemma ping_any [yields_intros]: "yields I (ping ep) any"
proof (rule yieldsI)
  fix w r w' assume a: "I w" "ping ep w = (r, w')"
  then have "w' = w\<lparr>w_calls := Suc (w_calls w)\<rparr>"
    by (auto simp: ping_def bindr_def peer_call_def peer_handle_def reply_def ok_status_def ret_def Let_def
        split: option.splits if_splits)
  with a(1) calls show "I w' \<and> (\<forall>x. r = Inr x \<longrightarrow> True)" by simp
qed

lemma find_reachable_any: "yields I (find_reachable self need nds acc) any"
  by (induction self need nds acc rule: find_reachable.induct)
     (auto split: sum.split intro!: yields_ret_any yields_try ping_any)

lemma reachable_peers_any [yields_intros]: "yields I (reachable_peers i need) any"
  unfolding reachable_peers_def
  by (intro yields_with_node yields_seq lists_any find_reachable_any yields_ret_any)

lemma ping_peers_any: "yields I (ping_peers ps) any"
  by (induction ps rule: ping_peers.induct) (auto intro!: yields_ret_any yields_try ping_any yields_seq)

text \<open>A call keeps what every handler it may reach keeps.\<close>

lemma call_any:
  assumes "\<And>j. yields I (peer_handle j req) any" shows "yields I (peer_call ep req) any"
proof (rule yieldsI)
  fix w r w' assume w: "I w" "peer_call ep req w = (r, w')"
  let ?w = "w\<lparr>w_calls := Suc (w_calls w)\<rparr>"
  have u: "I ?w" by (rule calls [OF w(1)])
  have "w' = ?w \<or> (\<exists>j q. peer_handle j req ?w = (q, w'))"
    using w(2) by (auto simp: peer_call_def Let_def split: option.splits if_splits prod.splits)
  with u yieldsD(1) [OF assms u] show "I w' \<and> (\<forall>x. r = Inr x \<longrightarrow> True)" by auto
qed

end

text \<open>
  \<open>ok group pid key ciphertext\<close> says what fragment may be stored, \<open>okm group threshold\<close> what
  manifest. A fragment read from a database is \<open>ok\<close>; sealing its plaintext again under another
  name and key is \<open>ok\<close>.
\<close>

locale holding = messaging I
  for I :: "world \<Rightarrow> bool" +
  fixes ok :: "string \<Rightarrow> string \<Rightarrow> bytes \<Rightarrow> bytes \<Rightarrow> bool"
    and okm :: "string \<Rightarrow> int \<Rightarrow> bool"
  assumes elsewhere: "I w \<Longrightarrow> I (w\<lparr>w_orch := o2\<rparr>)"
    and drawn: "I w \<Longrightarrow> draws (n_entropy (w_nodes w i)) \<le> k \<Longrightarrow>
      I (set_entropy i ((n_entropy (w_nodes w i))\<lparr>draws := k\<rparr>) w)"
    and internal: "I w \<Longrightarrow> I (set_node i ((w_nodes w i)\<lparr>n_chains := cs, n_watch := wd\<rparr>) w)"
    and untouched: "I w \<Longrightarrow> same_tables (n_db (w_nodes w i)) d \<Longrightarrow> I (set_db i d w)"
    and stored: "I w \<Longrightarrow> put_fragment f (n_db (w_nodes w i)) e = (r, d, e') \<Longrightarrow>
      ok (f_group f) (f_pid f) (f_key f) (f_ciphertext f) \<Longrightarrow> I (set_db i d w)"
    and deleted: "I w \<Longrightarrow> delete_fragment pid (n_db (w_nodes w i)) = (r, d) \<Longrightarrow> I (set_db i d w)"
    and renamed: "I w \<Longrightarrow> members_changed (n_db (w_nodes w i)) d \<Longrightarrow> I (set_db i d w)"
    and manifested: "I w \<Longrightarrow> put_manifest m (n_db (w_nodes w i)) = (r, d) \<Longrightarrow>
      okm (mf_group m) (mf_threshold m) \<Longrightarrow> I (set_db i d w)"
    and owned: "I w \<Longrightarrow> y \<in> set (manifest_table (n_db (w_nodes w i))) \<Longrightarrow> scan_manifest y = Inr m \<Longrightarrow>
      okm (mf_group m) (mf_threshold m)"
    and meshed: "I w \<Longrightarrow> put_mesh_peer mp (n_db (w_nodes w i)) = (r, d) \<Longrightarrow> I (set_db i d w)"
    and holds: "I w \<Longrightarrow> x \<in> set (frag_table (n_db (w_nodes w i))) \<Longrightarrow>
      scan_fragment (storage_key (n_db (w_nodes w i))) x = Inr f \<Longrightarrow>
      ok (f_group f) (f_pid f) (f_key f) (f_ciphertext f)"
    and resealed: "ok g pid key ct \<Longrightarrow> decrypt key ct (share_aad g pid) = Inr p \<Longrightarrow>
      encrypt key' p (share_aad g pid') e = (Inr ct', e') \<Longrightarrow> ok g pid' key' ct'"
begin

section \<open>Primitive steps\<close>

lemma set_entropy_same: "I w \<Longrightarrow> e = (n_entropy (w_nodes w i))\<lparr>draws := draws e\<rparr> \<Longrightarrow>
    draws (n_entropy (w_nodes w i)) \<le> draws e \<Longrightarrow> I (set_entropy i e w)"
  using drawn by metis

lemma on_rand_yields:
  assumes "advances f" "\<And>w e x e'. I w \<Longrightarrow> f (n_entropy (w_nodes w i)) = (Inr x, e') \<Longrightarrow> V x"
  shows "yields I (on_rand i f) V"
proof (rule yieldsI)
  fix w r w' assume a: "I w" "on_rand i f w = (r, w')"
  obtain q e where q: "f (n_entropy (w_nodes w i)) = (q, e)" by force
  with assms(1) have e: "e = (n_entropy (w_nodes w i))\<lparr>draws := draws e\<rparr>" "draws (n_entropy (w_nodes w i)) \<le> draws e"
    unfolding advances_def by blast+
  from a(2) q have w': "w' = set_entropy i e w" "r = q" by (simp_all add: on_rand_def set_entropy_def Let_def)
  have "I (set_entropy i e w)" using drawn [OF a(1) e(2)] e(1) by simp
  with w' q assms(2) [OF a(1)] show "I w' \<and> (\<forall>x. r = Inr x \<longrightarrow> V x)" by blast
qed

lemma on_rand_any: "advances f \<Longrightarrow> yields I (on_rand i f) any"
  by (rule on_rand_yields) simp_all

lemma sealing_yields: "yields I (on_rand i (encrypt k p a)) (\<lambda>ct. \<exists>e e'. encrypt k p a e = (Inr ct, e'))"
  by (rule on_rand_yields [OF advances_encrypt]) blast

lemma on_db_yields:
  assumes "\<And>w r d. I w \<Longrightarrow> f (n_db (w_nodes w i)) = (r, d) \<Longrightarrow> I (set_db i d w) \<and> (\<forall>x. r = Inr x \<longrightarrow> V x)"
  shows "yields I (on_db i f) V"
proof (rule yieldsI)
  fix w r w' assume a: "I w" "on_db i f w = (r, w')"
  obtain q d where q: "f (n_db (w_nodes w i)) = (q, d)" by force
  then have "on_db i f w = (q, set_db i d w)" by (simp add: on_db_def set_db_def Let_def)
  with a(2) have w: "w' = set_db i d w" "r = q" by auto
  show "I w' \<and> (\<forall>x. r = Inr x \<longrightarrow> V x)" unfolding w by (rule assms [OF a(1) q])
qed

lemma db_step:
  assumes "\<And>w r d. I w \<Longrightarrow> f (n_db (w_nodes w i)) = (r, d) \<Longrightarrow> I (set_db i d w)"
  shows "yields I (on_db i f) any"
  using assms by (intro on_db_yields) simp

lemma db_read:
  assumes "\<And>d r d'. f d = (r, d') \<Longrightarrow> same_tables d d'" shows "yields I (on_db i f) any"
  by (rule db_step) (rule untouched, assumption, rule assms)

lemma read_group_manifest:
  "yields I (on_db i (get_manifest_by_group g)) (\<lambda>m. okm (mf_group m) (mf_threshold m))"
proof (rule on_db_yields)
  fix w r d assume I: "I w" and g: "get_manifest_by_group g (n_db (w_nodes w i)) = (r, d)"
  then have "I (set_db i d w)" using untouched get_manifest_by_group_keeps by blast
  moreover have "okm (mf_group m) (mf_threshold m)" if "r = Inr m" for m
    using g [unfolded that] by (rule get_manifest_by_group_Inr) (rule owned [OF I])
  ultimately show "I (set_db i d w) \<and> (\<forall>m. r = Inr m \<longrightarrow> okm (mf_group m) (mf_threshold m))" by blast
qed

lemma remanifested:
  assumes "I w" "update_manifest_member g oldPID newPID ep (n_db (w_nodes w i)) = (r, d)" shows "I (set_db i d w)"
  using assms(2)
proof (cases rule: update_manifest_member_cases)
  case none
  then show ?thesis using untouched [OF assms(1)] by blast
next
  case (put m d1)
  have I1: "I (set_db i d1 w)" by (rule untouched [OF assms(1) put(2)])
  have "okm (mf_group m) (mf_threshold m)" using put(1) by (rule get_manifest_by_group_Inr) (rule owned [OF assms(1)])
  with manifested [OF I1, of _ i r d] put(3) have "I (set_db i d (set_db i d1 w))" by (simp add: set_db_def set_node_def)
  then show ?thesis by (simp add: set_db_def set_node_def)
qed

lemma db_simple [yields_intros]:
  "yields I (on_db i list_fragment_pids) any" "yields I (on_db i list_mesh_peers) any"
  "yields I (on_db i (list_manifests_by_kind k)) any" "yields I (on_db i (get_manifest n)) any"
  "yields I (on_db i (delete_fragment pid)) any" "yields I (on_db i (update_sibling g op np ep)) any"
  "yields I (on_db i (update_manifest_member g op np ep)) any"
  "yields I (on_db i (put_mesh_peer mp)) any"
  by (rule db_read, erule keeps | rule db_step, erule (1) deleted renamed [OF _ update_sibling_changes] remanifested meshed)+

lemma store_manifest: "okm (mf_group m) (mf_threshold m) \<Longrightarrow> yields I (on_db i (put_manifest m)) any"
  by (rule db_step) (rule manifested)

lemma scan_group: "scan_fragment k x = Inr f \<Longrightarrow> f_group f = r_group x \<and> f_pid f = r_pid x"
  by (auto simp: scan_fragment_def split: sum.splits)

definition sound :: "fragment \<Rightarrow> bool" where
  "sound f \<longleftrightarrow> ok (f_group f) (f_pid f) (f_key f) (f_ciphertext f)"

lemma read_fragment: "yields I (on_db i (get_fragment pid)) (\<lambda>f. f_pid f = pid \<and> sound f)"
proof (rule on_db_yields)
  fix w r d assume "I w" and g: "get_fragment pid (n_db (w_nodes w i)) = (r, d)"
  then have "I (set_db i d w)" using untouched get_fragment_keeps by blast
  moreover have "f_pid f = pid \<and> sound f" if "r = Inr f" for f
    using g [unfolded that] by (rule get_fragment_Inr) (use \<open>I w\<close> holds scan_group sound_def in auto)
  ultimately show "I (set_db i d w) \<and> (\<forall>x. r = Inr x \<longrightarrow> f_pid x = pid \<and> sound x)" by blast
qed

lemma read_group_fragment:
  "yields I (on_db i (get_fragment_by_group g)) (\<lambda>f. f_group f = g \<and> sound f)"
proof (rule on_db_yields)
  fix w r d assume "I w" and gr: "get_fragment_by_group g (n_db (w_nodes w i)) = (r, d)"
  then have "I (set_db i d w)" using untouched get_fragment_by_group_keeps by blast
  moreover have "f_group f = g \<and> sound f" if "r = Inr f" for f
    using gr [unfolded that] by (rule get_fragment_by_group_Inr) (use \<open>I w\<close> holds scan_group sound_def in auto)
  ultimately show "I (set_db i d w) \<and> (\<forall>x. r = Inr x \<longrightarrow> f_group x = g \<and> sound x)" by blast
qed

lemma put_fragment_advances: "put_fragment f d e = (r, d', e') \<Longrightarrow> e' = e\<lparr>draws := draws e'\<rparr> \<and> draws e \<le> draws e'"
  using advances_encrypt [of "storage_key d" "f_key f" "frag_aad (f_pid f)"]
  by (auto simp: put_fragment_def advances_def split: prod.splits sum.splits if_splits)

lemma store_fragment: "sound f \<Longrightarrow> yields I (on_db_rand i (put_fragment f)) any"
proof (rule yieldsI)
  fix w r w' assume f: "sound f" "I w" "on_db_rand i (put_fragment f) w = (r, w')"
  obtain q d e where q: "put_fragment f (n_db (w_nodes w i)) (n_entropy (w_nodes w i)) = (q, d, e)"
    by (rule prod_cases3)
  then have "I (set_db i d w)" using stored f(1,2) unfolding sound_def by blast
  moreover have "n_entropy (w_nodes (set_db i d w) i) = n_entropy (w_nodes w i)"
    by (simp add: set_db_def set_node_def)
  ultimately have "I (set_entropy i e (set_db i d w))"
    using drawn [of "set_db i d w" i "draws e"] put_fragment_advances [OF q] by simp
  moreover have "w' = set_entropy i e (set_db i d w)"
    using f(3) q by (simp add: on_db_rand_def Let_def set_entropy_def set_db_def set_node_def)
  ultimately show "I w' \<and> (\<forall>x. r = Inr x \<longrightarrow> any x)" by simp
qed

section \<open>Peers\<close>

text \<open>What may be delivered, and what a peer's answer to a request can hold.\<close>

definition opens :: "string \<Rightarrow> bytes \<Rightarrow> bool" where
  "opens g share \<longleftrightarrow> (\<exists>pid key ct. ok g pid key ct \<and> decrypt key ct (share_aad g pid) = Inr share)"

definition delivery_ok :: "deliver_request \<Rightarrow> bool" where
  "delivery_ok req \<longleftrightarrow> ok (dr_group req) (dr_pid req) (dr_key req) (dr_ciphertext req)"

definition request_ok :: "peer_request \<Rightarrow> bool" where
  "request_ok req \<longleftrightarrow> (\<forall>d. req = PeerDeliver (Some d) \<longrightarrow> delivery_ok d)"

definition answer_ok :: "peer_request \<Rightarrow> peer_response \<Rightarrow> bool" where
  "answer_ok req resp \<longleftrightarrow>
     (\<forall>s. ps_body resp = ShareBody s \<longrightarrow> (\<exists>g tk. req = PeerFetch g tk \<and> opens g (sr_share s)))"

lemma reply_yields: "(\<And>s. b \<noteq> ShareBody s) \<Longrightarrow> yields I (reply st b) (answer_ok req)"
  by (auto simp: reply_def answer_ok_def intro: yields_ret)

lemma set_chains: "I w \<Longrightarrow> I (set_node i ((w_nodes w i)\<lparr>n_chains := cs\<rparr>) w)"
  using internal [of w i "n_watch (w_nodes w i)" cs] by simp

lemma set_watch: "I w \<Longrightarrow> I (set_node i ((w_nodes w i)\<lparr>n_watch := wd\<rparr>) w)"
  using internal [of w i wd "n_chains (w_nodes w i)"] by simp

lemma yields_after_chains:
  assumes "\<And>n. yields I (m n) V"
  shows "yields I (with_node i (\<lambda>n w. m n (set_node i (n\<lparr>n_chains := cs n\<rparr>) w))) V"
proof (rule yieldsI)
  fix w r w' assume a: "I w" "with_node i (\<lambda>n w. m n (set_node i (n\<lparr>n_chains := cs n\<rparr>) w)) w = (r, w')"
  then have m: "m (w_nodes w i) (set_node i ((w_nodes w i)\<lparr>n_chains := cs (w_nodes w i)\<rparr>) w) = (r, w')"
    by (simp add: with_node_def)
  note I1 = set_chains [OF a(1)]
  show "I w' \<and> (\<forall>x. r = Inr x \<longrightarrow> V x)"
    using yieldsD(1) [OF assms I1 m] yieldsD(2) [OF assms I1] m by blast
qed

lemma register_yields [yields_intros]: "yields I (register_new_fragment i pid chainID) any"
  unfolding register_new_fragment_def Let_def
  by (intro yields_seq on_rand_any advances_build_chain yields_after_chains yields_try clients_any yields_ret_any)

lemma deliver_yields:
  assumes "request_ok (PeerDeliver body)" shows "yields I (handle_deliver i body) (answer_ok req)"
proof -
  have "sound \<lparr>f_pid = dr_pid r, f_group = dr_group r, f_token = tk, f_chain = ch, f_epoch = ep, f_threshold = th,
      f_total = tt, f_key = dr_key r, f_ciphertext = dr_ciphertext r, f_members = ms, f_updated = up\<rparr>"
    if "body = Some r" for r tk ch ep th tt ms up
    using assms that by (simp add: request_ok_def delivery_ok_def sound_def)
  then show ?thesis unfolding handle_deliver_def
    by (auto split: option.split sum.split
        intro!: reply_yields yields_try on_rand_any advances_random_id register_yields store_fragment)
qed

lemma status_yields: "yields I (handle_status i g tk) (answer_ok req)"
  unfolding handle_status_def
  by (rule yields_try [OF yields_any [OF read_group_fragment]])
     (auto split: sum.split intro!: reply_yields)

lemma reply_share: "opens g (sr_share s) \<Longrightarrow> yields I (reply st (ShareBody s)) (answer_ok (PeerFetch g tk))"
  by (auto simp: reply_def answer_ok_def intro: yields_ret)

lemma fetch_yields: "yields I (handle_fetch i g tk) (answer_ok (PeerFetch g tk))"
  unfolding handle_fetch_def
proof (rule yields_attempt [OF read_group_fragment], split sum.split, intro conjI allI impI)
  fix r frag assume "\<And>f. r = Inr f \<Longrightarrow> f_group f = g \<and> sound f" and "r = Inr frag"
  then have f: "f_group frag = g" "sound frag" by auto
  show "yields I (if tk \<noteq> f_token frag then reply 403 (PeerError ''token di gruppo non valido'')
         else case decrypt (f_key frag) (f_ciphertext frag) (share_aad (f_group frag) (f_pid frag)) of
                Inl _ \<Rightarrow> reply 500 (PeerError ''decifratura locale fallita'')
              | Inr share \<Rightarrow> reply 200 (ShareBody \<lparr>sr_share = share, sr_epoch = f_epoch frag\<rparr>))
      (answer_ok (PeerFetch g tk))"
  proof (cases "decrypt (f_key frag) (f_ciphertext frag) (share_aad (f_group frag) (f_pid frag))")
    case (Inr share)
    with f have "opens g share" unfolding opens_def sound_def by blast
    with Inr show ?thesis by (simp add: reply_yields reply_share)
  qed (simp add: reply_yields)
qed (rule reply_yields, simp)

lemma notice_yields: "yields I (handle_notice i body) (answer_ok req)"
  unfolding handle_notice_def
  by (auto split: option.split sum.split intro!: reply_yields yields_try db_simple)

lemma peer_handle_yields: "request_ok req \<Longrightarrow> yields I (peer_handle i req) (answer_ok req)"
  unfolding peer_handle_def
  by (auto split: peer_request.split
      intro!: reply_yields deliver_yields status_yields fetch_yields notice_yields)

lemma peer_call_yields:
  assumes "request_ok req" shows "yields I (peer_call ep req) (answer_ok req)"
proof (rule yieldsI)
  fix w r w' assume a: "I w" "peer_call ep req w = (r, w')"
  let ?w1 = "w\<lparr>w_calls := Suc (w_calls w)\<rparr>"
  have w1: "I ?w1" using a(1) by (rule calls)
  show "I w' \<and> (\<forall>x. r = Inr x \<longrightarrow> answer_ok req x)"
  proof (cases "w_addr w ep = None \<or> w_fate w (w_calls w) = Unsent")
    case True
    then show ?thesis using a(2) w1 by (auto simp: peer_call_def Let_def split: option.splits)
  next
    case False
    then obtain i where i: "w_addr w ep = Some i" by auto
    obtain q w2 where q: "peer_handle i req ?w1 = (q, w2)" by force
    note y = peer_handle_yields [OF assms, of i]
    from False i q a(2) have "w' = w2" "r = Inl ErrTransport \<or> r = q"
      by (auto simp: peer_call_def Let_def split: if_splits sum.splits)
    with yieldsD(1) [OF y w1 q] yieldsD(2) [OF y w1] q show ?thesis by auto
  qed
qed

lemma peer_ok_status:
  "request_ok req \<Longrightarrow> yields I (bindr (peer_call ep req) ok_status) any"
  unfolding ok_status_def by (rule yields_seq [OF yields_any [OF peer_call_yields]]) (simp_all add: yields_ret_any)

lemma peers_any [yields_intros]:
  "yields I (notify_mutation ep mn) any" "yields I (check_presence ep g tk) any"
  "delivery_ok d \<Longrightarrow> yields I (deliver_share ep d) any"
  unfolding notify_mutation_def check_presence_def deliver_share_def
  by (simp_all add: peer_ok_status request_ok_def
      yields_seq [OF yields_any [OF peer_call_yields] yields_ret_any])

lemma fetch_share_yields: "yields I (fetch_group_share ep g tk) (\<lambda>s. opens g (sr_share s))"
  unfolding fetch_group_share_def
proof (rule yields_bindr [OF peer_call_yields])
  show "request_ok (PeerFetch g tk)" by (simp add: request_ok_def)
  fix resp assume "answer_ok (PeerFetch g tk) resp"
  then show "yields I (ret (if 300 \<le> ps_status resp then Inl (ErrStatus (ps_status resp))
            else case ps_body resp of ShareBody s \<Rightarrow> Inr s | _ \<Rightarrow> Inl ErrDecode)) (\<lambda>s. opens g (sr_share s))"
    by (intro yields_ret) (auto simp: answer_ok_def split: if_splits peer_body.splits)
qed

section \<open>Mutation and heartbeats\<close>

lemma notify_siblings_any [yields_intros]: "yields I (notify_siblings i frag oldPID newPID) any"
  unfolding notify_siblings_def notify_sibling_def
  by (auto intro!: yields_for_each [where V = any] yields_with_node yields_ret_any yields_try [OF peers_any(1)])

lemma apply_mutation_any [yields_intros]: "yields I (apply_mutation X i pid seed reason) any"
  unfolding apply_mutation_def Let_def
proof (rule yields_bindr [OF read_fragment], rule yields_seq [OF on_rand_any [OF advances_rand_read]],
    rule yields_seq [OF yields_ret_any], rule yields_bindr [OF yields_ret_eq],
    rule yields_bindr [OF sealing_yields], rule yields_seq [OF store_fragment])
  fix frag key p ct
  assume f: "f_pid frag = pid \<and> sound frag"
    and p: "decrypt (f_key frag) (f_ciphertext frag) (share_aad (f_group frag) pid) = Inr p"
    and ct: "\<exists>e e'. encrypt key p (share_aad (f_group frag) (next_pseudo_id pid seed)) e = (Inr ct, e')"
  then have "ok (f_group frag) pid (f_key frag) (f_ciphertext frag)" by (auto simp: sound_def)
  with p ct have "ok (f_group frag) (next_pseudo_id pid seed) key ct" by (blast intro: resealed)
  then show "sound
       \<lparr>f_pid = next_pseudo_id pid seed, f_group = f_group frag, f_token = f_token frag,
        f_chain = f_chain frag, f_epoch = f_epoch frag + 1, f_threshold = f_threshold frag,
        f_total = f_total frag, f_key = key, f_ciphertext = ct, f_members = f_members frag, f_updated = 0\<rparr>"
    by (simp add: sound_def)
qed (intro yields_seq db_simple yields_with_node yields_try clients_any notify_siblings_any)

lemma cold_mutate_any [yields_intros]: "yields I (cold_mutate X i pid) any"
  unfolding cold_mutate_def
proof (rule yields_seq [OF yields_any [OF read_fragment]], rule yieldsI)
  fix frag w r w'
  assume I: "I w" and w: "with_node i (\<lambda>n. case n_chains n (f_chain frag) of
         None \<Rightarrow> ret (Inl ErrNoChain)
       | Some cc \<Rightarrow> (case consume cc of
              (None, _) \<Rightarrow> ret (Inl ErrChainExhausted)
            | (Some seed, cc') \<Rightarrow> (\<lambda>w. apply_mutation X i pid seed ''cold''
                (set_node i (n\<lparr>n_chains := (n_chains n)(f_chain frag \<mapsto> cc')\<rparr>) w)))) w = (r, w')"
  note after = yieldsD(1) [OF apply_mutation_any set_chains [OF I]]
  show "I w' \<and> (\<forall>x. r = Inr x \<longrightarrow> True)"
    using w I by (auto simp: with_node_def ret_def split: option.splits prod.splits dest: after)
qed

lemma handle_event_any [yields_intros]: "yields I (handle_event X i ev) any"
  unfolding handle_event_def
  by (auto split: payload.split intro!: yields_try apply_mutation_any yields_ret_any)

lemma start_any [yields_intros]: "yields I (start_node i) any"
  unfolding start_node_def by (intro yields_with_node yields_seq clients_any lists_any)

lemma get_all_any: "yields I (get_all i pids) any"
proof (induction pids)
  case (Cons pid pids)
  then show ?case by (auto intro!: yields_try [OF yields_any [OF read_fragment]] yields_seq yields_ret_any)
qed (simp add: yields_ret_any)

lemma list_local_any [yields_intros]: "yields I (list_local_fragments i) any"
  unfolding list_local_fragments_def by (intro yields_seq db_simple get_all_any)

lemma heartbeats_any [yields_intros]: "yields I (send_heartbeats i) any"
proof -
  have "yields I (send_heartbeat i pid) any" for pid
    unfolding send_heartbeat_def
    by (auto split: sum.split intro!: yields_try [OF yields_any [OF read_fragment]] yields_ret_any
        yields_with_node yields_try [OF clients_any(3)])
  then show ?thesis unfolding send_heartbeats_def
    by (auto split: sum.split intro!: yields_try db_simple yields_ret_any yields_for_each [where V = any])
qed

section \<open>Sharing\<close>

text \<open>\<open>seals g share\<close>: however \<open>share\<close> is sealed for group \<open>g\<close>, it may be stored.\<close>

definition seals :: "string \<Rightarrow> bytes \<Rightarrow> bool" where
  "seals g share \<longleftrightarrow> (\<forall>pid key ct e e'. encrypt key share (share_aad g pid) e = (Inr ct, e') \<longrightarrow> ok g pid key ct)"

lemma draw_holders_any: "yields I (draw_holders i ps) any"
  by (induction i ps rule: draw_holders.induct)
     (auto intro!: yields_ret_any yields_seq on_rand_any advances_random_id)

lemma keep_share_any: "seals (g_id g) share \<Longrightarrow> yields I (keep_share X i g h share) any"
  unfolding keep_share_def
proof (intro yields_seq [OF on_rand_any [OF advances_random_id]] yields_with_node yields_seq [OF yields_ret_any]
    yields_bindr [OF sealing_yields] yields_seq [OF register_yields] store_fragment)
  fix key ct chainID
  assume "seals (g_id g) share" "\<exists>e e'. encrypt key share (share_aad (g_id g) (h_pid h)) e = (Inr ct, e')"
  then show "sound
       \<lparr>f_pid = h_pid h, f_group = g_id g, f_token = g_token g, f_chain = chainID, f_epoch = 0,
        f_threshold = g_threshold g, f_total = g_total g, f_key = key, f_ciphertext = ct,
        f_members = g_members g, f_updated = 0\<rparr>"
    by (auto simp: sound_def seals_def)
qed

lemma send_share_any: "seals (g_id g) share \<Longrightarrow> yields I (send_share i g h share) any"
  unfolding send_share_def
proof (intro yields_seq [OF on_rand_any [OF advances_rand_read]] yields_bindr [OF sealing_yields] peers_any)
  fix key ct
  assume "seals (g_id g) share" "\<exists>e e'. encrypt key share (share_aad (g_id g) (h_pid h)) e = (Inr ct, e')"
  then show "delivery_ok
       \<lparr>dr_group = g_id g, dr_token = g_token g, dr_pid = h_pid h, dr_epoch = 0,
        dr_threshold = g_threshold g, dr_total = g_total g, dr_key = key, dr_ciphertext = ct,
        dr_members = map peer_of_member (g_members g)\<rparr>"
    by (auto simp: delivery_ok_def seals_def)
qed

lemma send_shares_any:
  "(\<And>h s. (h, s) \<in> set hss \<Longrightarrow> seals (g_id g) s) \<Longrightarrow> yields I (send_shares i g hss) any"
  unfolding send_shares_def
  by (rule yields_for_each [where V = any]) (auto intro: send_share_any)

lemma group_tail_any:
  assumes "\<And>s. s \<in> insert (hd shares) (set shares) \<Longrightarrow> seals (g_id g) s" "okm (g_id g) (g_threshold g)"
  shows "yields I (bindr (keep_share X i g h (hd shares))
      (\<lambda>_. bindr (send_shares i g (zip hs (tl shares))) (\<lambda>_. on_db i (put_manifest (manifest_of_group name kind g))))) any"
proof -
  have "seals (g_id g) s" if "s \<in> set (tl shares)" for s
    using that assms(1) by (cases shares) auto
  then show ?thesis
    using assms by (auto intro!: yields_seq [OF keep_share_any] yields_seq [OF send_shares_any] store_manifest
        dest: set_zip_rightD simp: manifest_of_group_def)
qed

section \<open>Reconstruction\<close>

lemma local_share_yields: "yields I (local_share i g) (opens g)"
  unfolding local_share_def
  by (rule yields_bindr [OF read_group_fragment], rule yields_ret) (auto simp: opens_def sound_def)

lemma member_share_yields: "yields I (member_share i self m mb) (opens (mf_group m))"
  unfolding member_share_def
  by (auto intro: local_share_yields yields_bindr [OF fetch_share_yields] yields_ret)

lemma gather_yields:
  "\<forall>s \<in> set acc. opens (mf_group m) s \<Longrightarrow>
   yields I (gather i self m mbs acc) (\<lambda>ss. \<forall>s \<in> set ss. opens (mf_group m) s)"
proof (induction mbs arbitrary: acc)
  case (Cons mb mbs)
  have "yields I (attempt (member_share i self m mb) (\<lambda>r. case r of
        Inl _ \<Rightarrow> gather i self m mbs acc
      | Inr s \<Rightarrow> gather i self m mbs (acc @ [s]))) (\<lambda>ss. \<forall>s \<in> set ss. opens (mf_group m) s)"
    by (rule yields_attempt [OF member_share_yields]) (use Cons in \<open>auto split: sum.split\<close>)
  with Cons.prems show ?case by (auto intro: yields_ret)
qed (auto intro: yields_ret)

lemma reconstruct_any [yields_intros]: "yields I (reconstruct i name) any"
  unfolding reconstruct_def
  by (auto intro!: yields_seq db_simple yields_with_node yields_ret_any yields_any [OF gather_yields])

section \<open>Probing\<close>

lemma probe_members_any: "yields I (probe_members m mems) any"
  by (induction m mems rule: probe_members.induct) (auto intro!: yields_ret_any yields_try peers_any ping_any yields_seq)

lemma mesh_any [yields_intros]: "yields I (add_mesh_peer i name ep wg) any" "yields I (node_mesh_peers i) any"
  unfolding add_mesh_peer_def node_mesh_peers_def by (rule db_simple)+

end

section \<open>New groups\<close>

text \<open>
  What is needed of the operations that make groups: \<open>new\<close> says what a freshly drawn identifier is
  like, and anything in a new group is \<open>ok\<close>.
\<close>

locale custody = holding I ok okm
  for I :: "world \<Rightarrow> bool" and ok :: "string \<Rightarrow> string \<Rightarrow> bytes \<Rightarrow> bytes \<Rightarrow> bool"
    and okm :: "string \<Rightarrow> int \<Rightarrow> bool" +
  fixes new :: "string \<Rightarrow> bool"
  assumes fresh_group: "I w \<Longrightarrow> random_id 16 (n_entropy (w_nodes w i)) = (Inr g, e) \<Longrightarrow> new g"
    and fresh_ok: "new g \<Longrightarrow> ok g pid key ct"
    and fresh_okm: "new g \<Longrightarrow> 2 \<le> t \<Longrightarrow> t \<le> 255 \<Longrightarrow> okm g t"
begin

lemma draw_group: "yields I (on_rand i (random_id 16)) new"
  by (rule on_rand_yields [OF advances_random_id]) (rule fresh_group)

lemma seals_new: "new g \<Longrightarrow> seals g share"
  by (simp add: seals_def fresh_ok)

lemma group_any:
  assumes "\<And>g. new g \<Longrightarrow> yields I (f g) any" shows "yields I (bindr (on_rand i (random_id 16)) f) any"
  using assms by (rule yields_bindr [OF draw_group])

lemma dealing_yields: "yields I (on_rand i (split_secret data n t)) (\<lambda>_. 2 \<le> t \<and> t \<le> 255)"
  by (rule on_rand_yields [OF advances_split]) (drule split_Inr(1), simp add: split_valid_def)

lemma split_any [yields_intros]: "yields I (split_op X i name data t n) any"
proof -
  let ?rest = "\<lambda>peers shares. bindr (on_rand i (random_id 16)) (\<lambda>groupID.
        bindr (on_rand i (random_id 32)) (\<lambda>groupToken.
        with_node i (\<lambda>nd.
        bindr (draw_holders i ((n_id nd, n_endpoint nd) # map (\<lambda>p. (ni_node p, ni_endpoint p)) peers)) (\<lambda>holders.
        let g = \<lparr>g_id = groupID, g_token = groupToken, g_threshold = t, g_total = n,
                 g_members = map member_of_holder holders\<rparr> in
        bindr (keep_share X i g (hd holders) (hd shares)) (\<lambda>_.
        bindr (send_shares i g (zip (tl holders) (tl shares))) (\<lambda>_.
        on_db i (put_manifest (manifest_of_group name ''secret'' g))))))))"
  have rest: "yields I (?rest peers shares) any" if "2 \<le> t \<and> t \<le> 255" for peers shares
    using that unfolding Let_def
    by (simp add: yields_with_node group_any group_tail_any seals_new fresh_okm
        yields_seq [OF on_rand_any [OF advances_random_id]] yields_seq [OF draw_holders_any] del: draw_holders.simps)
  show ?thesis unfolding split_op_def
    by (split if_split, intro conjI impI, rule yields_ret_any, rule yields_seq [OF reachable_peers_any],
        rule yields_bindr [OF dealing_yields], rule rest)
qed

lemma distribute_any [yields_intros]: "yields I (distribute_backup i label data t ps) any"
proof -
  let ?rest = "\<lambda>shares. bindr (on_rand i (random_id 16)) (\<lambda>groupID.
           bindr (on_rand i (random_id 32)) (\<lambda>groupToken.
           bindr (draw_holders i (map (\<lambda>p. (p_name p, p_endpoint p)) ps)) (\<lambda>holders.
           let g = \<lparr>g_id = groupID, g_token = groupToken, g_threshold = t, g_total = int (length ps),
                    g_members = map member_of_holder holders\<rparr> in
           bindr (send_shares i g (zip holders shares)) (\<lambda>_.
           on_db i (put_manifest (manifest_of_group label ''backup'' g))))))"
  have rest: "yields I (?rest shares) any" if "2 \<le> t \<and> t \<le> 255" for shares
    using that unfolding Let_def
    by (simp add: group_any seals_new fresh_okm store_manifest manifest_of_group_def
        yields_seq [OF on_rand_any [OF advances_random_id]] yields_seq [OF draw_holders_any] yields_seq [OF send_shares_any])
  show ?thesis unfolding distribute_backup_def Let_def [of "int (length ps)"]
    by (split if_split, intro conjI impI, rule yields_ret_any, rule yields_bindr [OF dealing_yields], rule rest)
qed

lemma backup_any [yields_intros]: "yields I (backup_op i label data t) any"
  unfolding backup_op_def by (intro yields_seq db_simple distribute_any)

section \<open>Healing and reactions\<close>

lemma reshare_any [yields_intros]: "yields I (reshare_manifest X i m) any"
  unfolding reshare_manifest_def
  by (auto intro!: yields_try yields_seq reconstruct_any db_simple ping_peers_any yields_ret_any
      distribute_any split_any)

lemma heal_one_any: "yields I (heal_one X i margin m) any"
  unfolding heal_one_def Let_def by (auto intro!: yields_seq probe_members_any yields_ret_any reshare_any)

lemma owned_manifests_any: "yields I (owned_manifests i) any"
  unfolding owned_manifests_def by (intro yields_try db_simple yields_ret_any)

lemma healing_any [yields_intros]: "yields I (heal_manifests X i margin) any" "yields I (heal_now X i) any"
    "yields I (force_reshare_owned X i) any"
  unfolding heal_now_def heal_manifests_def force_reshare_owned_def
  by (intro yields_seq owned_manifests_any yields_for_each [where V = any] heal_one_any reshare_any)+

lemma react_fragment_any: "yields I (react_fragment X i sev alert pid) any"
proof -
  have a: "yields I (attempt (client_alert al) (\<lambda>_. ret (Inr ()))) any" for al
    by (intro yields_try clients_any yields_ret_any)
  have "yields I (with_node i (\<lambda>n w. attempt (client_alert (al n w)) (\<lambda>_. ret (Inr ())) w)) any" for al
    using a unfolding yields_def with_node_def by blast
  then show ?thesis unfolding react_fragment_def
    by (auto split: sum.split intro!: yields_try cold_mutate_any yields_ret_any)
qed

lemma react_any [yields_intros]: "yields I (react X i sev alert) any"
proof (rule yieldsI)
  fix w r w' assume a: "I w" "react X i sev alert w = (r, w')"
  have y: "yields I (bindr
           (attempt (on_db i list_fragment_pids) (\<lambda>r. case r of
              Inl _ \<Rightarrow> ret (Inr ())
            | Inr pids \<Rightarrow> for_each (react_fragment X i sev alert) pids))
           (\<lambda>_. if sev = Confirmed then force_reshare_owned X i else ret (Inr ()))) any"
    by (auto split: sum.split intro!: yields_seq yields_try db_simple yields_ret_any
        yields_for_each [where V = any] react_fragment_any healing_any)
  from yieldsD(1) [OF y set_watch [OF a(1)]] a(2) show "I w' \<and> (\<forall>x. r = Inr x \<longrightarrow> True)"
    unfolding react_def Let_def by blast
qed

lemma attack_any [yields_intros]: "yields I (simulate_attack X i) any"
  unfolding simulate_attack_def by (rule react_any)

lemma watchdog_any [yields_intros]: "yields I (watchdog_tick X i remote debugger ppid) any"
proof (rule yieldsI)
  fix w r w' assume a: "I w" "watchdog_tick X i remote debugger ppid w = (r, w')"
  obtain d wd where t: "tick (observe remote debugger ppid (n_watch (w_nodes w i))) (now_of w)
      (n_watch (w_nodes w i)) = (d, wd)" by force
  have y: "yields I (case d of
                None \<Rightarrow> ret (Inr ())
              | Some Confirmed \<Rightarrow> react X i Confirmed True
              | Some Suspect \<Rightarrow> react X i Suspect False) any"
    by (auto split: option.split severity.split intro: yields_ret_any react_any)
  from yieldsD(1) [OF y set_watch [OF a(1)]] a(2) t show "I w' \<and> (\<forall>x. r = Inr x \<longrightarrow> True)"
    unfolding watchdog_tick_def Let_def by auto
qed

end

end
