(* ===== verification/Mesh.thy ===== *)
theory Mesh
  imports Keys Encoding
begin

text \<open>
  The WireGuard side of the trusted mesh, \<open>mesh/wireguard.go\<close>: key clamping and generation and the
  two stanzas of a \<open>wg-quick\<close> configuration. The lemmas show that generated keys are clamped
  scalars and that a stanza reads back line by line.
\<close>

section \<open>The routines of the source\<close>

record key_pair =
  kp_private :: string
  kp_public :: string

definition clamp :: "bytes \<Rightarrow> bytes" where
  "clamp k =
     (let k1 = k[0 := k ! 0 AND 248];
          k2 = k1[31 := k1 ! 31 AND 127]
      in k2[31 := k2 ! 31 OR 64])"

text \<open>\<open>curve25519.Basepoint\<close> is the little-endian 9.\<close>

definition basepoint :: bytes where
  "basepoint = 9 # replicate 31 0"

definition generate_key_pair :: "packages \<Rightarrow> entropy \<Rightarrow> key_pair res \<times> entropy" where
  "generate_key_pair X e =
     (case rand_read 32 e of
        (Inl err, e') \<Rightarrow> (Inl err, e')
      | (Inr k, e') \<Rightarrow>
          let priv = clamp k
          in case x25519 X priv basepoint of
               None \<Rightarrow> (Inl ErrX25519, e')
             | Some pub \<Rightarrow> (Inr \<lparr>kp_private = base64 priv, kp_public = base64 pub\<rparr>, e'))"

definition render_interface_config :: "string \<Rightarrow> string \<Rightarrow> int \<Rightarrow> string" where
  "render_interface_config privateKey tunnelCIDR listenPort =
     ''[Interface]'' @ [nl] @ ''PrivateKey = '' @ privateKey @ [nl] @ ''Address = '' @ tunnelCIDR @ [nl]
       @ ''ListenPort = '' @ dec_int listenPort @ [nl]"

definition render_peer_config :: "string \<Rightarrow> string \<Rightarrow> string \<Rightarrow> string \<Rightarrow> string" where
  "render_peer_config name publicKey allowedIPs ep =
     (let s = ''# '' @ name @ [nl] @ ''[Peer]'' @ [nl] @ ''PublicKey = '' @ publicKey @ [nl]
                @ ''AllowedIPs = '' @ allowedIPs @ [nl]
      in if ep \<noteq> [] then s @ ''Endpoint = '' @ ep @ [nl] else s)"

section \<open>Clamped scalars\<close>

text \<open>The number a 32-byte string stands for, least significant byte first.\<close>

definition scalar :: "bytes \<Rightarrow> nat" where
  "scalar k = (\<Sum>i<length k. unat (k ! i) * 256 ^ i)"

lemma length_clamp [simp]: "length (clamp k) = length k"
  by (simp add: clamp_def Let_def)

lemma clamp_nth:
  "length k = 32 \<Longrightarrow> i < 32 \<Longrightarrow> clamp k ! i =
     (if i = 0 then k ! 0 AND 248 else if i = 31 then (k ! 31 AND 127) OR 64 else k ! i)"
  by (simp add: clamp_def Let_def nth_list_update)

lemma clamp_byte0: "unat (b AND 248 :: byte) mod 8 = 0"
proof -
  have "unat (b AND 248 :: byte) mod 8 = take_bit 3 (unat b AND 248)"
    by (simp add: unsigned_and_eq take_bit_eq_mod)
  also have "\<dots> = take_bit 3 (unat b) AND take_bit 3 248" by (simp only: take_bit_and)
  also have "take_bit 3 248 = (0 :: nat)" by (simp add: take_bit_eq_mod)
  finally show ?thesis by simp
qed

lemma clamp_byte31: "64 \<le> unat ((b AND 127) OR 64 :: byte) \<and> unat ((b AND 127) OR 64 :: byte) < 128"
proof -
  let ?m = "uint b AND 127"
  have u: "uint ((b AND 127) OR 64 :: byte) = ?m OR 64" by (simp add: unsigned_or_eq unsigned_and_eq)
  have "127 = (mask 7 :: int)" by (simp add: mask_eq_exp_minus_1)
  then have "?m = uint b mod 2 ^ 7" by (simp only: take_bit_eq_mask [symmetric] take_bit_eq_mod)
  then have m: "0 \<le> ?m" "?m < 2 ^ 7" by simp_all
  then have "?m OR 64 < 2 ^ 7" by (intro OR_upper) simp_all
  moreover have "64 \<le> 64 OR ?m" using m(1) by (simp add: or_greater_eq)
  ultimately have "64 \<le> uint ((b AND 127) OR 64 :: byte)" "uint ((b AND 127) OR 64 :: byte) < 128"
    using u by (simp_all add: or.commute)
  then show ?thesis by (simp only: unat_eq_nat_uint) linarith
qed

lemma digits_below: "(\<Sum>i<n. unat (f i :: byte) * 256 ^ i) < 256 ^ n"
proof (induction n)
  case (Suc n)
  have "unat (f n) < 2 ^ LENGTH(8)" by (rule unsigned_less)
  then have "unat (f n) * 256 ^ n \<le> 255 * 256 ^ n" by (intro mult_right_mono) simp_all
  moreover have "(256 :: nat) ^ Suc n = 255 * 256 ^ n + 256 ^ n" by simp
  ultimately show ?case using Suc by (simp only: sum.lessThan_Suc)
qed simp

lemma clamp_scalar:
  assumes "length k = 32"
  shows "8 dvd scalar (clamp k)" "2 ^ 254 \<le> scalar (clamp k)" "scalar (clamp k) < 2 ^ 255"
proof -
  let ?c = "clamp k"
  have low: "(\<Sum>i<31. unat (?c ! i) * 256 ^ i) < 256 ^ 31" by (rule digits_below)
  have top: "{..<32} = insert 31 {..<31 :: nat}" by auto
  have "scalar ?c = (\<Sum>i \<in> insert 31 {..<31}. unat (?c ! i) * 256 ^ i)"
    using assms unfolding scalar_def top [symmetric] by simp
  also have "\<dots> = unat (?c ! 31) * 256 ^ 31 + (\<Sum>i<31. unat (?c ! i) * 256 ^ i)"
    by (rule sum.insert) simp_all
  finally have split: "scalar ?c = unat (?c ! 31) * 256 ^ 31 + (\<Sum>i<31. unat (?c ! i) * 256 ^ i)" .
  show "2 ^ 254 \<le> scalar (clamp k)" "scalar (clamp k) < 2 ^ 255"
    using low clamp_byte31 [of "k ! 31"] assms by (simp_all add: split clamp_nth)
  have "8 dvd unat (?c ! i) * 256 ^ i" if "i < 32" for i
  proof (cases i)
    case 0
    then show ?thesis using clamp_byte0 [of "k ! 0"] assms by (simp add: clamp_nth mod_eq_0_iff_dvd)
  next
    case (Suc j)
    have "8 dvd (256 :: nat)" by simp
    then show ?thesis by (simp add: Suc dvd_mult dvd_mult2)
  qed
  then show "8 dvd scalar ?c" using assms unfolding scalar_def by (intro dvd_sum) simp
qed

lemma clamp_idem:
  assumes "length k = 32" shows "clamp (clamp k) = clamp k"
proof -
  have 0: "x AND 248 AND 248 = x AND 248" for x :: byte by (simp add: and.assoc)
  have 31: "(((x AND 127) OR 64) AND 127) OR 64 = (x AND 127) OR 64" for x :: byte
    by (simp add: bit.conj_disj_distrib2 and.assoc or.assoc)
  show ?thesis
    by (rule nth_equalityI) (simp_all add: assms clamp_nth 0 31)
qed

lemma base64_length: "length (base64 xs) = 4 * ((length xs + 2) div 3)"
proof (induction xs rule: base64.induct)
  case (4 a b c rest)
  have "(length (a # b # c # rest) + 2) div 3 = ((length rest + 2) + 3) div 3"
    by (rule arg_cong [where f = "\<lambda>n. n div 3"]) simp
  also have "\<dots> = (length rest + 2) div 3 + 1" by (rule div_add_self2) simp
  finally show ?case using 4 unfolding base64.simps Let_def by (simp only: length_append length_Cons list.size mult_Suc_right) simp
qed (simp_all add: Let_def)

text \<open>The lines of a text that ends each of them with a newline.\<close>

fun split_lines :: "string \<Rightarrow> string list" where
  "split_lines [] = []"
| "split_lines (c # s) =
     (if c = nl then [] # split_lines s
      else case split_lines s of [] \<Rightarrow> [[c]] | l # ls \<Rightarrow> (c # l) # ls)"

lemma split_line: "nl \<notin> set l \<Longrightarrow> split_lines (l @ nl # s) = l # split_lines s"
  by (induction l) auto

lemma split_four:
  assumes "nl \<notin> set A" "nl \<notin> set B" "nl \<notin> set C" "nl \<notin> set D"
  shows "split_lines (A @ nl # B @ nl # C @ nl # D @ nl # s) = A # B # C # D # split_lines s"
  by (simp add: split_line assms)

section \<open>Properties\<close>

text \<open>C40: A generated private key is the base64 text of a clamped 32-byte scalar (a multiple of 8 between
  2^254 and 2^255, which clamping again leaves alone), and the public key is the scalar
  multiplication of exactly that scalar with the base point.\<close>

theorem keygen_clamped:
  assumes "generate_key_pair X e = (Inr kp, e')"
  shows "\<exists>priv pub. length priv = 32 \<and> clamp priv = priv \<and> 8 dvd scalar priv
    \<and> 2 ^ 254 \<le> scalar priv \<and> scalar priv < 2 ^ 255 \<and> x25519 X priv basepoint = Some pub
    \<and> kp_private kp = base64 priv \<and> kp_public kp = base64 pub \<and> length (kp_private kp) = 44"
proof -
  from assms obtain k pub where k: "rand_read 32 e = (Inr k, e')" "x25519 X (clamp k) basepoint = Some pub"
      "kp = \<lparr>kp_private = base64 (clamp k), kp_public = base64 pub\<rparr>"
    by (auto simp: generate_key_pair_def Let_def split: prod.splits sum.splits option.splits)
  note l = rand_read_length [OF k(1)]
  have "length (clamp k) = 32 \<and> clamp (clamp k) = clamp k \<and> 8 dvd scalar (clamp k)
    \<and> 2 ^ 254 \<le> scalar (clamp k) \<and> scalar (clamp k) < 2 ^ 255 \<and> x25519 X (clamp k) basepoint = Some pub
    \<and> kp_private kp = base64 (clamp k) \<and> kp_public kp = base64 pub \<and> length (kp_private kp) = 44"
    using clamp_scalar [OF l] clamp_idem [OF l] k(2,3) l by (simp add: base64_length)
  then show ?thesis by blast
qed

definition entropy_k :: entropy where
  "entropy_k = \<lparr>tape = \<lambda>_ _. 255, broken = \<lambda>_. False, draws = 0\<rparr>"

theorem keygen_clamped_witness:
  "\<exists>kp e'. generate_key_pair sample_packages entropy_k = (Inr kp, e') \<and> length (kp_private kp) = 44"
proof -
  have "\<exists>kp e'. generate_key_pair sample_packages entropy_k = (Inr kp, e')"
    by (simp add: generate_key_pair_def rand_read_def entropy_k_def sample_packages_def Let_def)
  then obtain kp e' where g: "generate_key_pair sample_packages entropy_k = (Inr kp, e')" by blast
  with keygen_clamped [OF g] show ?thesis by blast
qed

text \<open>A \<open>[Peer]\<close> stanza rendered from fields without newlines reads back as exactly its lines; the
  \<open>Endpoint\<close> line is there exactly when an endpoint is given.\<close>

lemma peer_stanza_lines:
  assumes "one_line name" "one_line publicKey" "one_line allowedIPs" "one_line ep"
  shows "split_lines (render_peer_config name publicKey allowedIPs ep) =
    [''# '' @ name, ''[Peer]'', ''PublicKey = '' @ publicKey, ''AllowedIPs = '' @ allowedIPs]
      @ (if ep = [] then [] else [''Endpoint = '' @ ep])"
proof -
  have n: "nl \<notin> set (''# '' @ name)" "nl \<notin> set ''[Peer]''" "nl \<notin> set (''PublicKey = '' @ publicKey)"
    "nl \<notin> set (''AllowedIPs = '' @ allowedIPs)" "nl \<notin> set (''Endpoint = '' @ ep)"
    using assms by (auto simp: one_line_def)
  have "render_peer_config name publicKey allowedIPs ep =
      (''# '' @ name) @ nl # ''[Peer]'' @ nl # (''PublicKey = '' @ publicKey) @ nl #
        (''AllowedIPs = '' @ allowedIPs) @ nl # (if ep = [] then [] else (''Endpoint = '' @ ep) @ nl # [])"
    by (simp add: render_peer_config_def Let_def)
  moreover have "split_lines (if ep = [] then [] else (''Endpoint = '' @ ep) @ nl # []) =
      (if ep = [] then [] else [''Endpoint = '' @ ep])"
    using split_line [OF n(5), of "[]"] by (cases "ep = []") (simp, simp only: if_False split_lines.simps(1))
  ultimately show ?thesis using split_four [OF n(1-4)] by (simp only: append.simps)
qed

lemma peer_stanza_lines_example:
  "split_lines (render_peer_config ''a'' ''k'' ''10.0.0.2/32'' []) =
    [''# '' @ ''a'', ''[Peer]'', ''PublicKey = '' @ ''k'', ''AllowedIPs = '' @ ''10.0.0.2/32'']
      @ (if ([] :: string) = [] then [] else [''Endpoint = '' @ []])"
  by (rule peer_stanza_lines) simp_all

end
