(* ===== verification/World.thy ===== *)
theory World
  imports Custody Mesh
begin

text \<open>
  The whole system as a transition system: any node may run any of its operations at any moment,
  peers may be sent any request, and the orchestrator may do anything at all. Well-formedness of
  the databases and the custody of a group are its invariants.
\<close>

section \<open>Steps of the system\<close>

text \<open>
  \<open>allowed\<close> restricts the fragments that outsiders deliver, and nothing else. \<open>meddled\<close> covers
  the orchestrator's timer and event streams and any fault of it.
\<close>

inductive world_step :: "packages \<Rightarrow> (deliver_request \<Rightarrow> bool) \<Rightarrow> world \<Rightarrow> world \<Rightarrow> bool"
  for X :: packages and allowed :: "deliver_request \<Rightarrow> bool" where
  splits: "split_op X i name data t n w = (r, w') \<Longrightarrow> world_step X allowed w w'"
| backs_up: "backup_op i label data t w = (r, w') \<Longrightarrow> world_step X allowed w w'"
| reconstructs: "reconstruct i name w = (r', w') \<Longrightarrow> world_step X allowed w w'"
| mutates: "cold_mutate X i pid w = (r, w') \<Longrightarrow> world_step X allowed w w'"
| hears: "handle_event X i ev w = (r, w') \<Longrightarrow> world_step X allowed w w'"
| heals: "heal_manifests X i margin w = (r, w') \<Longrightarrow> world_step X allowed w w'"
| watches: "watchdog_tick X i remote debugger ppid w = (r, w') \<Longrightarrow> world_step X allowed w w'"
| simulates: "simulate_attack X i w = (r, w') \<Longrightarrow> world_step X allowed w w'"
| beats: "send_heartbeats i w = (r, w') \<Longrightarrow> world_step X allowed w w'"
| lists: "list_local_fragments i w = (fs, w') \<Longrightarrow> world_step X allowed w w'"
| lists_mesh: "node_mesh_peers i w = (ps, w') \<Longrightarrow> world_step X allowed w w'"
| makes_keys: "on_rand i (generate_key_pair X) w = (kp, w') \<Longrightarrow> world_step X allowed w w'"
| meshes: "add_mesh_peer i name ep wg w = (r, w') \<Longrightarrow> world_step X allowed w w'"
| starts: "start_node i w = (s, w') \<Longrightarrow> world_step X allowed w w'"
| stops: "world_step X allowed w (set_node i ((w_nodes w i)\<lparr>n_chains := (\<lambda>_. None), n_watch := new_watchdog ppid\<rparr>) w)"
| peers: "(\<And>d. req = PeerDeliver (Some d) \<Longrightarrow> allowed d) \<Longrightarrow> peer_handle i req w = (resp, w') \<Longrightarrow>
    world_step X allowed w w'"
| meddled: "world_step X allowed w (w\<lparr>w_orch := o2\<rparr>)"

inductive world_run :: "packages \<Rightarrow> (deliver_request \<Rightarrow> bool) \<Rightarrow> world \<Rightarrow> world \<Rightarrow> bool"
  for X :: packages and allowed :: "deliver_request \<Rightarrow> bool" where
  here: "world_run X allowed w w"
| onward: "world_run X allowed w w' \<Longrightarrow> world_step X allowed w' w'' \<Longrightarrow> world_run X allowed w w''"

lemma advances_keys: "advances (generate_key_pair X)"
  using advances_rand_read [of 32]
  by (auto simp: advances_def generate_key_pair_def Let_def split: prod.splits sum.splits option.splits)

context custody
begin

lemma keys_any [yields_intros]: "yields I (on_rand i (generate_key_pair X)) any"
  by (rule on_rand_any [OF advances_keys])

lemma step_keeps:
  assumes "world_step X allowed w w'" "\<And>d. allowed d \<Longrightarrow> delivery_ok d" "I w" shows "I w'"
  using assms
proof (induction rule: world_step.induct)
  case (peers req i w resp w')
  then have "request_ok req" by (auto simp: request_ok_def)
  from yieldsD(1) [OF peer_handle_yields [OF this] peers(4,2)] show ?case .
next
  case (stops w i ppid)
  then show ?case using internal by blast
next
  case (meddled w o2)
  then show ?case using elsewhere by blast
qed (blast intro: yieldsD(1) yields_intros)+

lemma run_keeps:
  assumes "world_run X allowed w w'" "\<And>d. allowed d \<Longrightarrow> delivery_ok d" "I w" shows "I w'"
  using assms by (induction rule: world_run.induct) (auto intro: step_keeps)

end

section \<open>The databases stay well formed\<close>

lemma nodes_simps [simp]:
  "w_nodes (set_db i d w) = (w_nodes w)(i := (w_nodes w i)\<lparr>n_db := d\<rparr>)"
  "w_nodes (set_entropy i e w) = (w_nodes w)(i := (w_nodes w i)\<lparr>n_entropy := e\<rparr>)"
  "w_nodes (set_node i n w) = (w_nodes w)(i := n)"
  by (simp_all add: set_db_def set_entropy_def set_node_def)

definition nodes_wf :: "world \<Rightarrow> bool" where
  "nodes_wf w \<longleftrightarrow> (\<forall>i. db_wf (n_db (w_nodes w i)))"

lemma nodes_wf_db: "nodes_wf w \<Longrightarrow> db_wf (n_db (w_nodes w i))"
  by (simp add: nodes_wf_def)

lemma nodes_wf_set_db: "nodes_wf w \<Longrightarrow> db_wf d \<Longrightarrow> nodes_wf (set_db i d w)"
  by (simp add: nodes_wf_def)

interpretation wf: custody nodes_wf "\<lambda>_ _ _ _. True" "\<lambda>_ _. True" "\<lambda>_. True"
proof unfold_locales
  fix w i d assume "nodes_wf w" "same_tables (n_db (w_nodes w i)) d"
  then show "nodes_wf (set_db i d w)"
    using nodes_wf_db same_tables_wf by (blast intro: nodes_wf_set_db)
next
  fix w i d assume "nodes_wf w" "members_changed (n_db (w_nodes w i)) d"
  then show "nodes_wf (set_db i d w)"
    using nodes_wf_db members_changed_wf by (blast intro: nodes_wf_set_db)
qed (auto intro!: nodes_wf_set_db dest: nodes_wf_db intro: invs, simp_all add: nodes_wf_def)

section \<open>Groups and draws\<close>

text \<open>Operations that draw no group identifier bring no new group into the tables.\<close>

definition groups_within :: "string set \<Rightarrow> world \<Rightarrow> bool" where
  "groups_within S w \<longleftrightarrow> (\<forall>j. \<forall>x \<in> set (frag_table (n_db (w_nodes w j))). r_group x \<in> S)"

lemma groups_set_db: "groups_within S w \<Longrightarrow> r_group ` set (frag_table d) \<subseteq> S \<Longrightarrow> groups_within S (set_db i d w)"
  by (auto simp: groups_within_def)

lemma groups_db: "groups_within S w \<Longrightarrow> r_group ` set (frag_table (n_db (w_nodes w i))) \<subseteq> S"
  by (auto simp: groups_within_def)

lemma put_fragment_groups:
  assumes "put_fragment f d e = (r, d', e')"
  shows "r_group ` set (frag_table d') \<subseteq> insert (f_group f) (r_group ` set (frag_table d))"
  using assms by (rule put_fragment_cases) (auto simp: upsert_replace_set frag_row_of_def)

lemma members_changed_groups:
  assumes "members_changed d d'" shows "r_group ` set (frag_table d') = r_group ` set (frag_table d)"
proof -
  from assms obtain n t where d': "d' = d\<lparr>stmts := n, frag_table := t\<rparr>" and t: "list_all2 same_but_members (frag_table d) t"
    by (auto simp: members_changed_def)
  have "map r_group t = map r_group (frag_table d)"
    using t by (fastforce simp: list_all2_conv_all_nth same_but_members_def list_eq_iff_nth_eq)
  from arg_cong [OF this, of set] show ?thesis by (simp add: d')
qed

lemma put_manifest_rows: "put_manifest m d = (r, d') \<Longrightarrow> frag_table d' = frag_table d \<and> storage_key d' = storage_key d"
  by (erule put_manifest_cases) auto

lemma update_manifest_rows: "update_manifest_member g oldPID newPID ep d = (r, d') \<Longrightarrow>
    frag_table d' = frag_table d \<and> storage_key d' = storage_key d"
  by (erule update_manifest_member_cases)
     (auto simp: same_tables_def same_engine_def dest: put_manifest_rows)

lemma put_mesh_peer_rows: "put_mesh_peer p d = (r, d') \<Longrightarrow> frag_table d' = frag_table d \<and>
    storage_key d' = storage_key d \<and> manifest_table d' = manifest_table d"
  by (auto simp: put_mesh_peer_def elim!: exec_cases)

interpretation groups: holding "groups_within S" "\<lambda>g _ _ _. g \<in> S" "\<lambda>_ _. True" for S
proof unfold_locales
  fix w f i e r d and e' :: entropy
  assume w: "groups_within S w" and p: "put_fragment f (n_db (w_nodes w i)) e = (r, d, e')" and f: "f_group f \<in> S"
  have "insert (f_group f) (r_group ` set (frag_table (n_db (w_nodes w i)))) \<subseteq> S"
    using groups_db [OF w] f by (rule insert_subsetI [rotated])
  with put_fragment_groups [OF p] have "r_group ` set (frag_table d) \<subseteq> S" by (rule subset_trans)
  then show "groups_within S (set_db i d w)" by (rule groups_set_db [OF w])
next
  fix w i d assume w: "groups_within S w" and u: "members_changed (n_db (w_nodes w i)) d"
  show "groups_within S (set_db i d w)"
    using groups_db [OF w, of i] unfolding members_changed_groups [OF u, symmetric] by (rule groups_set_db [OF w])
next
  fix w x i f
  assume w: "groups_within S w" and x: "x \<in> set (frag_table (n_db (w_nodes w i)))"
    and f: "scan_fragment (storage_key (n_db (w_nodes w i))) x = Inr f"
  have "r_group x \<in> S" using w x unfolding groups_within_def by blast
  with f show "f_group f \<in> S" by (auto simp: scan_fragment_def split: sum.splits)
qed (auto simp: groups_within_def same_tables_def delete_rows_def dest: put_manifest_rows
    put_mesh_peer_rows elim!: delete_fragment_cases)

text \<open>The random tapes never change and are only read forwards.\<close>

definition drawn_from :: "world \<Rightarrow> world \<Rightarrow> bool" where
  "drawn_from w0 w \<longleftrightarrow> (\<forall>j. tape (n_entropy (w_nodes w j)) = tape (n_entropy (w_nodes w0 j)) \<and>
     draws (n_entropy (w_nodes w0 j)) \<le> draws (n_entropy (w_nodes w j)))"

interpretation tapes: custody "drawn_from w0" "\<lambda>_ _ _ _. True" "\<lambda>_ _. True" "\<lambda>_. True" for w0
  by unfold_locales (auto simp: drawn_from_def intro: le_trans)

section \<open>The custody of a group\<close>

text \<open>
  \<open>guarded gid t S\<close>: every fragment of the group that can be opened opens to a share in \<open>S\<close>,
  every manifest of the group has threshold \<open>t\<close>, and no node draws the identifier again.
\<close>

definition drawn_id :: "world \<Rightarrow> nat \<Rightarrow> nat \<Rightarrow> string" where
  "drawn_id w i k = hex_encode (map (tape (n_entropy (w_nodes w i)) k) [0..<16])"

definition rows_guarded :: "string \<Rightarrow> bytes set \<Rightarrow> db \<Rightarrow> bool" where
  "rows_guarded gid S d \<longleftrightarrow>
     (\<forall>x \<in> set (frag_table d). \<forall>key share. r_group x = gid \<longrightarrow>
        decrypt (storage_key d) (r_wrapped x) (frag_aad (r_pid x)) = Inr key \<longrightarrow>
        decrypt key (r_ciphertext x) (share_aad gid (r_pid x)) = Inr share \<longrightarrow> share \<in> S)"

definition manifests_all :: "(string \<Rightarrow> int \<Rightarrow> bool) \<Rightarrow> db \<Rightarrow> bool" where
  "manifests_all Q d \<longleftrightarrow> (\<forall>x \<in> set (manifest_table d). Q (w_group x) (w_threshold x))"

abbreviation manifests_guarded :: "string \<Rightarrow> int \<Rightarrow> db \<Rightarrow> bool" where
  "manifests_guarded gid t \<equiv> manifests_all (\<lambda>g th. g = gid \<longrightarrow> th = t)"

definition not_redrawn :: "string \<Rightarrow> world \<Rightarrow> bool" where
  "not_redrawn gid w \<longleftrightarrow> (\<forall>i k. draws (n_entropy (w_nodes w i)) \<le> k \<longrightarrow> drawn_id w i k \<noteq> gid)"

definition guarded :: "string \<Rightarrow> int \<Rightarrow> bytes set \<Rightarrow> world \<Rightarrow> bool" where
  "guarded gid t S w \<longleftrightarrow>
     (\<forall>i. rows_guarded gid S (n_db (w_nodes w i)) \<and> manifests_guarded gid t (n_db (w_nodes w i))) \<and>
     not_redrawn gid w"

definition genuine :: "string \<Rightarrow> bytes set \<Rightarrow> string \<Rightarrow> string \<Rightarrow> bytes \<Rightarrow> bytes \<Rightarrow> bool" where
  "genuine gid S g pid key ct \<longleftrightarrow>
     (g = gid \<longrightarrow> (\<forall>share. decrypt key ct (share_aad gid pid) = Inr share \<longrightarrow> share \<in> S))"

lemma guarded_set_db:
  "guarded gid t S w \<Longrightarrow> rows_guarded gid S d \<Longrightarrow> manifests_guarded gid t d \<Longrightarrow> guarded gid t S (set_db i d w)"
  by (auto simp: guarded_def not_redrawn_def drawn_id_def)

lemma guarded_db: "guarded gid t S w \<Longrightarrow> rows_guarded gid S (n_db (w_nodes w i)) \<and> manifests_guarded gid t (n_db (w_nodes w i))"
  by (simp add: guarded_def)

lemma rows_guarded_cong:
  assumes "\<And>x. x \<in> set (frag_table d') \<Longrightarrow> \<exists>y \<in> set (frag_table d). r_group y = r_group x \<and> r_pid y = r_pid x \<and>
      r_wrapped y = r_wrapped x \<and> r_ciphertext y = r_ciphertext x" "storage_key d' = storage_key d"
    "rows_guarded gid S d"
  shows "rows_guarded gid S d'"
  unfolding rows_guarded_def
proof (intro ballI allI impI)
  fix x key share assume "x \<in> set (frag_table d')" and a: "r_group x = gid"
    "decrypt (storage_key d') (r_wrapped x) (frag_aad (r_pid x)) = Inr key"
    "decrypt key (r_ciphertext x) (share_aad gid (r_pid x)) = Inr share"
  from assms(1) [OF this(1)] obtain y where "y \<in> set (frag_table d)" "r_group y = r_group x" "r_pid y = r_pid x"
    "r_wrapped y = r_wrapped x" "r_ciphertext y = r_ciphertext x" by blast
  with a assms(2,3) show "share \<in> S" unfolding rows_guarded_def by metis
qed

lemma put_fragment_guarded:
  assumes "rows_guarded gid S d" "genuine gid S (f_group f) (f_pid f) (f_key f) (f_ciphertext f)"
    "put_fragment f d e = (r, d', e')"
  shows "rows_guarded gid S d'"
  using assms(3)
proof (rule put_fragment_cases)
  fix wrapped
  assume d: "decrypt (storage_key d) wrapped (frag_aad (f_pid f)) = Inr (f_key f)"
    and d': "d' = d\<lparr>stmts := Suc (stmts d), frag_table := upsert r_pid (\<lambda>_ new. new)
         (frag_row_of f wrapped (wall d (stmts d))) (frag_table d)\<rparr>"
  show ?thesis using assms(1,2) d
    unfolding d' rows_guarded_def genuine_def
    by (auto simp: upsert_replace_set) (auto simp: frag_row_of_def)
next
  fix err assume "d' = d \<or> d' = d\<lparr>stmts := Suc (stmts d)\<rparr>"
  with assms(1) show ?thesis by (auto simp: rows_guarded_def)
qed

lemma members_changed_guarded:
  assumes "rows_guarded gid S d" "members_changed d d'" shows "rows_guarded gid S d'"
proof -
  from assms(2) obtain n u where d': "d' = d\<lparr>stmts := n, frag_table := u\<rparr>"
    and u: "list_all2 same_but_members (frag_table d) u" by (auto simp: members_changed_def)
  show ?thesis
  proof (rule rows_guarded_cong [OF _ _ assms(1)])
    fix x assume "x \<in> set (frag_table d')"
    then have "x \<in> set u" by (simp add: d')
    with u obtain y where "y \<in> set (frag_table d)" "same_but_members y x"
      by (metis in_set_conv_nth list_all2_conv_all_nth)
    then show "\<exists>y \<in> set (frag_table d). r_group y = r_group x \<and> r_pid y = r_pid x \<and>
      r_wrapped y = r_wrapped x \<and> r_ciphertext y = r_ciphertext x" by (auto simp: same_but_members_def)
  qed (simp add: d')
qed

lemma put_manifest_all:
  assumes "manifests_all Q d" "Q (mf_group m) (mf_threshold m)" "put_manifest m d = (r, d')"
  shows "manifests_all Q d'"
  using assms(3)
proof (rule put_manifest_cases)
  let ?r = "manifest_row_of (if mf_kind m = [] then m\<lparr>mf_kind := ''secret''\<rparr> else m) (wall d (stmts d))"
  assume d': "d' = d\<lparr>stmts := Suc (stmts d), manifest_table := upsert w_name keep_created ?r (manifest_table d)\<rparr>"
  define row where "row = ?r"
  have r: "Q (w_group row) (w_threshold row)" "w_group (keep_created x row) = w_group row"
    "w_threshold (keep_created x row) = w_threshold row" for x
    using assms(2) by (simp_all add: row_def manifest_row_of_def keep_created_def)
  have "Q (w_group x) (w_threshold x)" if "x \<in> set (upsert w_name keep_created row (manifest_table d))" for x
    using subsetD [OF manifest_rows.set_upsert that] assms(1) r unfolding manifests_all_def by (auto simp: r(2,3))
  then show ?thesis unfolding manifests_all_def d' row_def by simp
next
  assume "d' = d\<lparr>stmts := Suc (stmts d)\<rparr>"
  with assms(1) show ?thesis by (simp add: manifests_all_def)
qed

lemma same_tables_guarded:
  "same_tables d d' \<Longrightarrow> rows_guarded gid S d' = rows_guarded gid S d"
  "same_tables d d' \<Longrightarrow> manifests_all Q d' = manifests_all Q d"
  by (simp_all add: same_tables_def same_engine_def rows_guarded_def manifests_all_def)

lemma scanned_manifest: "manifests_all Q d \<Longrightarrow> x \<in> set (manifest_table d) \<Longrightarrow> scan_manifest x = Inr m \<Longrightarrow>
    Q (mf_group m) (mf_threshold m)"
  by (auto simp: manifests_all_def scan_manifest_def split: sum.splits)

text \<open>The other tables do not matter to either part.\<close>

lemma other_tables_guarded:
  "delete_fragment pid d = (r, d') \<Longrightarrow> rows_guarded gid S d \<Longrightarrow> rows_guarded gid S d'"
  "delete_fragment pid d = (r, d') \<Longrightarrow> manifests_all Q d' = manifests_all Q d"
  by (auto elim!: delete_fragment_cases simp: rows_guarded_def manifests_all_def delete_rows_def)

lemma put_fragment_manifests: "put_fragment f d e = (r, d', e') \<Longrightarrow> manifest_table d' = manifest_table d"
  by (erule put_fragment_cases) auto

lemma members_changed_manifests: "members_changed d d' \<Longrightarrow> manifest_table d' = manifest_table d"
  by (auto simp: members_changed_def)

lemma drawn_simps [simp]: "drawn_id (set_db i d w) = drawn_id w" "drawn_id (w\<lparr>w_orch := o2\<rparr>) = drawn_id w"
    "drawn_id (w\<lparr>w_calls := c\<rparr>) = drawn_id w"
    "drawn_id (set_node i ((w_nodes w i)\<lparr>n_chains := cs, n_watch := wd\<rparr>) w) = drawn_id w"
    "drawn_id (set_entropy i ((n_entropy (w_nodes w i))\<lparr>draws := k\<rparr>) w) = drawn_id w"
  by (auto simp: drawn_id_def fun_eq_iff)

lemma random_id_Inr:
  "random_id 16 (n_entropy (w_nodes w i)) = (Inr g, e) \<Longrightarrow>
   g = drawn_id w i (draws (n_entropy (w_nodes w i))) \<and> e = (n_entropy (w_nodes w i))\<lparr>draws := Suc (draws (n_entropy (w_nodes w i)))\<rparr>"
  by (auto simp: random_id_def drawn_id_def dest: rand_read_Inr split: prod.splits sum.splits)

interpretation group: custody "guarded gid t S" "genuine gid S" "\<lambda>g th. g = gid \<longrightarrow> th = t" "\<lambda>g. g \<noteq> gid"
  for gid t S
proof unfold_locales
  fix w i k assume "guarded gid t S w" "draws (n_entropy (w_nodes w i)) \<le> k"
  then show "guarded gid t S (set_entropy i ((n_entropy (w_nodes w i))\<lparr>draws := k\<rparr>) w)"
    by (simp add: guarded_def not_redrawn_def)
next
  fix w i d assume "guarded gid t S w" "same_tables (n_db (w_nodes w i)) d"
  then show "guarded gid t S (set_db i d w)"
    using guarded_db same_tables_guarded by (blast intro: guarded_set_db)
next
  fix w f i e r d and e' :: entropy
  assume g: "guarded gid t S w" and p: "put_fragment f (n_db (w_nodes w i)) e = (r, d, e')"
    and f: "genuine gid S (f_group f) (f_pid f) (f_key f) (f_ciphertext f)"
  note db = guarded_db [OF g, of i]
  show "guarded gid t S (set_db i d w)"
    using db put_fragment_guarded [OF _ f p] put_fragment_manifests [OF p]
    by (intro guarded_set_db [OF g]) (simp_all add: manifests_all_def)
next
  fix w pid i r d
  assume g: "guarded gid t S w" and p: "delete_fragment pid (n_db (w_nodes w i)) = (r, d)"
  from guarded_db [OF g, of i] other_tables_guarded [OF p] show "guarded gid t S (set_db i d w)"
    by (intro guarded_set_db [OF g]) auto
next
  fix w i d
  assume g: "guarded gid t S w" and p: "members_changed (n_db (w_nodes w i)) d"
  from guarded_db [OF g, of i] members_changed_guarded [OF _ p] members_changed_manifests [OF p]
  show "guarded gid t S (set_db i d w)"
    by (intro guarded_set_db [OF g]) (simp_all add: manifests_all_def)
next
  fix w m i r d
  assume g: "guarded gid t S w" and p: "put_manifest m (n_db (w_nodes w i)) = (r, d)"
    and m: "mf_group m = gid \<longrightarrow> mf_threshold m = t"
  from guarded_db [OF g, of i] put_manifest_all [where Q = "\<lambda>g th. g = gid \<longrightarrow> th = t", OF _ m p] put_manifest_rows [OF p]
  show "guarded gid t S (set_db i d w)"
    by (intro guarded_set_db [OF g]) (simp_all add: rows_guarded_def)
next
  fix w y i m
  assume "guarded gid t S w" "y \<in> set (manifest_table (n_db (w_nodes w i)))" "scan_manifest y = Inr m"
  then show "mf_group m = gid \<longrightarrow> mf_threshold m = t" using guarded_db scanned_manifest by blast
next
  fix w mp i r d
  assume g: "guarded gid t S w" and p: "put_mesh_peer mp (n_db (w_nodes w i)) = (r, d)"
  from guarded_db [OF g, of i] put_mesh_peer_rows [OF p] show "guarded gid t S (set_db i d w)"
    by (intro guarded_set_db [OF g]) (simp_all add: rows_guarded_def manifests_all_def)
next
  fix w x i f
  assume "guarded gid t S w" "x \<in> set (frag_table (n_db (w_nodes w i)))"
    "scan_fragment (storage_key (n_db (w_nodes w i))) x = Inr f"
  then show "genuine gid S (f_group f) (f_pid f) (f_key f) (f_ciphertext f)"
    using guarded_db [of gid t S w i] unfolding rows_guarded_def genuine_def
    by (auto simp: scan_fragment_def split: sum.splits)
next
  fix g pid key ct p key' pid' e ct' and e' :: entropy
  assume "genuine gid S g pid key ct" "decrypt key ct (share_aad g pid) = Inr p"
    "encrypt key' p (share_aad g pid') e = (Inr ct', e')"
  then show "genuine gid S g pid' key' ct'"
    unfolding genuine_def using aead.open_seal by (metis Inr_inject)
next
  fix w i g e assume "guarded gid t S w" "random_id 16 (n_entropy (w_nodes w i)) = (Inr g, e)"
  then show "g \<noteq> gid" by (auto simp: guarded_def not_redrawn_def dest: random_id_Inr)
qed (auto simp: guarded_def not_redrawn_def genuine_def)

section \<open>From Split to Reconstruct\<close>

interpretation quiet: messaging "\<lambda>w. w_nodes w = N" for N
  by unfold_locales simp_all

lemma bindr_Inr: "bindr m f w = (Inr y, w') \<Longrightarrow> \<exists>x w1. m w = (Inr x, w1) \<and> f x w1 = (Inr y, w')"
  by (auto simp: bindr_def split: prod.splits sum.splits)

lemma on_rand_Inr: "on_rand i f w = (Inr x, w') \<Longrightarrow>
    \<exists>e. f (n_entropy (w_nodes w i)) = (Inr x, e) \<and> w' = set_entropy i e w"
  by (auto simp: on_rand_def set_entropy_def Let_def split: prod.splits)

lemma on_db_Inr: "on_db i f w = (Inr x, w') \<Longrightarrow>
    \<exists>d. f (n_db (w_nodes w i)) = (Inr x, d) \<and> w' = set_db i d w"
  by (auto simp: on_db_def set_db_def Let_def split: prod.splits)

text \<open>A group identifier is fresh when no node has rows under it and only one draw gives it.\<close>

definition fresh_group_id :: "string \<Rightarrow> world \<Rightarrow> bool" where
  "fresh_group_id gid w \<longleftrightarrow>
     (\<forall>i. \<forall>x \<in> set (frag_table (n_db (w_nodes w i))). r_group x \<noteq> gid) \<and>
     (\<forall>i. \<forall>x \<in> set (manifest_table (n_db (w_nodes w i))). w_group x \<noteq> gid) \<and>
     (\<forall>i j k l. drawn_id w i k = gid \<longrightarrow> drawn_id w j l = gid \<longrightarrow> i = j \<and> k = l)"

lemma fresh_guarded:
  assumes "fresh_group_id gid w" "\<And>j. n_db (w_nodes w' j) = n_db (w_nodes w j)" "drawn_id w' = drawn_id w"
    "drawn_id w i k = gid" "\<And>j. j = i \<Longrightarrow> k < draws (n_entropy (w_nodes w' j))"
  shows "guarded gid t S w'"
proof -
  have "not_redrawn gid w'" unfolding not_redrawn_def
  proof (intro allI impI notI)
    fix j l assume "draws (n_entropy (w_nodes w' j)) \<le> l" "drawn_id w' j l = gid"
    moreover from this have "j = i" "l = k" using assms(1,3,4) unfolding fresh_group_id_def by auto
    ultimately show False using assms(5) [of j] by simp
  qed
  then show ?thesis using assms(1,2)
    by (auto simp: guarded_def rows_guarded_def manifests_all_def fresh_group_id_def)
qed

lemma genuine_seals: "share \<in> S \<Longrightarrow> group.seals gid S g share"
  unfolding group.seals_def genuine_def using aead.open_seal by (metis Inr_inject)

text \<open>What \<open>Split\<close> does once it has drawn the group identifier.\<close>

definition split_rest :: "packages \<Rightarrow> nat \<Rightarrow> string \<Rightarrow> int \<Rightarrow> int \<Rightarrow> node_info list \<Rightarrow> share list \<Rightarrow> string \<Rightarrow> unit act" where
  "split_rest X i name t n peers shares gid =
     bindr (on_rand i (random_id 32)) (\<lambda>groupToken.
        with_node i (\<lambda>nd.
        bindr (draw_holders i ((n_id nd, n_endpoint nd) # map (\<lambda>p. (ni_node p, ni_endpoint p)) peers)) (\<lambda>holders.
        let g = \<lparr>g_id = gid, g_token = groupToken, g_threshold = t, g_total = n,
                 g_members = map member_of_holder holders\<rparr> in
        bindr (keep_share X i g (hd holders) (hd shares)) (\<lambda>_.
        bindr (send_shares i g (zip (tl holders) (tl shares))) (\<lambda>_.
        on_db i (put_manifest (manifest_of_group name ''secret'' g)))))))"

lemma split_op_phases: "split_op X i name data t n =
    (if n < 2 then ret (Inl ErrTotal)
     else bindr (reachable_peers i (n - 1)) (\<lambda>peers. bindr (on_rand i (split_secret data n t)) (\<lambda>shares.
       bindr (on_rand i (random_id 16)) (split_rest X i name t n peers shares))))"
  unfolding split_op_def split_rest_def [abs_def] ..

lemma split_rest_guarded:
  assumes "shares \<noteq> []" shows "yields (guarded gid t (set shares)) (split_rest X i name t n peers shares gid) any"
  unfolding split_rest_def Let_def
  by (rule yields_seq [OF group.on_rand_any [OF advances_random_id]], rule yields_with_node,
        rule yields_seq [OF group.draw_holders_any], rule group.group_tail_any) (use assms in \<open>auto intro: genuine_seals simp del: draw_holders.simps\<close>)

lemma bindr_reach: "bindr m f w = (Inr y, w') \<Longrightarrow> yields I m any \<Longrightarrow> I w \<Longrightarrow>
    \<exists>x w1. I w1 \<and> f x w1 = (Inr y, w')"
  using bindr_Inr yieldsD(1) by metis

lemma split_rest_manifest:
  assumes "split_rest X i name t n peers shares gid w = (Inr (), w')" "nodes_wf w"
  shows "\<exists>m. manifests_of (n_db (w_nodes w' i)) name = Some m \<and> mf_group m = gid \<and> mf_threshold m = t"
proof -
  from bindr_reach [OF assms(1) [unfolded split_rest_def] wf.on_rand_any [OF advances_random_id] assms(2)]
  obtain tok w1 where w1: "nodes_wf w1" and r1: "with_node i (\<lambda>nd.
        bindr (draw_holders i ((n_id nd, n_endpoint nd) # map (\<lambda>p. (ni_node p, ni_endpoint p)) peers)) (\<lambda>holders.
        let g = \<lparr>g_id = gid, g_token = tok, g_threshold = t, g_total = n,
                 g_members = map member_of_holder holders\<rparr> in
        bindr (keep_share X i g (hd holders) (hd shares)) (\<lambda>_.
        bindr (send_shares i g (zip (tl holders) (tl shares))) (\<lambda>_.
        on_db i (put_manifest (manifest_of_group name ''secret'' g)))))) w1 = (Inr (), w')" by blast
  from bindr_reach [OF r1 [unfolded with_node_def] wf.draw_holders_any w1]
  obtain hs w2 where w2: "nodes_wf w2" and r2: "(let g = \<lparr>g_id = gid, g_token = tok, g_threshold = t, g_total = n,
                 g_members = map member_of_holder hs\<rparr> in
        bindr (keep_share X i g (hd hs) (hd shares)) (\<lambda>_.
        bindr (send_shares i g (zip (tl hs) (tl shares))) (\<lambda>_.
        on_db i (put_manifest (manifest_of_group name ''secret'' g))))) w2 = (Inr (), w')" by blast
  have seals: "wf.seals g s" for g s by (simp add: wf.seals_def)
  let ?g = "\<lparr>g_id = gid, g_token = tok, g_threshold = t, g_total = n, g_members = map member_of_holder hs\<rparr>"
  from bindr_reach [OF r2 [unfolded Let_def] wf.keep_share_any [OF seals] w2]
  obtain w3 where w3: "nodes_wf w3" and r3: "bindr (send_shares i ?g (zip (tl hs) (tl shares))) (\<lambda>_.
        on_db i (put_manifest (manifest_of_group name ''secret'' ?g))) w3 = (Inr (), w')" by blast
  from bindr_reach [OF r3 wf.send_shares_any [OF seals] w3]
  obtain w4 where w4: "nodes_wf w4" and r4: "on_db i (put_manifest (manifest_of_group name ''secret'' ?g)) w4 = (Inr (), w')"
    by blast
  from on_db_Inr [OF r4] obtain d where
    d: "put_manifest (manifest_of_group name ''secret'' ?g) (n_db (w_nodes w4 i)) = (Inr (), d)" "w' = set_db i d w4" by blast
  from put_manifest_map [OF nodes_wf_db [OF w4] d(1)] d(2) show ?thesis by (simp add: manifest_of_group_def)
qed

text \<open>
  \<open>Split\<close> draws its coefficients, one read per byte of the secret, and then the group identifier.
  After a success the splitter's manifest names that group, and if the identifier was fresh, the
  group is guarded by the shares that were dealt.
\<close>

definition split_group_id :: "nat \<Rightarrow> bytes \<Rightarrow> world \<Rightarrow> string" where
  "split_group_id i data w = drawn_id w i (draws (n_entropy (w_nodes w i)) + length data)"

lemma group_drawn:
  assumes "on_rand i (split_secret data n t) w = (Inr shares, w2)" "on_rand i (random_id 16) w2 = (Inr gid, w3)"
  shows "gid = split_group_id i data w"
proof -
  from on_rand_Inr [OF assms(1)] obtain e where e: "split_secret data n t (n_entropy (w_nodes w i)) = (Inr shares, e)"
    "w2 = set_entropy i e w" by blast
  from on_rand_Inr [OF assms(2)] e obtain e3 where "random_id 16 (n_entropy (w_nodes w2 i)) = (Inr gid, e3)" by blast
  from random_id_Inr [OF this] split_Inr(3) [OF e(1)] e(2) show ?thesis
    by (simp add: split_group_id_def drawn_id_def)
qed

lemma split_draws:
  assumes "reachable_peers i need w = (Inr peers, w1)" "on_rand i (split_secret data n t) w1 = (Inr shares, w2)"
    "on_rand i (random_id 16) w2 = (Inr gid, w3)"
  shows "gid = split_group_id i data w"
proof -
  have "w_nodes w1 = w_nodes w" by (rule yieldsD(1) [OF quiet.reachable_peers_any refl assms(1)])
  then have "split_group_id i data w1 = split_group_id i data w" by (simp add: split_group_id_def drawn_id_def)
  with group_drawn [OF assms(2,3)] show ?thesis by simp
qed

lemma split_reaches:
  assumes s: "split_op X i name data t n w = (Inr (), w')"
  shows "\<exists>peers shares e e' w3. split_secret data n t e = (Inr shares, e') \<and> shares \<noteq> [] \<and>
    split_rest X i name t n peers shares (split_group_id i data w) w3 = (Inr (), w') \<and>
    (\<forall>j. n_db (w_nodes w3 j) = n_db (w_nodes w j)) \<and> drawn_from w w3 \<and>
    draws (n_entropy (w_nodes w3 i)) = Suc (draws (n_entropy (w_nodes w i)) + length data)"
proof -
  from s have n: "\<not> n < 2" by (auto simp: split_op_phases ret_def)
  from bindr_Inr [OF s [unfolded split_op_phases if_not_P [OF n]]] obtain peers w1 where
    w1: "reachable_peers i (n - 1) w = (Inr peers, w1)" and s1: "bindr (on_rand i (split_secret data n t)) (\<lambda>shares.
       bindr (on_rand i (random_id 16)) (split_rest X i name t n peers shares)) w1 = (Inr (), w')" by blast
  have nodes1: "w_nodes w1 = w_nodes w" by (rule yieldsD(1) [OF quiet.reachable_peers_any refl w1])
  from bindr_Inr [OF s1] obtain shares w2 where
    w2: "on_rand i (split_secret data n t) w1 = (Inr shares, w2)" and s2:
    "bindr (on_rand i (random_id 16)) (split_rest X i name t n peers shares) w2 = (Inr (), w')" by blast
  from on_rand_Inr [OF w2] obtain e where e: "split_secret data n t (n_entropy (w_nodes w i)) = (Inr shares, e)"
    "w2 = set_entropy i e w1" unfolding nodes1 by blast
  from bindr_Inr [OF s2] obtain gid w3 where
    w3: "on_rand i (random_id 16) w2 = (Inr gid, w3)" and s3: "split_rest X i name t n peers shares gid w3 = (Inr (), w')"
    by blast
  from on_rand_Inr [OF w3] obtain e3 where e3: "random_id 16 (n_entropy (w_nodes w2 i)) = (Inr gid, e3)"
    "w3 = set_entropy i e3 w2" by blast
  note gid = split_draws [OF w1 w2 w3]
  have dbs: "n_db (w_nodes w3 j) = n_db (w_nodes w j)" for j using e(2) e3(2) nodes1 by simp
  have "drawn_from w w1" using nodes1 by (simp add: drawn_from_def)
  from yieldsD(1) [OF tapes.on_rand_any [OF advances_random_id] yieldsD(1) [OF tapes.on_rand_any [OF advances_split] this w2] w3]
  have "drawn_from w w3" .
  moreover have "draws (n_entropy (w_nodes w3 i)) = Suc (draws (n_entropy (w_nodes w i)) + length data)"
    using random_id_Inr [OF e3(1)] e3(2) e split_Inr(3) [OF e(1)] by simp
  moreover have "shares \<noteq> []" using shamir.count [OF e(1)] n by auto
  ultimately show ?thesis using e(1) s3 dbs unfolding gid by blast
qed

lemma split_establishes:
  assumes s: "split_op X i name data t n w = (Inr (), w')" and wf: "nodes_wf w"
  shows "(\<exists>m. manifests_of (n_db (w_nodes w' i)) name = Some m \<and> mf_group m = split_group_id i data w \<and>
    mf_threshold m = t) \<and>
    (\<exists>shares e e'. split_secret data n t e = (Inr shares, e') \<and>
    (fresh_group_id (split_group_id i data w) w \<longrightarrow> guarded (split_group_id i data w) t (set shares) w'))"
proof -
  let ?gid = "split_group_id i data w"
  from split_reaches [OF s] obtain peers shares e e' w3 where deal: "split_secret data n t e = (Inr shares, e')" "shares \<noteq> []"
    and s3: "split_rest X i name t n peers shares ?gid w3 = (Inr (), w')"
    and dbs: "\<And>j. n_db (w_nodes w3 j) = n_db (w_nodes w j)" and tape: "drawn_from w w3"
    and d: "draws (n_entropy (w_nodes w3 i)) = Suc (draws (n_entropy (w_nodes w i)) + length data)" by blast
  have wf3: "nodes_wf w3" using wf dbs by (simp add: nodes_wf_def)
  have "guarded ?gid t (set shares) w'" if f: "fresh_group_id ?gid w"
  proof (rule yieldsD(1) [OF split_rest_guarded [OF deal(2)] _ s3])
    have "drawn_id w3 = drawn_id w" using tape by (intro ext) (simp add: drawn_id_def drawn_from_def)
    then show "guarded ?gid t (set shares) w3"
      by (rule fresh_guarded [OF f dbs]) (use d in \<open>auto simp: split_group_id_def\<close>)
  qed
  with split_rest_manifest [OF s3 wf3] deal(1) show ?thesis by blast
qed

text \<open>A successful \<open>Split\<close> brings one new group into the tables.\<close>

lemma split_groups:
  assumes "split_op X i name data t n w = (Inr (), w')" "groups_within S w"
  shows "groups_within (insert (split_group_id i data w) S) w'" "drawn_from w w'"
    "draws (n_entropy (w_nodes w i)) + length data < draws (n_entropy (w_nodes w' i))"
proof -
  let ?gid = "split_group_id i data w"
  from split_reaches [OF assms(1)] obtain peers shares w3 where
    s3: "split_rest X i name t n peers shares ?gid w3 = (Inr (), w')"
    and dbs: "\<And>j. n_db (w_nodes w3 j) = n_db (w_nodes w j)" and tape: "drawn_from w w3"
    and d: "draws (n_entropy (w_nodes w3 i)) = Suc (draws (n_entropy (w_nodes w i)) + length data)" by blast
  have "yields (groups_within (insert ?gid S)) (split_rest X i name t n peers shares ?gid) any"
    unfolding split_rest_def Let_def
    by (rule yields_seq [OF groups.on_rand_any [OF advances_random_id]], rule yields_with_node,
        rule yields_seq [OF groups.draw_holders_any], rule groups.group_tail_any) (simp_all only: groups.seals_def, simp_all)
  moreover have "groups_within (insert ?gid S) w3" using assms(2) dbs by (simp add: groups_within_def)
  ultimately show "groups_within (insert ?gid S) w'" using s3 by (rule yieldsD(1))
  have seals: "tapes.seals g s" for g s by (simp add: tapes.seals_def)
  have y: "yields (drawn_from w0) (split_rest X i name t n peers shares ?gid) any" for w0
    unfolding split_rest_def Let_def
    by (rule yields_seq [OF tapes.on_rand_any [OF advances_random_id]], rule yields_with_node,
        rule yields_seq [OF tapes.draw_holders_any], rule tapes.group_tail_any) (simp_all add: seals)
  from yieldsD(1) [OF y tape s3] show "drawn_from w w'" .
  have "drawn_from w3 w3" by (simp add: drawn_from_def)
  from yieldsD(1) [OF y this s3] d show "draws (n_entropy (w_nodes w i)) + length data < draws (n_entropy (w_nodes w' i))"
    by (simp add: drawn_from_def) (metis Suc_le_lessD)
qed

lemma get_manifest_names:
  assumes "db_wf d" "manifests_of d name = Some m" "get_manifest name d = (Inr m', d')" shows "m' = m"
  using assms(3)
proof (rule get_manifest_Inr)
  fix x assume "x \<in> set (manifest_table d)" "w_name x = name" "scan_manifest x = Inr m'"
  with assms(1,2) row_at_member [of w_name "manifest_table d" x] show ?thesis
    by (simp add: manifests_of_def db_wf_def)
qed

text \<open>In a guarded world \<open>Reconstruct\<close> gives the secret or an error.\<close>

lemma reconstruct_guarded:
  assumes g: "guarded gid t (set shares) w" and wf: "nodes_wf w" and deal: "split_secret data n t e = (Inr shares, e')"
    and m: "manifests_of (n_db (w_nodes w i)) name = Some m" "mf_group m = gid"
    and r: "reconstruct i name w = (r, w')"
  shows "r = Inr data \<or> (\<exists>err. r = Inl err)"
proof (cases r)
  case (Inr out)
  from bindr_Inr [OF r [unfolded reconstruct_def Inr]] obtain m' w1 where
    m': "on_db i (get_manifest name) w = (Inr m', w1)" and r1: "(if \<not> cap_ok (mf_threshold m') then ret (Inl (Panic ''makeslice: cap out of range''))
     else with_node i (\<lambda>n.
       bindr (gather i (n_id n) m' (mf_members m') []) (\<lambda>shares.
       ret (if int (length shares) < mf_threshold m' then Inl ErrSharesAvailable else combine shares)))) w1 = (Inr out, w')"
    by blast
  from on_db_Inr [OF m'] obtain d where d: "get_manifest name (n_db (w_nodes w i)) = (Inr m', d)" "w1 = set_db i d w" by blast
  have "m' = m" using get_manifest_names [OF nodes_wf_db [OF wf] m(1) d(1)] .
  from d(1) have t: "mf_threshold m' = t"
  proof (rule get_manifest_Inr)
    fix x assume "x \<in> set (manifest_table (n_db (w_nodes w i)))" "scan_manifest x = Inr m'"
    with guarded_db [OF g, of i] m(2) \<open>m' = m\<close> show ?thesis
      by (auto simp: manifests_all_def scan_manifest_def split: sum.splits)
  qed
  have g1: "guarded gid t (set shares) w1"
    using group.untouched [OF g] d get_manifest_keeps by blast
  from r1 obtain got w2 where got: "gather i (n_id (w_nodes w1 i)) m' (mf_members m') [] w1 = (Inr got, w2)"
    and out: "\<not> int (length got) < t" "combine got = Inr out"
    by (auto simp: t with_node_def ret_def split: if_splits dest!: bindr_Inr)
  have "\<forall>s \<in> set got. group.opens gid (set shares) gid s"
    using yieldsD(2) [OF group.gather_yields g1 got] m(2) \<open>m' = m\<close> by simp
  then have "set got \<subseteq> set shares" by (auto simp: group.opens_def genuine_def)
  from shamir.recover_or_refuse [OF deal this] out Inr show ?thesis by auto
qed blast

end
