(* ===== verification/Panics.thy ===== *)
theory Panics
  imports World
begin

text \<open>
  Panics. An operation that panics ends its process; here it gives \<open>Inl (Panic msg)\<close>. Everything
  but \<open>Reconstruct\<close> is calm, it never panics in any world; \<open>Reconstruct\<close> is calm while the stored
  thresholds are ones that \<open>Split\<close> accepts, an invariant of the system. So no node goes down by a
  panic, and the background cycles always run to their end.
\<close>

section \<open>Results and operations that do not panic\<close>

definition lives :: "'a res \<Rightarrow> bool" where
  "lives r \<longleftrightarrow> died r = None"

lemma lives_simps [simp]: "lives (Inr x)" "\<not> lives (Inl (Panic msg))" "(\<And>msg. err \<noteq> Panic msg) \<Longrightarrow> lives (Inl err)"
  by (simp_all add: lives_def)

lemma lives_Inl: "lives (Inl err :: 'b res) \<Longrightarrow> lives (Inl err :: 'a res)"
  by (auto simp: lives_def died_def split: goerr.splits)

lemma lives_of: "r = Inl err \<Longrightarrow> lives r \<Longrightarrow> lives (Inl err)"
  by (auto intro: lives_Inl)

lemma lives_case: "lives r \<Longrightarrow> (\<And>x. lives (g x)) \<Longrightarrow> lives (case r of Inl err \<Rightarrow> Inl err | Inr x \<Rightarrow> g x)"
  by (cases r) (auto intro: lives_Inl)

lemma lives_case_pair: "lives (fst p) \<Longrightarrow> (\<And>x d. lives (fst (g x d))) \<Longrightarrow>
    lives (fst (case p of (Inl err, d) \<Rightarrow> (Inl err, k d) | (Inr x, d) \<Rightarrow> g x d))"
  by (cases p; cases "fst p") (auto intro: lives_Inl)

definition calm :: "'a act \<Rightarrow> bool" where
  "calm m \<longleftrightarrow> (\<forall>w. lives (fst (m w)))"

named_theorems calm_intros

lemma calmD: "calm m \<Longrightarrow> m w = (r, w') \<Longrightarrow> lives r"
  by (metis calm_def fst_conv)

lemma calm_ret [calm_intros]: "lives r \<Longrightarrow> calm (ret r)"
  by (simp add: calm_def ret_def)

lemma calm_bindr [calm_intros]:
  assumes "calm m" "\<And>x. calm (f x)" shows "calm (bindr m f)"
  using assms unfolding calm_def bindr_def
  by (auto split: prod.split sum.split) (metis fst_conv lives_Inl)

lemma calm_attempt [calm_intros]: "calm m \<Longrightarrow> (\<And>r. calm (f r)) \<Longrightarrow> calm (attempt m f)"
  unfolding calm_def attempt_def
  by (auto split: prod.split option.split simp: died_Some) (metis fst_conv lives_simps(2))

lemma calm_with_node [calm_intros]: "(\<And>n. calm (f n)) \<Longrightarrow> calm (with_node i f)"
  by (simp add: calm_def with_node_def)

lemma calm_for_each [calm_intros]: "(\<And>x. calm (f x)) \<Longrightarrow> calm (for_each f xs)"
  by (induction xs) (auto intro: calm_intros)

lemma calm_on_db [calm_intros]: "(\<And>d. lives (fst (f d))) \<Longrightarrow> calm (on_db i f)"
  by (auto simp: calm_def on_db_def Let_def split: prod.split) (metis fst_conv)

lemma calm_on_db_rand [calm_intros]: "(\<And>d e. lives (fst (f d e))) \<Longrightarrow> calm (on_db_rand i f)"
  by (auto simp: calm_def on_db_rand_def Let_def split: prod.split) (metis fst_conv)

lemma calm_on_rand [calm_intros]: "(\<And>e. lives (fst (f e))) \<Longrightarrow> calm (on_rand i f)"
  by (auto simp: calm_def on_rand_def Let_def split: prod.split) (metis fst_conv)

lemma calm_if [calm_intros]: "calm m \<Longrightarrow> calm m' \<Longrightarrow> calm (if b then m else m')"
  by simp

lemma calm_case_sum [calm_intros]: "(\<And>x. calm (f x)) \<Longrightarrow> (\<And>x. calm (g x)) \<Longrightarrow> calm (case r of Inl x \<Rightarrow> f x | Inr x \<Rightarrow> g x)"
  by (simp split: sum.split)

lemma calm_case_option [calm_intros]: "calm m \<Longrightarrow> (\<And>x. calm (g x)) \<Longrightarrow> calm (case r of None \<Rightarrow> m | Some x \<Rightarrow> g x)"
  by (simp split: option.split)

lemma calm_after [calm_intros]: "calm m \<Longrightarrow> calm (\<lambda>w. m (g w))"
  by (simp add: calm_def)

section \<open>The libraries below the node\<close>

lemma lives_rand [simp]: "lives (fst (rand_read n e))"
  by (simp add: rand_read_def)

lemma lives_random_id [simp]: "lives (fst (random_id n e))"
  by (auto simp: random_id_def rand_read_def)

lemma lives_encrypt [simp]: "lives (fst (encrypt k p a e))"
  by (auto simp: encrypt_def rand_read_def)

lemma lives_decrypt [simp]: "lives (decrypt k c a)"
  by (auto simp: decrypt_def split: option.split)

lemma lives_chain [simp]: "lives (fst (build_chain len e))"
  by (auto simp: build_chain_def rand_read_def Let_def)

lemma lives_root [simp]: "lives (derive_fragment_root X k s)"
  by (auto simp: derive_fragment_root_def hkdf_expand_def split: option.split)

lemma lives_advance [simp]: "lives (advance X k s l)"
  by (auto simp: advance_def hkdf_expand_def split: option.split)

lemma lives_split_loop: "lives (fst (split_loop n t secret j out e))"
  by (induction secret arbitrary: j out e) (auto simp: rand_read_def Let_def)

lemma lives_split [simp]: "lives (fst (split_secret data n t e))"
  using lives_split_loop by (auto simp: split_secret_def Let_def)

lemma lives_combine [simp]: "lives (combine shares)"
  using combine_total [of shares] by auto

lemma lives_query [simp]: "lives (fst (query_row rows d))" "lives (fst (query_rows rows d))"
  by (auto simp: query_row_def query_rows_def Let_def split: list.split)

lemma lives_exec [simp]: "lives (fst (exec f d))"
  by (simp add: exec_def Let_def)

lemma lives_members [simp]: "lives (unmarshal_members c)"
  by (simp add: unmarshal_members_def split: json_column.split)

lemma lives_scans [simp]: "lives (scan_fragment k x)" "lives (scan_manifest y)"
  unfolding scan_fragment_def scan_manifest_def by (simp_all add: lives_case)

lemma lives_scan_manifests [simp]: "lives (scan_manifests rows)"
  by (induction rows) (simp_all add: lives_case)

lemma lives_sibling_updates [simp]: "lives (sibling_updates oldPID newPID ep rows)"
  by (induction rows) (simp_all add: lives_case)

lemma lives_write_updates [simp]: "lives (fst (write_updates us d))"
  by (induction us arbitrary: d) (auto intro!: lives_case_pair)

lemma lives_put_fragment [simp]: "lives (fst (put_fragment f d e))"
proof -
  have "lives (fst (case exec h d of (r, d') \<Rightarrow> (r, d', e')))" for h and e' :: entropy
    using lives_exec [of h d] by (cases "exec h d") simp
  then show ?thesis unfolding put_fragment_def by (intro lives_case_pair lives_encrypt) simp
qed

lemma lives_get_where [simp]: "lives (fst (get_fragment_where p d))" "lives (fst (get_manifest_where q d))"
  unfolding get_fragment_where_def get_manifest_where_def by (intro lives_case_pair lives_query; simp)+

lemma lives_put_manifest [simp]: "lives (fst (put_manifest m d))"
  by (simp add: put_manifest_def Let_def)

lemma lives_store [simp]:
  "lives (fst (get_fragment pid d))" "lives (fst (get_fragment_by_group g d))" "lives (fst (delete_fragment pid d))"
  "lives (fst (update_sibling g oldPID newPID ep d))" "lives (fst (list_fragment_pids d))"
  "lives (fst (get_manifest name d))" "lives (fst (list_manifests_by_kind kind d))"
  "lives (fst (update_manifest_member g oldPID newPID ep d))" "lives (fst (put_mesh_peer mp d))"
  "lives (fst (list_mesh_peers d))"
proof -
  show "lives (fst (update_sibling g oldPID newPID ep d))"
    unfolding update_sibling_def
    by (intro lives_case_pair lives_query) (auto split: sum.split intro!: lives_of [OF _ lives_sibling_updates])
  show "lives (fst (list_manifests_by_kind kind d))"
    unfolding list_manifests_by_kind_def by (intro lives_case_pair lives_query) simp
  show "lives (fst (update_manifest_member g oldPID newPID ep d))"
    unfolding update_manifest_member_def get_manifest_by_group_def by (intro lives_case_pair) simp_all
qed (simp_all add: get_fragment_def get_fragment_by_group_def delete_fragment_def list_fragment_pids_def
    get_manifest_def put_mesh_peer_def list_mesh_peers_def)

section \<open>The network\<close>

lemma calm_orch_call [calm_intros]: "calm (orch_call req)"
  by (auto simp: calm_def orch_call_def Let_def split: prod.split option.split)

lemma calm_peer_call [calm_intros]: "calm (peer_call ep req)"
  by (auto simp: calm_def peer_call_def Let_def split: prod.split option.split sum.split)

lemma calm_clients [calm_intros]:
  "calm (client_register rr)" "calm (client_announce a)" "calm (client_heartbeat hb)" "calm (client_ack k)"
  "calm (client_alert al)" "calm list_nodes" "calm (subscribe_events n)"
  unfolding client_register_def client_announce_def client_heartbeat_def client_ack_def client_alert_def orch_post_def
    list_nodes_def subscribe_events_def no_out_def
  by (intro calm_bindr calm_orch_call calm_ret; simp split: orch_body.split)+

lemma calm_peers [calm_intros]:
  "calm (deliver_share ep d)" "calm (ping ep)" "calm (check_presence ep g tok)" "calm (notify_mutation ep n)"
  "calm (fetch_group_share ep g tok)"
  unfolding deliver_share_def ping_def check_presence_def notify_mutation_def fetch_group_share_def ok_status_def
  by (intro calm_bindr calm_peer_call calm_ret; simp split: peer_body.split)+

section \<open>The operations of a node\<close>

lemma calm_register [calm_intros]: "calm (register_new_fragment i pid chainID)"
proof -
  have "calm (attempt (client_announce a) (\<lambda>_. ret (Inr cc)))" for a and cc :: cold_chain
    by (intro calm_attempt calm_clients calm_ret) simp
  note calm_after [OF this]
  then show ?thesis unfolding register_new_fragment_def Let_def
    by (intro calm_bindr calm_with_node calm_on_rand) simp_all
qed

lemma calm_notify [calm_intros]: "calm (notify_siblings i f oldPID newPID)"
  unfolding notify_siblings_def notify_sibling_def
  by (intro calm_for_each calm_with_node calm_if calm_attempt calm_peers calm_ret) simp_all

lemma calm_mutation [calm_intros]: "calm (apply_mutation X i pid seed reason)"
  unfolding apply_mutation_def Let_def
  by (intro calm_bindr calm_on_db calm_on_rand calm_on_db_rand calm_with_node calm_attempt calm_clients calm_notify calm_ret)
     simp_all

lemma calm_get_all [calm_intros]: "calm (get_all i pids)"
  by (induction i pids rule: get_all.induct) (auto intro!: calm_attempt calm_bindr calm_on_db calm_ret)

lemma calm_cold [calm_intros]: "calm (cold_mutate X i pid)"
  unfolding cold_mutate_def
  by (intro calm_bindr calm_on_db calm_with_node)
     (auto split: option.split prod.split intro!: calm_ret calm_after [OF calm_mutation])

lemma calm_event [calm_intros]: "calm (handle_event X i ev)"
  unfolding handle_event_def by (auto split: payload.split intro!: calm_attempt calm_mutation calm_ret)

lemma calm_heartbeats [calm_intros]: "calm (send_heartbeats i)"
  unfolding send_heartbeats_def send_heartbeat_def
  by (intro calm_attempt calm_on_db calm_case_sum calm_for_each calm_with_node calm_clients calm_ret) simp_all

lemma calm_draw_holders [calm_intros]: "calm (draw_holders i ps)"
  by (induction i ps rule: draw_holders.induct) (auto intro!: calm_bindr calm_on_rand calm_ret)

lemma calm_find_reachable: "calm (find_reachable self need nds acc)"
  by (induction self need nds acc rule: find_reachable.induct)
     (auto split: sum.split intro!: calm_attempt calm_peers calm_ret)

lemma calm_reachable [calm_intros]: "calm (reachable_peers i need)"
  unfolding reachable_peers_def
  by (intro calm_with_node calm_bindr calm_clients calm_find_reachable calm_ret) simp

lemma calm_send_shares [calm_intros]: "calm (send_shares i g hss)"
  unfolding send_shares_def send_share_def
  by (intro calm_for_each) (auto split: prod.split intro!: calm_bindr calm_on_rand calm_peers)

lemma calm_keep_share [calm_intros]: "calm (keep_share X i g h share)"
  unfolding keep_share_def
  by (intro calm_bindr calm_on_rand calm_with_node calm_register calm_on_db_rand calm_ret) simp_all

lemma calm_split [calm_intros]: "calm (split_op X i name data t n)"
  unfolding split_op_def Let_def
  by (intro calm_if calm_bindr calm_reachable calm_on_rand calm_with_node calm_draw_holders calm_keep_share
      calm_send_shares calm_on_db calm_ret) simp_all

lemma calm_distribute [calm_intros]: "calm (distribute_backup i label data t ps)"
  unfolding distribute_backup_def Let_def
  by (intro calm_if calm_bindr calm_on_rand calm_draw_holders calm_send_shares calm_on_db calm_ret) simp_all

lemma calm_backup [calm_intros]: "calm (backup_op i label data t)"
  unfolding backup_op_def by (intro calm_bindr calm_on_db calm_distribute) simp

lemma calm_gather: "calm (gather i self m mbs acc)"
  by (induction i self m mbs acc rule: gather.induct)
     (auto split: sum.split intro!: calm_attempt calm_ret calm_bindr calm_on_db calm_peers
       simp: member_share_def local_share_def)

lemma calm_probe [calm_intros]: "calm (probe_members m mems)"
  by (induction m mems rule: probe_members.induct) (auto intro!: calm_attempt calm_bindr calm_peers calm_ret)

lemma calm_ping_peers [calm_intros]: "calm (ping_peers ps)"
  by (induction ps rule: ping_peers.induct) (auto intro!: calm_attempt calm_bindr calm_peers calm_ret)

lemma calm_owned [calm_intros]: "calm (owned_manifests i)"
  unfolding owned_manifests_def by (intro calm_attempt calm_on_db calm_ret) simp_all

section \<open>Thresholds\<close>

definition thresholds_ok :: "world \<Rightarrow> bool" where
  "thresholds_ok w \<longleftrightarrow> (\<forall>i. manifests_all (\<lambda>_ t. 2 \<le> t \<and> t \<le> 255) (n_db (w_nodes w i)))"

lemma thresholds_set_db:
  "thresholds_ok w \<Longrightarrow> manifests_all (\<lambda>_ t. 2 \<le> t \<and> t \<le> 255) d \<Longrightarrow> thresholds_ok (set_db i d w)"
  by (simp add: thresholds_ok_def)

lemma thresholds_same_manifests:
  "thresholds_ok w \<Longrightarrow> manifest_table d = manifest_table (n_db (w_nodes w i)) \<Longrightarrow> thresholds_ok (set_db i d w)"
  by (rule thresholds_set_db) (simp_all add: thresholds_ok_def manifests_all_def)

interpretation valid: custody thresholds_ok "\<lambda>_ _ _ _. True" "\<lambda>_ t. 2 \<le> t \<and> t \<le> 255" "\<lambda>_. True"
proof unfold_locales
  fix w i d assume w: "thresholds_ok w"
  note db = w [unfolded thresholds_ok_def, THEN spec, of i]
  show "thresholds_ok (set_db i d w)" if "same_tables (n_db (w_nodes w i)) d"
    by (rule thresholds_same_manifests [OF w]) (use that in \<open>simp add: same_tables_def\<close>)
  show "thresholds_ok (set_db i d w)" if "put_fragment f (n_db (w_nodes w i)) e = (r, d, e')" for f e r e'
    by (rule thresholds_same_manifests [OF w put_fragment_manifests [OF that]])
  show "thresholds_ok (set_db i d w)" if "delete_fragment pid (n_db (w_nodes w i)) = (r, d)" for pid r
    by (rule thresholds_set_db [OF w]) (use other_tables_guarded(2) [OF that] db in simp)
  show "thresholds_ok (set_db i d w)" if "members_changed (n_db (w_nodes w i)) d"
    by (rule thresholds_same_manifests [OF w members_changed_manifests [OF that]])
  show "thresholds_ok (set_db i d w)" if "put_manifest m (n_db (w_nodes w i)) = (r, d)"
    "2 \<le> mf_threshold m \<and> mf_threshold m \<le> 255" for m r
    by (rule thresholds_set_db [OF w put_manifest_all [OF db that(2,1)]])
  show "2 \<le> mf_threshold m \<and> mf_threshold m \<le> 255" if "y \<in> set (manifest_table (n_db (w_nodes w i)))" "scan_manifest y = Inr m" for y m
    by (rule scanned_manifest [OF db that])
  show "thresholds_ok (set_db i d w)" if "put_mesh_peer mp (n_db (w_nodes w i)) = (r, d)" for mp r
    by (rule thresholds_same_manifests [OF w]) (use put_mesh_peer_rows [OF that] in simp)
qed (simp_all add: thresholds_ok_def)

section \<open>What runs to its end where thresholds are valid\<close>

definition steady :: "'a act \<Rightarrow> bool" where
  "steady m \<longleftrightarrow> (\<forall>w. thresholds_ok w \<longrightarrow> thresholds_ok (snd (m w)) \<and> lives (fst (m w)))"

lemma steady_calm: "calm m \<Longrightarrow> yields thresholds_ok m V \<Longrightarrow> steady m"
  unfolding steady_def calm_def yields_def by (metis prod.collapse)

lemma steadyD: "steady m \<Longrightarrow> thresholds_ok w \<Longrightarrow> m w = (r, w') \<Longrightarrow> thresholds_ok w' \<and> lives r"
  unfolding steady_def by (metis fst_conv snd_conv)

lemma steady_bindr:
  assumes "calm m" "yields thresholds_ok m V" "\<And>x. V x \<Longrightarrow> steady (f x)" shows "steady (bindr m f)"
  unfolding steady_def
proof (intro allI impI)
  fix w assume w: "thresholds_ok w"
  obtain r w1 where r: "m w = (r, w1)" by force
  note y = yieldsD(1) [OF assms(2) w r] calmD [OF assms(1) r]
  show "thresholds_ok (snd (bindr m f w)) \<and> lives (fst (bindr m f w))"
  proof (cases r)
    case (Inr x)
    then have "steady (f x)" using assms(3) yieldsD(2) [OF assms(2) w] r by blast
    with y(1) Inr r show ?thesis by (simp add: bindr_def steady_def)
  qed (use y r in \<open>simp add: bindr_def lives_Inl\<close>)
qed

lemma steady_attempt:
  assumes "steady m" "\<And>r. steady (f r)" shows "steady (attempt m f)"
  unfolding steady_def
proof (intro allI impI)
  fix w assume w: "thresholds_ok w"
  obtain r w1 where r: "m w = (r, w1)" by force
  with steadyD [OF assms(1) w r] assms(2) [of r]
  show "thresholds_ok (snd (attempt m f w)) \<and> lives (fst (attempt m f w))"
    by (simp add: attempt_def lives_def steady_def)
qed

lemma steady_seq:
  assumes "steady m" "\<And>x. steady (f x)" shows "steady (bindr m f)"
  unfolding steady_def
proof (intro allI impI)
  fix w assume w: "thresholds_ok w"
  obtain r w1 where r: "m w = (r, w1)" by force
  with steadyD [OF assms(1) w r] assms(2)
  show "thresholds_ok (snd (bindr m f w)) \<and> lives (fst (bindr m f w))"
    by (cases r) (auto simp: bindr_def steady_def intro: lives_Inl)
qed

lemma steady_for_each: "(\<And>x. steady (f x)) \<Longrightarrow> steady (for_each f xs)"
  by (induction xs) (simp_all add: steady_seq steady_calm [OF calm_ret yields_ret_any])

lemma reconstruct_steady: "steady (reconstruct i name)"
proof -
  have "yields thresholds_ok (on_db i (get_manifest name)) (\<lambda>m. cap_ok (mf_threshold m))"
  proof (rule valid.on_db_yields, intro conjI allI impI)
    fix w r d assume w: "thresholds_ok w" and r: "get_manifest name (n_db (w_nodes w i)) = (r, d)"
    show "thresholds_ok (set_db i d w)" by (rule valid.untouched [OF w get_manifest_keeps [OF r]])
    fix m assume "r = Inr m"
    from r [unfolded this] show "cap_ok (mf_threshold m)"
    proof (rule get_manifest_Inr)
      fix x assume "x \<in> set (manifest_table (n_db (w_nodes w i)))" "scan_manifest x = Inr m"
      from scanned_manifest [OF w [unfolded thresholds_ok_def, THEN spec] this] show ?thesis by (simp add: cap_ok_def)
    qed
  qed
  then show ?thesis unfolding reconstruct_def
    by (rule steady_bindr [OF calm_on_db [OF lives_store(6)]])
       (auto intro!: steady_calm calm_with_node calm_bindr calm_gather calm_ret yields_with_node
          yields_seq yields_any [OF valid.gather_yields] yields_ret_any)
qed

lemma reshare_steady: "steady (reshare_manifest X i m)"
proof -
  let ?again = "\<lambda>data. if mf_kind m = ''backup'' then
      bindr (on_db i list_mesh_peers) (\<lambda>meshPeers. bindr (ping_peers meshPeers) (\<lambda>reachable.
        if int (length reachable) < mf_threshold m then ret (Inr ())
        else distribute_backup i (mf_name m) data (mf_threshold m) reachable))
    else split_op X i (mf_name m) data (mf_threshold m) (mf_total m)"
  have "steady (?again data)" for data
    by (rule steady_calm [where V = any])
       (auto intro!: calm_if calm_bindr calm_on_db calm_ping_peers calm_distribute calm_split calm_ret
          yields_seq valid.db_simple valid.ping_peers_any valid.distribute_any valid.split_any yields_ret_any)
  then show ?thesis unfolding reshare_manifest_def
    by (intro steady_attempt steady_seq reconstruct_steady) (simp_all add: steady_calm [OF calm_ret yields_ret_any])
qed

lemma heal_one_steady: "steady (heal_one X i margin m)"
  unfolding heal_one_def Let_def
  by (rule steady_bindr [OF calm_probe valid.probe_members_any])
     (auto intro: reshare_steady steady_calm [OF calm_ret yields_ret_any])

lemma owned_steady: "steady (owned_manifests i)"
  by (rule steady_calm [OF calm_owned valid.owned_manifests_any])

lemma healing_steady: "steady (heal_manifests X i margin)" "steady (force_reshare_owned X i)"
  unfolding heal_manifests_def force_reshare_owned_def
  by (intro steady_seq owned_steady steady_for_each heal_one_steady reshare_steady)+

lemma calm_react_fragment: "calm (react_fragment X i sev alert pid)"
proof -
  have "calm (attempt (client_alert al) (\<lambda>_. ret (Inr ())))" for al
    by (intro calm_attempt calm_clients calm_ret) simp
  then have "calm (with_node i (\<lambda>n w. attempt (client_alert (al n w)) (\<lambda>_. ret (Inr ())) w))" for al
    by (simp add: calm_def with_node_def)
  then show ?thesis unfolding react_fragment_def
    by (auto split: sum.split intro!: calm_attempt calm_cold calm_ret)
qed

lemma react_steady: "steady (react X i sev alert)"
proof -
  let ?mutations = "attempt (on_db i list_fragment_pids) (\<lambda>r. case r of
              Inl _ \<Rightarrow> ret (Inr ())
            | Inr pids \<Rightarrow> for_each (react_fragment X i sev alert) pids)"
  have m: "steady ?mutations"
    by (rule steady_calm [where V = any])
       (auto split: sum.split intro!: calm_attempt calm_on_db calm_ret calm_for_each calm_react_fragment
          yields_try valid.db_simple yields_ret_any yields_for_each [where V = any] valid.react_fragment_any)
  have y: "steady (bindr ?mutations (\<lambda>_. if sev = Confirmed then force_reshare_owned X i else ret (Inr ())))"
    by (rule steady_seq [OF m]) (auto intro: healing_steady steady_calm [OF calm_ret yields_ret_any])
  show ?thesis
    unfolding steady_def
  proof (intro allI impI)
    fix w assume w: "thresholds_ok w"
    show "thresholds_ok (snd (react X i sev alert w)) \<and> lives (fst (react X i sev alert w))"
      using y valid.set_watch [OF w] unfolding react_def Let_def steady_def by blast
  qed
qed

lemma watchdog_steady: "steady (watchdog_tick X i remote debugger ppid)"
  unfolding steady_def
proof (intro allI impI)
  fix w assume w: "thresholds_ok w"
  obtain d wd where t: "tick (observe remote debugger ppid (n_watch (w_nodes w i))) (now_of w)
      (n_watch (w_nodes w i)) = (d, wd)" by force
  have "steady (case d of None \<Rightarrow> ret (Inr ()) | Some Confirmed \<Rightarrow> react X i Confirmed True
              | Some Suspect \<Rightarrow> react X i Suspect False)"
    by (auto split: option.split severity.split intro: steady_calm [OF calm_ret yields_ret_any] react_steady)
  with valid.set_watch [OF w] t
  show "thresholds_ok (snd (watchdog_tick X i remote debugger ppid w)) \<and>
      lives (fst (watchdog_tick X i remote debugger ppid w))"
    unfolding watchdog_tick_def Let_def steady_def by simp
qed

section \<open>Cycles that report no error\<close>

text \<open>A cycle swallows every error value; where it does not panic either, it runs to its end.\<close>

definition silent :: "'a act \<Rightarrow> bool" where
  "silent m \<longleftrightarrow> (\<forall>w err. fst (m w) = Inl err \<longrightarrow> died (fst (m w)) \<noteq> None)"

lemma silent_ret: "silent (ret (Inr x))"
  by (simp add: silent_def ret_def)

lemma silent_attempt: "(\<And>r. silent (f r)) \<Longrightarrow> silent (attempt m f)"
  unfolding silent_def attempt_def by (auto split: prod.split option.split)

lemma silent_seq:
  assumes "silent m" "\<And>x. silent (f x)" shows "silent (bindr m f)"
  unfolding silent_def
proof (intro allI impI)
  fix w err assume e: "fst (bindr m f w) = Inl err"
  obtain r w1 where r: "m w = (r, w1)" by force
  show "died (fst (bindr m f w)) \<noteq> None"
  proof (cases r)
    case (Inl err')
    then have "died r \<noteq> None" using assms(1) r unfolding silent_def by (metis fst_conv)
    then show ?thesis using Inl r by (auto simp: bindr_def died_Some)
  next
    case (Inr x)
    then show ?thesis using e r assms(2) [of x] by (simp add: bindr_def silent_def)
  qed
qed

lemma silent_for_each: "(\<And>x. silent (f x)) \<Longrightarrow> silent (for_each f xs)"
  by (induction xs) (auto intro: silent_ret silent_seq)

lemma silent_with_node: "(\<And>n. silent (f n)) \<Longrightarrow> silent (with_node i f)"
  by (simp add: silent_def with_node_def)

lemma silent_runs: "silent m \<Longrightarrow> lives (fst (m w)) \<Longrightarrow> \<exists>x w'. m w = (Inr x, w')"
  unfolding silent_def lives_def by (metis old.sum.exhaust prod.collapse)

lemmas silent_intros = silent_ret silent_attempt silent_seq silent_for_each silent_with_node

lemma silent_cycles:
  "silent (heal_manifests X i margin)" "silent (force_reshare_owned X i)" "silent (send_heartbeats i)"
  "silent (handle_event X i ev)" "silent (notify_siblings j f oldPID newPID)"
proof -
  have probe: "silent (probe_members m mems)" for m mems
    by (induction m mems rule: probe_members.induct) (auto intro: silent_intros)
  have reshare: "silent (reshare_manifest X i m)" for m
    unfolding reshare_manifest_def by (intro silent_intros)
  show "silent (heal_manifests X i margin)" "silent (force_reshare_owned X i)"
    unfolding heal_manifests_def force_reshare_owned_def owned_manifests_def heal_one_def Let_def
    by (auto intro!: silent_intros probe reshare)
  show "silent (send_heartbeats i)"
    unfolding send_heartbeats_def send_heartbeat_def by (auto intro!: silent_intros split: sum.split)
  show "silent (handle_event X i ev)"
    unfolding handle_event_def by (auto intro!: silent_intros split: payload.split)
  show "silent (notify_siblings j f oldPID newPID)"
    unfolding notify_siblings_def notify_sibling_def by (auto intro!: silent_intros)
qed

lemma silent_react: "silent (react X i sev alert)"
proof -
  have alert: "silent (\<lambda>w. attempt (client_alert (al w)) (\<lambda>_. ret (Inr ())) w)" for al
    using silent_attempt [of "\<lambda>_. ret (Inr ())" "client_alert al" for al] silent_ret [of "()"]
    unfolding silent_def by blast
  have "silent (react_fragment X i sev a pid)" for a pid
    unfolding react_fragment_def by (auto intro!: silent_attempt silent_ret silent_with_node alert split: sum.split)
  then have "silent (bindr (attempt (on_db i list_fragment_pids) (\<lambda>r. case r of
              Inl _ \<Rightarrow> ret (Inr ())
            | Inr pids \<Rightarrow> for_each (react_fragment X i sev alert) pids))
           (\<lambda>_. if sev = Confirmed then force_reshare_owned X i else ret (Inr ())))"
    by (auto intro!: silent_intros silent_cycles split: sum.split)
  then show ?thesis unfolding react_def silent_def Let_def by blast
qed

lemma silent_watchdog: "silent (watchdog_tick X i remote debugger ppid)"
proof -
  have "silent (case d of None \<Rightarrow> ret (Inr ()) | Some Confirmed \<Rightarrow> react X i Confirmed True
              | Some Suspect \<Rightarrow> react X i Suspect False)" for d
    by (auto split: option.split severity.split intro: silent_ret silent_react)
  then show ?thesis unfolding watchdog_tick_def silent_def Let_def by (simp split: prod.split)
qed

section \<open>The background cycles run to their end\<close>

lemma valid_run: "world_run X allowed w w' \<Longrightarrow> thresholds_ok w \<Longrightarrow> thresholds_ok w'"
  by (erule valid.run_keeps) (simp_all add: valid.delivery_ok_def)

lemma cycle_runs:
  assumes "silent m" "steady m" "thresholds_ok w" shows "\<exists>w'. m w = (Inr (), w')"
  using silent_runs [OF assms(1), of w] assms(2,3) unfolding steady_def by auto

lemma peer_handle_calm: "calm (peer_handle i req)"
proof -
  have r: "calm (reply st b)" for st b unfolding reply_def by (rule calm_ret) simp
  show ?thesis
    unfolding peer_handle_def handle_deliver_def handle_status_def handle_fetch_def handle_notice_def
    by (auto split: peer_request.split option.split sum.split
        intro!: r calm_attempt calm_on_rand calm_on_db calm_on_db_rand calm_register)
qed

end
