(* ===== verification/Progress.thy ===== *)
theory Progress
  imports Panics
begin

text \<open>
  Total correctness in a world without faults: \<open>returns P m Q\<close> says that from every world with
  \<open>P\<close> the operation returns a value, not an error, and leaves a world with \<open>Q\<close>. The lemmas show
  that \<open>Split\<close> places one share with every member and that \<open>Reconstruct\<close> then finds the secret
  as long as a threshold of the members still answers.
\<close>

section \<open>Returning a value\<close>

definition returns :: "(world \<Rightarrow> bool) \<Rightarrow> 'a act \<Rightarrow> ('a \<Rightarrow> world \<Rightarrow> bool) \<Rightarrow> bool" where
  "returns P m Q \<longleftrightarrow> (\<forall>w. P w \<longrightarrow> (\<exists>x w'. m w = (Inr x, w') \<and> Q x w'))"

lemma returnsI: "(\<And>w. P w \<Longrightarrow> \<exists>x w'. m w = (Inr x, w') \<and> Q x w') \<Longrightarrow> returns P m Q"
  by (simp add: returns_def)

lemma returnsD: "returns P m Q \<Longrightarrow> P w \<Longrightarrow> \<exists>x w'. m w = (Inr x, w') \<and> Q x w'"
  by (simp add: returns_def)

lemma returns_post: "returns P m R \<Longrightarrow> (\<And>x w. R x w \<Longrightarrow> Q x w) \<Longrightarrow> returns P m Q"
  unfolding returns_def by blast

lemma returns_pre: "returns R m Q \<Longrightarrow> (\<And>w. P w \<Longrightarrow> R w) \<Longrightarrow> returns P m Q"
  unfolding returns_def by blast

lemma returns_ret: "(\<And>w. P w \<Longrightarrow> Q x w) \<Longrightarrow> returns P (ret (Inr x)) Q"
  by (simp add: returns_def ret_def)

lemma returns_bindr:
  assumes "returns P m Q" "\<And>x. returns (Q x) (f x) R" shows "returns P (bindr m f) R"
proof (rule returnsI)
  fix w assume "P w"
  with assms(1) obtain x w1 where "m w = (Inr x, w1)" "Q x w1" by (blast dest: returnsD)
  with assms(2) [of x] show "\<exists>y w'. bindr m f w = (Inr y, w') \<and> R y w'"
    by (simp add: bindr_def returns_def)
qed

lemma returns_try:
  assumes "returns P m Q" "\<And>x. returns (Q x) (f (Inr x)) R" shows "returns P (attempt m f) R"
proof (rule returnsI)
  fix w assume "P w"
  with assms(1) obtain x w1 where "m w = (Inr x, w1)" "Q x w1" by (blast dest: returnsD)
  with assms(2) [of x] show "\<exists>y w'. attempt m f w = (Inr y, w') \<and> R y w'"
    by (simp add: attempt_def returns_def)
qed

lemma bindr_ret [simp]: "bindr (ret (Inr x)) f = f x"
  by (simp add: bindr_def ret_def fun_eq_iff)

lemma returns_with_node: "(\<And>n. returns (\<lambda>w. P w \<and> w_nodes w i = n) (f n) Q) \<Longrightarrow> returns P (with_node i f) Q"
  by (simp add: returns_def with_node_def)

text \<open>A fact about values may be assumed of the world before.\<close>

lemma returns_fact: "(V \<Longrightarrow> returns P m Q) \<Longrightarrow> returns (\<lambda>w. P w \<and> V) m Q"
  by (auto simp: returns_def)

text \<open>An invariant rides along.\<close>

lemma returns_yields:
  assumes "returns P m Q" "yields I m any" shows "returns (\<lambda>w. P w \<and> I w) m (\<lambda>x w. Q x w \<and> I w)"
proof (rule returnsI)
  fix w assume w: "P w \<and> I w"
  with assms(1) obtain x w' where "m w = (Inr x, w')" "Q x w'" by (blast dest: returnsD)
  with w yieldsD(1) [OF assms(2)] show "\<exists>x w'. m w = (Inr x, w') \<and> Q x w' \<and> I w'" by blast
qed

section \<open>A world without faults\<close>

text \<open>
  No call is lost, no read of randomness and no statement fails. \<open>A\<close> is the address book and \<open>N\<close>
  the table of nodes registered with the orchestrator.
\<close>

definition sound_node :: "node \<Rightarrow> bool" where
  "sound_node n \<longleftrightarrow> (\<forall>k. \<not> broken (n_entropy n) k) \<and> key_ok (storage_key (n_db n)) \<and>
     (\<forall>k. \<not> sql_broken (n_db n) k \<and> row_stop (n_db n) k = None)"

definition faultless :: "(string \<rightharpoonup> nat) \<Rightarrow> (string \<times> node_entry) list \<Rightarrow> world \<Rightarrow> bool" where
  "faultless A N w \<longleftrightarrow> (\<forall>k. w_fate w k = Reached) \<and> w_addr w = A \<and> orch_wf (w_orch w) \<and>
     o_nodes (w_orch w) = N \<and> (\<forall>j. sound_node (w_nodes w j))"

text \<open>
  \<open>placed gid tok P\<close>: node \<open>j\<close> holds the share \<open>P j\<close> of the group under the group's token, and
  nothing of the group where \<open>P j = None\<close>.
\<close>

definition row_opens :: "bytes \<Rightarrow> string \<Rightarrow> bytes \<Rightarrow> frag_row \<Rightarrow> bool" where
  "row_opens key tok share x \<longleftrightarrow> (\<exists>f. scan_fragment key x = Inr f \<and> f_token f = tok \<and>
     decrypt (f_key f) (f_ciphertext f) (share_aad (f_group f) (f_pid f)) = Inr share)"

definition holds_share :: "string \<Rightarrow> string \<Rightarrow> bytes \<Rightarrow> db \<Rightarrow> bool" where
  "holds_share gid tok share d \<longleftrightarrow> gid \<in> r_group ` set (frag_table d) \<and>
     (\<forall>x \<in> set (frag_table d). r_group x = gid \<longrightarrow> row_opens (storage_key d) tok share x)"

definition placed :: "string \<Rightarrow> string \<Rightarrow> (nat \<rightharpoonup> bytes) \<Rightarrow> world \<Rightarrow> bool" where
  "placed gid tok P w \<longleftrightarrow>
     (\<forall>j. P j = None \<longrightarrow> gid \<notin> r_group ` set (frag_table (n_db (w_nodes w j)))) \<and>
     (\<forall>j share. P j = Some share \<longrightarrow> holds_share gid tok share (n_db (w_nodes w j)))"

definition ready :: "(string \<rightharpoonup> nat) \<Rightarrow> (string \<times> node_entry) list \<Rightarrow> nat \<Rightarrow> string \<Rightarrow> string \<Rightarrow> string \<Rightarrow>
    (nat \<rightharpoonup> bytes) \<Rightarrow> world \<Rightarrow> bool" where
  "ready A N i self gid tok P w \<longleftrightarrow> faultless A N w \<and> n_id (w_nodes w i) = self \<and> placed gid tok P w"

lemma ready_cong:
  assumes "ready A N i self gid tok P w" "w_fate w' = w_fate w" "w_addr w' = w_addr w"
    "orch_wf (w_orch w')" "o_nodes (w_orch w') = o_nodes (w_orch w)"
    "\<And>j. n_id (w_nodes w' j) = n_id (w_nodes w j)" "\<And>j. broken (n_entropy (w_nodes w' j)) = broken (n_entropy (w_nodes w j))"
    "\<And>j. same_tables (n_db (w_nodes w j)) (n_db (w_nodes w' j))"
  shows "ready A N i self gid tok P w'"
proof -
  have d: "frag_table (n_db (w_nodes w' j)) = frag_table (n_db (w_nodes w j))"
    "storage_key (n_db (w_nodes w' j)) = storage_key (n_db (w_nodes w j))"
    "sql_broken (n_db (w_nodes w' j)) = sql_broken (n_db (w_nodes w j))"
    "row_stop (n_db (w_nodes w' j)) = row_stop (n_db (w_nodes w j))" for j
    using assms(8) [of j] by (auto simp: same_tables_def same_engine_def)
  show ?thesis using assms(1-7)
    by (simp add: ready_def faultless_def sound_node_def placed_def holds_share_def d)
qed

lemma ready_calls [simp]: "ready A N i self gid tok P (w\<lparr>w_calls := k\<rparr>) = ready A N i self gid tok P w"
  by (simp add: ready_def faultless_def placed_def)

section \<open>The primitive steps return\<close>

lemma same_tables_refl [simp]: "same_tables d d"
  by (simp add: same_tables_def same_engine_def)

lemma rand_returns:
  assumes "advances f" "\<And>e. (\<And>k. \<not> broken e k) \<Longrightarrow> \<exists>x e'. f e = (Inr x, e') \<and> V x"
  shows "returns (ready A N i self gid tok P) (on_rand j f) (\<lambda>x w. ready A N i self gid tok P w \<and> V x)"
proof (rule returnsI)
  fix w assume r: "ready A N i self gid tok P w"
  then have "\<not> broken (n_entropy (w_nodes w j)) k" for k by (simp add: ready_def faultless_def sound_node_def)
  from assms(2) [OF this] obtain x e where x: "f (n_entropy (w_nodes w j)) = (Inr x, e)" "V x" by blast
  with assms(1) have e: "e = (n_entropy (w_nodes w j))\<lparr>draws := draws e\<rparr>" unfolding advances_def by blast
  have "ready A N i self gid tok P (set_entropy j e w)"
    by (rule ready_cong [OF r]) (use r arg_cong [OF e, of broken] in
      \<open>auto simp: set_entropy_def set_node_def ready_def faultless_def\<close>)
  with x show "\<exists>x w'. on_rand j f w = (Inr x, w') \<and> ready A N i self gid tok P w' \<and> V x"
    by (auto simp: on_rand_def set_entropy_def Let_def)
qed

lemma rand_read_unbroken: "(\<And>k. \<not> broken e k) \<Longrightarrow> \<exists>x e'. rand_read n e = (Inr x, e') \<and> length x = n"
  by (auto simp: rand_read_def)

lemma random_id_unbroken: "(\<And>k. \<not> broken e k) \<Longrightarrow> \<exists>x e'. random_id n e = (Inr x, e')"
  by (auto simp: random_id_def rand_read_def)

lemma encrypt_unbroken:
  assumes "key_ok key" "\<And>k. \<not> broken e k"
  shows "\<exists>ct e'. encrypt key p a e = (Inr ct, e') \<and> decrypt key ct a = Inr p"
proof -
  obtain ct e' where "encrypt key p a e = (Inr ct, e')" using assms by (auto simp: encrypt_ok)
  with aead.open_seal show ?thesis by blast
qed

lemma id_returns: "returns (ready A N i self gid tok P) (on_rand j (random_id n)) (\<lambda>_. ready A N i self gid tok P)"
  by (rule returns_post [OF rand_returns [OF advances_random_id, where V = any]])
     (auto simp: random_id_unbroken)

lemma read_returns: "returns (ready A N i self gid tok P) (on_rand j (rand_read n))
    (\<lambda>x w. ready A N i self gid tok P w \<and> length x = n)"
  by (rule rand_returns [OF advances_rand_read]) (rule rand_read_unbroken)

lemma encrypt_returns: "key_ok key \<Longrightarrow> returns (ready A N i self gid tok P) (on_rand j (encrypt key p a))
    (\<lambda>ct w. ready A N i self gid tok P w \<and> decrypt key ct a = Inr p)"
  by (rule rand_returns [OF advances_encrypt]) (rule encrypt_unbroken)

lemma send_all_nodes: "send_all ev is o1 = (r, o2) \<Longrightarrow> o_nodes o2 = o_nodes o1"
  by (induction ev "is" o1 rule: send_all.induct)
     (auto simp: send_to_def set_chan_def split: prod.splits sum.splits)

lemma announce_nodes: "announce_route a o1 = (r, o2) \<Longrightarrow> o_nodes o2 = o_nodes o1"
  by (auto simp: announce_route_def broadcast_delta_def delta_snapshot_def range_values_def Let_def dest!: send_all_nodes)

lemma announce_returns:
  "returns (ready A N i self gid tok P) (client_announce a) (\<lambda>_. ready A N i self gid tok P)"
proof (rule returnsI)
  fix w assume r: "ready A N i self gid tok P w"
  then have wf: "orch_wf (w_orch w)" and reached: "w_fate w (w_calls w) = Reached" by (simp_all add: ready_def faultless_def)
  obtain q o2 where q: "announce_route a (w_orch w) = (q, o2)" by force
  from announce_wf [OF wf q] have o2: "orch_wf o2" "q = Inr ()" by auto
  then have "client_announce a w = (Inr (), w\<lparr>w_calls := Suc (w_calls w), w_orch := o2\<rparr>)"
    using reached q by (simp add: client_announce_def orch_post_def orch_call_def bindr_def ret_def Let_def
        orch_handle_def no_content_def no_out_def)
  moreover have "ready A N i self gid tok P (w\<lparr>w_calls := Suc (w_calls w), w_orch := o2\<rparr>)"
    by (rule ready_cong [OF r]) (simp_all add: o2 announce_nodes [OF q])
  ultimately show "\<exists>x w'. client_announce a w = (Inr x, w') \<and> ready A N i self gid tok P w'" by blast
qed

lemma chain_unbroken: "(\<And>k. \<not> broken e k) \<Longrightarrow> \<exists>x e'. build_chain coldChainLength e = (Inr x, e')"
  by (auto simp: build_chain_def coldChainLength_def rand_read_def Let_def)

lemma chain_returns: "returns (ready A N i self gid tok P) (on_rand j (build_chain coldChainLength))
    (\<lambda>_. ready A N i self gid tok P)"
  by (rule returns_post [OF rand_returns [OF advances_build_chain, where V = any]]) (auto simp: chain_unbroken)

lemma after_chains_returns:
  assumes "\<And>n. returns (ready A N i self gid tok P) (m n) (\<lambda>_. ready A N i self gid tok P)"
  shows "returns (ready A N i self gid tok P) (with_node j (\<lambda>n w. m n (set_node j (n\<lparr>n_chains := cs n\<rparr>) w)))
    (\<lambda>_. ready A N i self gid tok P)"
proof (rule returnsI)
  fix w assume r: "ready A N i self gid tok P w"
  let ?w = "set_node j ((w_nodes w j)\<lparr>n_chains := cs (w_nodes w j)\<rparr>) w"
  have "ready A N i self gid tok P ?w"
    by (rule ready_cong [OF r]) (use r in \<open>auto simp: set_node_def ready_def faultless_def\<close>)
  with assms show "\<exists>x w'. with_node j (\<lambda>n w. m n (set_node j (n\<lparr>n_chains := cs n\<rparr>) w)) w = (Inr x, w') \<and>
      ready A N i self gid tok P w'"
    by (simp add: with_node_def returns_def)
qed

lemma register_returns:
  "returns (ready A N i self gid tok P) (register_new_fragment j pid chainID) (\<lambda>_. ready A N i self gid tok P)"
  unfolding register_new_fragment_def Let_def
  by (intro returns_bindr [OF chain_returns] after_chains_returns returns_try [OF announce_returns] returns_ret)

text \<open>Storing a fragment of the group at a node that has none places its share there.\<close>

lemma store_returns:
  assumes "P j = None" "f_group f = gid" "f_token f = tok" "f_epoch f = 0"
    "decrypt (f_key f) (f_ciphertext f) (share_aad gid (f_pid f)) = Inr share"
  shows "returns (ready A N i self gid tok P) (on_db_rand j (put_fragment f))
    (\<lambda>_. ready A N i self gid tok (P(j \<mapsto> share)))"
proof (rule returnsI)
  fix w assume r: "ready A N i self gid tok P w"
  let ?n = "w_nodes w j" let ?d = "n_db ?n"
  from r have s: "sound_node ?n" by (simp add: ready_def faultless_def)
  then obtain wrapped e where w: "encrypt (storage_key ?d) (f_key f) (frag_aad (f_pid f)) (n_entropy ?n) = (Inr wrapped, e)"
      "decrypt (storage_key ?d) wrapped (frag_aad (f_pid f)) = Inr (f_key f)"
    using encrypt_unbroken [of "storage_key ?d" "n_entropy ?n"] unfolding sound_node_def by blast
  let ?row = "frag_row_of f wrapped (wall ?d (stmts ?d))"
  let ?d' = "?d\<lparr>stmts := Suc (stmts ?d), frag_table := upsert r_pid (\<lambda>_ new. new) ?row (frag_table ?d)\<rparr>"
  let ?w = "set_node j (?n\<lparr>n_db := ?d', n_entropy := e\<rparr>) w"
  have op: "on_db_rand j (put_fragment f) w = (Inr (), ?w)"
    using s w assms(4) by (simp add: on_db_rand_def put_fragment_def exec_def Let_def sound_node_def)
  have e: "broken e = broken (n_entropy ?n)"
    using advances_encrypt w(1) unfolding advances_def by (metis entropy.select_convs(2) entropy.surjective entropy.update_convs(3))
  have none: "gid \<notin> r_group ` set (frag_table ?d)" using r assms(1) by (simp add: ready_def placed_def)
  have "r_group ?row = gid" by (simp add: frag_row_of_def assms(2))
  moreover have "row_opens (storage_key ?d) tok share ?row"
    unfolding row_opens_def scan_new_row [OF w(2)] using assms by auto
  ultimately have holds: "holds_share gid tok share ?d'"
    using none by (auto simp: holds_share_def upsert_replace_set image_iff)
  have placed: "placed gid tok (P(j \<mapsto> share)) ?w"
    using r holds by (simp add: placed_def ready_def)
  have "faultless A N ?w" "n_id (w_nodes ?w i) = self"
    using r e by (auto simp: ready_def faultless_def sound_node_def set_node_def)
  with placed op show "\<exists>x w'. on_db_rand j (put_fragment f) w = (Inr x, w') \<and>
      ready A N i self gid tok (P(j \<mapsto> share)) w'" by (auto simp: ready_def)
qed

section \<open>Handing out shares\<close>

lemma reply_returns: "returns P (reply st b) (\<lambda>resp w. P w \<and> ps_status resp = st \<and> ps_body resp = b)"
  by (simp add: returns_def reply_def ret_def)

lemma peer_call_returns:
  assumes "A ep = Some j" "returns (ready A N i self gid tok P) (peer_handle j req) Q"
  shows "returns (ready A N i self gid tok P) (peer_call ep req) Q"
proof (rule returnsI)
  fix w assume r: "ready A N i self gid tok P w"
  then have "w_fate w (w_calls w) = Reached" "w_addr w ep = Some j" using assms(1) by (simp_all add: ready_def faultless_def)
  moreover from r assms(2) obtain x w' where "peer_handle j req (w\<lparr>w_calls := Suc (w_calls w)\<rparr>) = (Inr x, w')" "Q x w'"
    unfolding returns_def by (metis ready_calls)
  ultimately show "\<exists>x w'. peer_call ep req w = (Inr x, w') \<and> Q x w'"
    by (simp add: peer_call_def Let_def)
qed

lemma deliver_returns:
  assumes "P j = None" "dr_group d = gid" "dr_token d = tok" "dr_epoch d = 0"
    "decrypt (dr_key d) (dr_ciphertext d) (share_aad gid (dr_pid d)) = Inr share"
  shows "returns (ready A N i self gid tok P) (peer_handle j (PeerDeliver (Some d)))
    (\<lambda>resp w. ready A N i self gid tok (P(j \<mapsto> share)) w \<and> ps_status resp = 204)"
  unfolding peer_handle_def handle_deliver_def
  by (simp, rule returns_try [OF id_returns], simp, rule returns_try [OF register_returns], simp,
      rule returns_try [OF store_returns [where share = share]])
     (use assms in \<open>auto intro: returns_post [OF reply_returns]\<close>)

lemma ok_status_returns: "returns (\<lambda>w. P w \<and> ps_status resp = 204) (ok_status resp) (\<lambda>_. P)"
  by (auto simp: returns_def ok_status_def ret_def)

lemma send_share_returns:
  assumes "P j = None" "A (h_endpoint h) = Some j" "g_id g = gid" "g_token g = tok"
  shows "returns (ready A N i self gid tok P) (send_share i g h share) (\<lambda>_. ready A N i self gid tok (P(j \<mapsto> share)))"
  unfolding send_share_def
proof (rule returns_bindr [OF read_returns], rule returns_fact)
  fix key :: bytes assume key: "length key = KeySize"
  then have "key_ok key" by (simp add: key_ok_def KeySize_def)
  show "returns (ready A N i self gid tok P)
      (bindr (on_rand i (encrypt key share (share_aad (g_id g) (h_pid h)))) (\<lambda>ciphertext.
        deliver_share (h_endpoint h)
       \<lparr>dr_group = g_id g, dr_token = g_token g, dr_pid = h_pid h, dr_epoch = 0,
        dr_threshold = g_threshold g, dr_total = g_total g, dr_key = key, dr_ciphertext = ciphertext,
        dr_members = map peer_of_member (g_members g)\<rparr>)) (\<lambda>_. ready A N i self gid tok (P(j \<mapsto> share)))"
  proof (rule returns_bindr [OF encrypt_returns [OF \<open>key_ok key\<close>]], rule returns_fact)
    fix ct assume ct: "decrypt key ct (share_aad (g_id g) (h_pid h)) = Inr share"
    show "returns (ready A N i self gid tok P) (deliver_share (h_endpoint h)
       \<lparr>dr_group = g_id g, dr_token = g_token g, dr_pid = h_pid h, dr_epoch = 0,
        dr_threshold = g_threshold g, dr_total = g_total g, dr_key = key, dr_ciphertext = ct,
        dr_members = map peer_of_member (g_members g)\<rparr>) (\<lambda>_. ready A N i self gid tok (P(j \<mapsto> share)))"
      unfolding deliver_share_def
      by (rule returns_bindr [OF _ ok_status_returns], rule peer_call_returns [where A = A, OF assms(2)],
          rule deliver_returns) (use assms ct in simp_all)
  qed
qed

lemma keep_share_returns:
  assumes "hkdf_law X" "P j = None" "g_id g = gid" "g_token g = tok"
  shows "returns (ready A N i self gid tok P) (keep_share X j g h share) (\<lambda>_. ready A N i self gid tok (P(j \<mapsto> share)))"
  unfolding keep_share_def
proof (rule returns_bindr [OF id_returns], rule returns_with_node)
  fix salt :: string and n :: node
  obtain key where key: "derive_fragment_root X (n_root n) (bytes_of salt) = Inr key" "key_ok key"
    using hkdf_expand_ok [OF assms(1)] unfolding derive_fragment_root_def by blast
  have tail: "returns (ready A N i self gid tok P)
      (bindr (on_rand j (random_id 8)) (\<lambda>chainID.
     bindr (register_new_fragment j (h_pid h) chainID) (\<lambda>_.
     on_db_rand j (put_fragment
       \<lparr>f_pid = h_pid h, f_group = g_id g, f_token = g_token g, f_chain = chainID, f_epoch = 0,
        f_threshold = g_threshold g, f_total = g_total g, f_key = key, f_ciphertext = ct,
        f_members = g_members g, f_updated = 0\<rparr>)))) (\<lambda>_. ready A N i self gid tok (P(j \<mapsto> share)))"
    if "decrypt key ct (share_aad (g_id g) (h_pid h)) = Inr share" for ct
    by (rule returns_bindr [OF id_returns], rule returns_bindr [OF register_returns], rule store_returns)
       (use assms that in simp_all)
  have "returns (ready A N i self gid tok P)
     (bindr (ret (derive_fragment_root X (n_root n) (bytes_of salt))) (\<lambda>key.
     bindr (on_rand j (encrypt key share (share_aad (g_id g) (h_pid h)))) (\<lambda>ciphertext.
     bindr (on_rand j (random_id 8)) (\<lambda>chainID.
     bindr (register_new_fragment j (h_pid h) chainID) (\<lambda>_.
     on_db_rand j (put_fragment
       \<lparr>f_pid = h_pid h, f_group = g_id g, f_token = g_token g, f_chain = chainID, f_epoch = 0,
        f_threshold = g_threshold g, f_total = g_total g, f_key = key, f_ciphertext = ciphertext,
        f_members = g_members g, f_updated = 0\<rparr>)))))) (\<lambda>_. ready A N i self gid tok (P(j \<mapsto> share)))"
    unfolding key(1) bindr_ret
    by (rule returns_bindr [OF encrypt_returns [OF key(2)]], rule returns_fact, rule tail)
  then show "returns (\<lambda>w. ready A N i self gid tok P w \<and> w_nodes w j = n)
     (bindr (ret (derive_fragment_root X (n_root n) (bytes_of salt))) (\<lambda>key.
     bindr (on_rand j (encrypt key share (share_aad (g_id g) (h_pid h)))) (\<lambda>ciphertext.
     bindr (on_rand j (random_id 8)) (\<lambda>chainID.
     bindr (register_new_fragment j (h_pid h) chainID) (\<lambda>_.
     on_db_rand j (put_fragment
       \<lparr>f_pid = h_pid h, f_group = g_id g, f_token = g_token g, f_chain = chainID, f_epoch = 0,
        f_threshold = g_threshold g, f_total = g_total g, f_key = key, f_ciphertext = ciphertext,
        f_members = g_members g, f_updated = 0\<rparr>)))))) (\<lambda>_. ready A N i self gid tok (P(j \<mapsto> share)))"
    by (rule returns_pre) simp
qed

text \<open>Where a list of holders keeps its shares.\<close>

definition addressed :: "(string \<rightharpoonup> nat) \<Rightarrow> (holder \<times> bytes) list \<Rightarrow> nat \<rightharpoonup> bytes" where
  "addressed A hss = map_of (map (\<lambda>(h, s). (the (A (h_endpoint h)), s)) hss)"

lemma send_shares_returns:
  assumes "\<And>h s. (h, s) \<in> set hss \<Longrightarrow> A (h_endpoint h) \<noteq> None"
    "distinct (map (\<lambda>(h, s). the (A (h_endpoint h))) hss)"
    "\<And>h s. (h, s) \<in> set hss \<Longrightarrow> P (the (A (h_endpoint h))) = None"
    "g_id g = gid" "g_token g = tok"
  shows "returns (ready A N i self gid tok P) (send_shares i g hss) (\<lambda>_. ready A N i self gid tok (P ++ addressed A hss))"
  using assms(1-3)
proof (induction hss arbitrary: P)
  case Nil
  then show ?case by (simp add: send_shares_def returns_ret addressed_def)
next
  case (Cons x hss)
  obtain h s where x: "x = (h, s)" by force
  obtain j where j: "A (h_endpoint h) = Some j" using Cons.prems(1) x by fastforce
  have "P j = None" using Cons.prems(3) [of h s] x j by simp
  note first = send_share_returns [where P = P and A = A and h = h, OF this j assms(4,5)]
  have fresh: "the (A (h_endpoint h')) \<noteq> j" if "(h', s') \<in> set hss" for h' s'
    using Cons.prems(2) that x j by (force simp: image_iff)
  have rest: "returns (ready A N i self gid tok (P(j \<mapsto> s))) (send_shares i g hss)
      (\<lambda>_. ready A N i self gid tok (P(j \<mapsto> s) ++ addressed A hss))"
    by (rule Cons.IH) (use Cons.prems fresh in \<open>auto simp: x\<close>)
  have "addressed A hss j = None"
    using fresh by (force simp: addressed_def map_of_eq_None_iff)
  then have "P(j \<mapsto> s) ++ addressed A hss = P ++ addressed A (x # hss)"
    by (auto simp: x j addressed_def map_add_def fun_eq_iff split: option.splits)
  then show ?case using returns_bindr [OF first rest [unfolded send_shares_def]] by (simp add: send_shares_def x)
qed

lemma draw_holders_returns:
  "returns (ready A N i self gid tok P) (draw_holders j ps)
    (\<lambda>hs w. ready A N i self gid tok P w \<and> map (\<lambda>h. (h_node h, h_endpoint h)) hs = ps)"
proof (induction ps)
  case (Cons p ps)
  obtain a b where p: "p = (a, b)" by force
  show ?case unfolding p draw_holders.simps
    by (rule returns_bindr [OF id_returns], rule returns_bindr [OF Cons], rule returns_ret) auto
qed (simp add: returns_ret)

section \<open>Finding peers\<close>

lemma ping_result:
  assumes "ready A N i self gid tok P w"
  shows "ping ep w = (if A ep = None then Inl ErrTransport else Inr (), w\<lparr>w_calls := Suc (w_calls w)\<rparr>)"
  using assms by (auto simp: ready_def faultless_def ping_def bindr_def peer_call_def peer_handle_def reply_def
      ok_status_def ret_def Let_def)

definition live_peers :: "(string \<rightharpoonup> nat) \<Rightarrow> string \<Rightarrow> node_info list \<Rightarrow> node_info list" where
  "live_peers A self = filter (\<lambda>nd. ni_node nd \<noteq> self \<and> A (ni_endpoint nd) \<noteq> None)"

lemma find_reachable_returns:
  "length acc < need \<Longrightarrow> returns (ready A N i self gid tok P) (find_reachable self' (int need) nds acc)
    (\<lambda>rs w. ready A N i self gid tok P w \<and> rs = take need (acc @ live_peers A self' nds))"
proof (induction nds arbitrary: acc)
  case Nil
  then show ?case by (simp add: returns_ret live_peers_def)
next
  case (Cons nd nds)
  let ?R = "ready A N i self gid tok P"
  have pass: "returns ?R (find_reachable self' (int need) nds acc)
      (\<lambda>rs w. ?R w \<and> rs = take need (acc @ live_peers A self' nds))" using Cons by blast
  have full: "live_peers A self' (nd # nds) = (if ni_node nd \<noteq> self' \<and> A (ni_endpoint nd) \<noteq> None
      then nd # live_peers A self' nds else live_peers A self' nds)" by (simp add: live_peers_def)
  consider "ni_node nd = self'" | "ni_node nd \<noteq> self'" "A (ni_endpoint nd) = None"
    | "ni_node nd \<noteq> self'" "A (ni_endpoint nd) \<noteq> None" "Suc (length acc) = need"
    | "ni_node nd \<noteq> self'" "A (ni_endpoint nd) \<noteq> None" "Suc (length acc) < need" using Cons.prems by linarith
  then show ?case
  proof cases
    case 1
    then show ?thesis using pass by (simp add: full)
  next
    case 2
    then show ?thesis using pass unfolding returns_def by (simp add: full attempt_def ping_result)
  next
    case 3
    then show ?thesis unfolding returns_def
      by (auto simp: full attempt_def ping_result ret_def)
  next
    case 4
    then have "length (acc @ [nd]) < need" by simp
    from Cons.IH [OF this] show ?thesis using 4 unfolding returns_def
      by (auto simp: full attempt_def ping_result)
  qed
qed

text \<open>The registered nodes, as \<open>ListNodes\<close> gives them in some order.\<close>

definition node_infos :: "(string \<times> node_entry) list \<Rightarrow> node_info list" where
  "node_infos N = map (\<lambda>(a, n). \<lparr>ni_node = a, ni_endpoint = ne_endpoint n\<rparr>) N"

lemma list_nodes_returns:
  "returns (ready A N i self gid tok P) list_nodes (\<lambda>ns w. ready A N i self gid tok P w \<and> mset ns = mset (node_infos N))"
proof (rule returnsI)
  fix w assume r: "ready A N i self gid tok P w"
  let ?ns = "map (\<lambda>(a, n). \<lparr>ni_node = a, ni_endpoint = ne_endpoint n\<rparr>)
      (arrange (range_order (w_orch w) (ranges (w_orch w))) (o_nodes (w_orch w)))"
  let ?w = "w\<lparr>w_calls := Suc (w_calls w), w_orch := (w_orch w)\<lparr>ranges := Suc (ranges (w_orch w))\<rparr>\<rparr>"
  have "list_nodes w = (Inr ?ns, ?w)" using r
    by (simp add: ready_def faultless_def list_nodes_def bindr_def orch_call_def orch_handle_def nodes_op_def
        range_values_def ret_def Let_def)
  moreover have "ready A N i self gid tok P ?w"
    by (rule ready_cong [OF r]) (use r in \<open>simp_all add: counters_wf ready_def faultless_def\<close>)
  moreover have "mset ?ns = mset (node_infos N)" using r by (simp add: node_infos_def ready_def faultless_def)
  ultimately show "\<exists>x w'. list_nodes w = (Inr x, w') \<and> ready A N i self gid tok P w' \<and> mset x = mset (node_infos N)"
    by blast
qed

lemma reachable_peers_returns:
  assumes "need \<le> length (live_peers A self (node_infos N))" "0 < need"
  shows "returns (ready A N i self gid tok P) (reachable_peers i (int need))
    (\<lambda>rs w. ready A N i self gid tok P w \<and> length rs = need \<and>
      (\<exists>ns. mset ns = mset (node_infos N) \<and> rs = take need (live_peers A self ns)))"
proof -
  let ?R = "ready A N i self gid tok P"
  have "returns ?R (bindr list_nodes (\<lambda>nodes.
     bindr (find_reachable self (int need) nodes []) (\<lambda>reachable.
     ret (if int (length reachable) < int need then Inl ErrPeersReachable else Inr reachable))))
    (\<lambda>rs w. ?R w \<and> length rs = need \<and> (\<exists>ns. mset ns = mset (node_infos N) \<and> rs = take need (live_peers A self ns)))"
  proof (rule returns_bindr [OF list_nodes_returns], rule returns_fact)
    fix ns assume ns: "mset ns = mset (node_infos N)"
    then have "size (mset (live_peers A self ns)) = size (mset (live_peers A self (node_infos N)))"
      by (simp add: live_peers_def)
    then have len: "need \<le> length (live_peers A self ns)" using assms(1) by simp
    have f: "returns ?R (find_reachable self (int need) ns []) (\<lambda>rs w. ?R w \<and> rs = take need (live_peers A self ns))"
      using find_reachable_returns [of "[]" need A N i self gid tok P self ns] assms(2) by simp
    show "returns ?R (bindr (find_reachable self (int need) ns []) (\<lambda>reachable.
     ret (if int (length reachable) < int need then Inl ErrPeersReachable else Inr reachable)))
     (\<lambda>rs w. ?R w \<and> length rs = need \<and> (\<exists>ns. mset ns = mset (node_infos N) \<and> rs = take need (live_peers A self ns)))"
    proof (rule returns_bindr [OF f], rule returns_fact)
      fix rs assume "rs = take need (live_peers A self ns)"
      with len ns show "returns ?R (ret (if int (length rs) < int need then Inl ErrPeersReachable else Inr rs))
        (\<lambda>rs w. ?R w \<and> length rs = need \<and> (\<exists>ns. mset ns = mset (node_infos N) \<and> rs = take need (live_peers A self ns)))"
        by (auto intro!: returns_ret)
    qed
  qed
  then show ?thesis unfolding reachable_peers_def returns_def
    by (auto simp: with_node_def ready_def)
qed

text \<open>The registered nodes other than \<open>self\<close> answer at addresses of their own, none of them node \<open>i\<close>'s.\<close>

definition spread :: "(string \<rightharpoonup> nat) \<Rightarrow> (string \<times> node_entry) list \<Rightarrow> nat \<Rightarrow> string \<Rightarrow> bool" where
  "spread A N i self \<longleftrightarrow>
     (\<forall>p \<in> set (live_peers A self (node_infos N)). A (ni_endpoint p) \<noteq> Some i) \<and>
     inj_on (\<lambda>p. A (ni_endpoint p)) (set (live_peers A self (node_infos N)))"

lemma chosen_peers:
  assumes "spread A N i self" "distinct (map fst N)" "mset ns = mset (node_infos N)"
    "peers = take need (live_peers A self ns)"
  shows "\<And>p. p \<in> set peers \<Longrightarrow> ni_node p \<noteq> self \<and> A (ni_endpoint p) \<noteq> None \<and> A (ni_endpoint p) \<noteq> Some i"
    "distinct (map (\<lambda>p. the (A (ni_endpoint p))) peers)"
proof -
  have ns: "set ns = set (node_infos N)" using assms(3) by (metis set_mset_mset)
  have "set peers \<subseteq> set (live_peers A self ns)" unfolding assms(4) by (rule set_take_subset)
  then have sub: "set peers \<subseteq> set (live_peers A self (node_infos N))" by (simp add: live_peers_def ns)
  show "ni_node p \<noteq> self \<and> A (ni_endpoint p) \<noteq> None \<and> A (ni_endpoint p) \<noteq> Some i" if "p \<in> set peers" for p
    using subsetD [OF sub that] assms(1) by (auto simp: spread_def live_peers_def)
  have "map ni_node (node_infos N) = map fst N" by (simp add: node_infos_def case_prod_beta)
  then have "distinct (map ni_node (node_infos N))" using assms(2) by simp
  then have "distinct (node_infos N)" by (simp add: distinct_map)
  then have "distinct ns" using assms(3) mset_eq_imp_distinct_iff by blast
  then have "distinct peers" by (simp add: assms(4) live_peers_def)
  moreover have "inj_on (\<lambda>p. the (A (ni_endpoint p))) (set peers)"
  proof (rule inj_onI)
    fix p q assume pq: "p \<in> set peers" "q \<in> set peers" "the (A (ni_endpoint p)) = the (A (ni_endpoint q))"
    then have "p \<in> set (live_peers A self (node_infos N))" "q \<in> set (live_peers A self (node_infos N))" using sub by auto
    moreover from this pq(3) have "A (ni_endpoint p) = A (ni_endpoint q)" by (auto simp: live_peers_def)
    ultimately show "p = q" using assms(1) by (auto simp: spread_def dest: inj_onD)
  qed
  ultimately show "distinct (map (\<lambda>p. the (A (ni_endpoint p))) peers)" by (simp add: distinct_map)
qed

section \<open>Split returns\<close>

text \<open>Where a member of a manifest keeps its share, seen from node \<open>i\<close>.\<close>

definition member_place :: "(string \<rightharpoonup> nat) \<Rightarrow> nat \<Rightarrow> string \<Rightarrow> member \<Rightarrow> nat" where
  "member_place A i self mb = (if m_node mb = self then i else the (A (m_endpoint mb)))"

text \<open>Every member has an address and the members' places hold the shares, in order.\<close>

definition members_hold :: "(string \<rightharpoonup> nat) \<Rightarrow> nat \<Rightarrow> string \<Rightarrow> (nat \<rightharpoonup> bytes) \<Rightarrow> member list \<Rightarrow> share list \<Rightarrow> bool" where
  "members_hold A i self P mbs shares \<longleftrightarrow>
     (\<forall>mb \<in> set mbs. m_node mb = self \<or> A (m_endpoint mb) \<noteq> None) \<and>
     map (\<lambda>mb. P (member_place A i self mb)) mbs = map Some shares"

lemma handed_out:
  assumes "map (\<lambda>h. (h_node h, h_endpoint h)) holders = (self, ep) # map (\<lambda>p. (ni_node p, ni_endpoint p)) peers"
    "\<And>p. p \<in> set peers \<Longrightarrow> ni_node p \<noteq> self \<and> A (ni_endpoint p) \<noteq> None \<and> A (ni_endpoint p) \<noteq> Some i"
    "distinct (map (\<lambda>p. the (A (ni_endpoint p))) peers)" "length shares = Suc (length peers)"
  shows "members_hold A i self ([i \<mapsto> hd shares] ++ addressed A (zip (tl holders) (tl shares)))
      (map member_of_holder holders) shares"
proof -
  obtain h hs where holders: "holders = h # hs" using assms(1) by (cases holders) auto
  obtain s ss where shares: "shares = s # ss" using assms(4) by (cases shares) auto
  have h: "h_node h = self" and hs: "map (\<lambda>h. (h_node h, h_endpoint h)) hs = map (\<lambda>p. (ni_node p, ni_endpoint p)) peers"
    using assms(1) by (auto simp: holders)
  have len: "length hs = length peers" "length ss = length peers"
    using hs assms(4) map_eq_imp_length_eq by (auto simp: shares)
  have nth: "h_node (hs ! k) = ni_node (peers ! k)" "h_endpoint (hs ! k) = ni_endpoint (peers ! k)"
    if "k < length hs" for k using arg_cong [OF hs, of "\<lambda>l. l ! k"] that len by auto
  have ok: "h_node x \<noteq> self" "A (h_endpoint x) \<noteq> None" "A (h_endpoint x) \<noteq> Some i" if "x \<in> set hs" for x
    using that assms(2) nth len(1) by (metis in_set_conv_nth)+
  let ?js = "map (\<lambda>h. the (A (h_endpoint h))) hs"
  have "?js = map (\<lambda>p. the (A (ni_endpoint p))) peers"
    using nth len by (auto intro!: nth_equalityI)
  then have d: "distinct ?js" using assms(3) by simp
  have addr: "addressed A (zip hs ss) = map_of (zip ?js ss)"
    by (simp add: addressed_def zip_map1 case_prod_beta)
  have other: "addressed A (zip hs ss) i = None"
  proof -
    have "i \<noteq> the (A (h_endpoint x))" if "x \<in> set hs" for x using ok(2,3) [OF that] by force
    then show ?thesis unfolding addr using len by (auto simp: map_of_zip_is_None)
  qed
  have at: "addressed A (zip hs ss) (the (A (h_endpoint (hs ! k)))) = Some (ss ! k)" if "k < length hs" for k
    unfolding addr using map_of_zip_nth [of ?js ss k] d that len by simp
  have "map (\<lambda>mb. ([i \<mapsto> s] ++ addressed A (zip hs ss)) (member_place A i self mb)) (map member_of_holder hs) = map Some ss"
    using at ok(1) len by (auto intro!: nth_equalityI simp: member_place_def member_of_holder_def map_add_def)
  moreover have "([i \<mapsto> s] ++ addressed A (zip hs ss)) (member_place A i self (member_of_holder h)) = Some s"
    using other h by (simp add: member_place_def member_of_holder_def map_add_def)
  ultimately show ?thesis
    using ok(2) h unfolding members_hold_def holders shares
    by (auto simp: member_of_holder_def)
qed

text \<open>The last statement of \<open>Split\<close>.\<close>

lemma put_manifest_returns:
  assumes "mf_kind m \<noteq> []"
  shows "returns (\<lambda>w. ready A N i self gid tok P w \<and> nodes_wf w) (on_db i (put_manifest m))
    (\<lambda>_ w. ready A N i self gid tok P w \<and> nodes_wf w \<and>
      (\<exists>c. manifests_of (n_db (w_nodes w i)) (mf_name m) = Some (m\<lparr>mf_created := c\<rparr>)))"
proof (rule returnsI)
  fix w assume w: "ready A N i self gid tok P w \<and> nodes_wf w"
  obtain r d where p: "put_manifest m (n_db (w_nodes w i)) = (r, d)" by force
  from w have "r = Inr ()" using p
    by (auto simp: put_manifest_def exec_def Let_def ready_def faultless_def sound_node_def)
  then have op: "on_db i (put_manifest m) w = (Inr (), set_db i d w)" using p by (simp add: on_db_def set_db_def Let_def)
  have eng: "frag_table d = frag_table (n_db (w_nodes w i))" "storage_key d = storage_key (n_db (w_nodes w i))"
    "sql_broken d = sql_broken (n_db (w_nodes w i))" "row_stop d = row_stop (n_db (w_nodes w i))"
    using p by (auto elim!: put_manifest_cases)
  have "ready A N i self gid tok P (set_db i d w)"
    using w eng by (auto simp: ready_def faultless_def sound_node_def placed_def holds_share_def set_db_def set_node_def)
  moreover have "nodes_wf (set_db i d w)" using wf.manifested [OF _ p] w by simp
  moreover have "manifests_of (n_db (w_nodes (set_db i d w) i)) (mf_name m) = Some (m\<lparr>mf_created := c\<rparr>)"
    if "c = (case manifests_of (n_db (w_nodes w i)) (mf_name m) of None \<Rightarrow> wall (n_db (w_nodes w i)) (stmts (n_db (w_nodes w i)))
      | Some old \<Rightarrow> mf_created old)" for c
    using put_manifest_map [OF nodes_wf_db, of w m i d] w p \<open>r = Inr ()\<close> assms that by simp
  ultimately show "\<exists>x w'. on_db i (put_manifest m) w = (Inr x, w') \<and> ready A N i self gid tok P w' \<and> nodes_wf w' \<and>
      (\<exists>c. manifests_of (n_db (w_nodes w' i)) (mf_name m) = Some (m\<lparr>mf_created := c\<rparr>))"
    using op by blast
qed

lemma zip_endpoints:
  assumes "map (\<lambda>h. (h_node h, h_endpoint h)) hs = map (\<lambda>p. (ni_node p, ni_endpoint p)) peers" "length ss = length peers"
  shows "map (\<lambda>(h, s). the (A (h_endpoint h))) (zip hs ss) = map (\<lambda>p. the (A (ni_endpoint p))) peers"
    "(x, s) \<in> set (zip hs ss) \<Longrightarrow> h_endpoint x \<in> ni_endpoint ` set peers"
proof -
  have len: "length hs = length ss" using map_eq_imp_length_eq [OF assms(1)] assms(2) by simp
  have "map (\<lambda>(h, s). the (A (h_endpoint h))) (zip hs ss) = map (\<lambda>h. the (A (h_endpoint h))) (map fst (zip hs ss))"
    by (simp add: case_prod_beta)
  also have "\<dots> = map (\<lambda>(a, e). the (A e)) (map (\<lambda>h. (h_node h, h_endpoint h)) hs)" using len by simp
  finally show "map (\<lambda>(h, s). the (A (h_endpoint h))) (zip hs ss) = map (\<lambda>p. the (A (ni_endpoint p))) peers"
    by (simp add: assms(1))
  assume "(x, s) \<in> set (zip hs ss)"
  then have "(h_node x, h_endpoint x) \<in> set (map (\<lambda>h. (h_node h, h_endpoint h)) hs)" by (force dest: set_zip_leftD)
  then show "h_endpoint x \<in> ni_endpoint ` set peers" unfolding assms(1) by auto
qed

text \<open>The manifest of kind \<open>k\<close> of a group whose members hold the shares, the splitter's own under its endpoint.\<close>

definition dealt :: "string \<Rightarrow> (string \<rightharpoonup> nat) \<Rightarrow> nat \<Rightarrow> string \<Rightarrow> string \<Rightarrow> string \<Rightarrow> string \<Rightarrow> int \<Rightarrow> int \<Rightarrow> string \<Rightarrow>
    (nat \<rightharpoonup> bytes) \<Rightarrow> share list \<Rightarrow> manifest \<Rightarrow> bool" where
  "dealt k A i self ep gid tok t n name P shares m \<longleftrightarrow>
     mf_name m = name \<and> mf_kind m = k \<and> mf_group m = gid \<and> mf_token m = tok \<and>
     mf_threshold m = t \<and> mf_total m = n \<and> members_hold A i self P (mf_members m) shares \<and>
     (\<forall>mb \<in> set (mf_members m). m_node mb = self \<longrightarrow> m_endpoint mb = ep)"

text \<open>From the shares handed out to the manifest stored.\<close>

lemma group_tail_returns:
  assumes X: "hkdf_law X" and peers: "\<And>p. p \<in> set peers \<Longrightarrow> ni_node p \<noteq> self \<and> A (ni_endpoint p) \<noteq> None \<and> A (ni_endpoint p) \<noteq> Some i"
    "distinct (map (\<lambda>p. the (A (ni_endpoint p))) peers)" and len: "length shares = Suc (length peers)"
    and h: "map (\<lambda>h. (h_node h, h_endpoint h)) holders = (self, ep) # map (\<lambda>p. (ni_node p, ni_endpoint p)) peers"
    and g: "g = \<lparr>g_id = gid, g_token = tok, g_threshold = t, g_total = n, g_members = map member_of_holder holders\<rparr>"
  shows "returns (\<lambda>w. ready A N i self gid tok (\<lambda>_. None) w \<and> nodes_wf w)
    (bindr (keep_share X i g (hd holders) (hd shares)) (\<lambda>_.
        bindr (send_shares i g (zip (tl holders) (tl shares))) (\<lambda>_.
        on_db i (put_manifest (manifest_of_group name ''secret'' g)))))
    (\<lambda>_ w. nodes_wf w \<and> (\<exists>tok P m. ready A N i self gid tok P w \<and> manifests_of (n_db (w_nodes w i)) name = Some m \<and>
      dealt ''secret'' A i self ep gid tok t n name P shares m))"
  (is "returns _ _ ?post")
proof -
  let ?R = "ready A N i self gid tok" and ?hss = "zip (tl holders) (tl shares)"
  let ?P = "[i \<mapsto> hd shares] ++ addressed A ?hss"
  have seals: "wf.seals g s" for g s by (simp add: wf.seals_def)
  have hold: "members_hold A i self ?P (map member_of_holder holders) shares" by (rule handed_out [OF h peers len])
  have tl: "map (\<lambda>h. (h_node h, h_endpoint h)) (tl holders) = map (\<lambda>p. (ni_node p, ni_endpoint p)) peers"
    using h by (cases holders) auto
  have ltl: "length (tl shares) = length peers" using len by simp
  have own: "h_endpoint x = ep" if "x \<in> set holders" "h_node x = self" for x
  proof -
    have "(h_node x, h_endpoint x) \<in> set (map (\<lambda>h. (h_node h, h_endpoint h)) holders)" using that(1) by force
    then show ?thesis using that(2) unfolding h by (auto dest: peers(1))
  qed
  have dealt: "dealt ''secret'' A i self ep gid tok t n name ?P shares (manifest_of_group name ''secret'' g\<lparr>mf_created := c\<rparr>)" for c
    using hold own by (auto simp: dealt_def manifest_of_group_def g member_of_holder_def)
  have send: "returns (?R [i \<mapsto> hd shares]) (send_shares i g ?hss) (\<lambda>_. ?R ?P)"
  proof (rule send_shares_returns)
    fix x s assume "(x, s) \<in> set ?hss"
    from zip_endpoints(2) [OF tl ltl this] peers(1) have "A (h_endpoint x) \<noteq> None \<and> A (h_endpoint x) \<noteq> Some i" by auto
    then show "A (h_endpoint x) \<noteq> None" "[i \<mapsto> hd shares] (the (A (h_endpoint x))) = None" by auto
  qed (simp_all add: g zip_endpoints(1) [OF tl ltl] peers(2))
  have keep: "returns (?R (\<lambda>_. None)) (keep_share X i g (hd holders) (hd shares)) (\<lambda>_. ?R [i \<mapsto> hd shares])"
    using keep_share_returns [OF X, of "\<lambda>_. None" i g gid tok A N i self "hd holders" "hd shares"] g by simp
  have fin: "returns (\<lambda>w. ?R ?P w \<and> nodes_wf w) (on_db i (put_manifest (manifest_of_group name ''secret'' g))) ?post"
    using returns_post [OF put_manifest_returns [of "manifest_of_group name ''secret'' g" A N i self gid tok ?P], of ?post] dealt
    by (fastforce simp: manifest_of_group_def)
  show ?thesis
    by (rule returns_bindr [OF returns_yields [OF keep wf.keep_share_any [OF seals]]],
        rule returns_bindr [OF returns_yields [OF send wf.send_shares_any [OF seals]]], rule fin)
qed

lemma split_rest_returns:
  assumes X: "hkdf_law X" and peers: "\<And>p. p \<in> set peers \<Longrightarrow> ni_node p \<noteq> self \<and> A (ni_endpoint p) \<noteq> None \<and> A (ni_endpoint p) \<noteq> Some i"
    "distinct (map (\<lambda>p. the (A (ni_endpoint p))) peers)" and len: "length shares = Suc (length peers)"
  shows "returns (\<lambda>w. nodes_wf w \<and> n_endpoint (w_nodes w i) = ep \<and> (\<forall>tok. ready A N i self gid tok (\<lambda>_. None) w)) (split_rest X i name t n peers shares gid)
    (\<lambda>_ w. nodes_wf w \<and> (\<exists>tok P m. ready A N i self gid tok P w \<and> manifests_of (n_db (w_nodes w i)) name = Some m \<and>
      dealt ''secret'' A i self ep gid tok t n name P shares m))"
  (is "returns ?pre _ ?post")
proof (rule returnsI)
  fix w assume w: "?pre w"
  then have "ready A N i self gid [] (\<lambda>_. None) w" by blast
  from returnsD [OF id_returns this, of i 32]
  obtain tok w1 where tok: "on_rand i (random_id 32) w = (Inr tok, w1)" by blast
  have "ready A N i self gid tok (\<lambda>_. None) w" using w by blast
  from returnsD [OF id_returns this, of i 32] tok
  have r1: "ready A N i self gid tok (\<lambda>_. None) w1" by auto
  have wf1: "nodes_wf w1" using yieldsD(1) [OF wf.on_rand_any [OF advances_random_id] _ tok] w by blast
  let ?R = "ready A N i self gid tok (\<lambda>_. None)"
  let ?ps = "(self, ep) # map (\<lambda>p. (ni_node p, ni_endpoint p)) peers"
  have self: "n_id (w_nodes w1 i) = self" using r1 by (simp add: ready_def)
  have ep: "n_endpoint (w_nodes w1 i) = ep" using on_rand_Inr [OF tok] w by auto
  have "returns (\<lambda>w. ?R w \<and> nodes_wf w) (bindr (draw_holders i ?ps) (\<lambda>holders.
     let g = \<lparr>g_id = gid, g_token = tok, g_threshold = t, g_total = n, g_members = map member_of_holder holders\<rparr> in
        bindr (keep_share X i g (hd holders) (hd shares)) (\<lambda>_.
        bindr (send_shares i g (zip (tl holders) (tl shares))) (\<lambda>_.
        on_db i (put_manifest (manifest_of_group name ''secret'' g)))))) ?post"
    unfolding Let_def
  proof (rule returns_bindr [OF returns_yields [OF draw_holders_returns wf.draw_holders_any]])
    fix hs
    let ?g = "\<lparr>g_id = gid, g_token = tok, g_threshold = t, g_total = n, g_members = map member_of_holder hs\<rparr>"
    have "returns (\<lambda>w. (?R w \<and> nodes_wf w) \<and> map (\<lambda>h. (h_node h, h_endpoint h)) hs = ?ps)
      (bindr (keep_share X i ?g (hd hs) (hd shares)) (\<lambda>_.
        bindr (send_shares i ?g (zip (tl hs) (tl shares))) (\<lambda>_.
        on_db i (put_manifest (manifest_of_group name ''secret'' ?g))))) ?post"
      by (rule returns_fact, rule group_tail_returns [OF X peers len _ refl])
    then show "returns (\<lambda>w. (?R w \<and> map (\<lambda>h. (h_node h, h_endpoint h)) hs = ?ps) \<and> nodes_wf w)
      (bindr (keep_share X i ?g (hd hs) (hd shares)) (\<lambda>_.
        bindr (send_shares i ?g (zip (tl hs) (tl shares))) (\<lambda>_.
        on_db i (put_manifest (manifest_of_group name ''secret'' ?g))))) ?post"
      by (rule returns_pre) blast
  qed
  from returnsD [OF this, of w1] r1 wf1 obtain y w' where w': "bindr (draw_holders i ?ps) (\<lambda>holders.
     let g = \<lparr>g_id = gid, g_token = tok, g_threshold = t, g_total = n, g_members = map member_of_holder holders\<rparr> in
        bindr (keep_share X i g (hd holders) (hd shares)) (\<lambda>_.
        bindr (send_shares i g (zip (tl holders) (tl shares))) (\<lambda>_.
        on_db i (put_manifest (manifest_of_group name ''secret'' g))))) w1 = (Inr y, w')" "?post y w'" by blast
  have "split_rest X i name t n peers shares gid w = (Inr y, w')"
    using w'(1) unfolding split_rest_def bindr_def [of "on_rand i (random_id 32)"] tok with_node_def
    by (simp add: self ep del: draw_holders.simps)
  with w'(2) show "\<exists>x w'. split_rest X i name t n peers shares gid w = (Inr x, w') \<and> ?post x w'" by blast
qed

text \<open>Before the group identifier is drawn nothing belongs to the group.\<close>

lemma split_returns:
  assumes X: "hkdf_law X" and valid: "2 \<le> t" "t \<le> n" "n \<le> 255" "data \<noteq> []"
    and w: "faultless A N w" "nodes_wf w" "n_id (w_nodes w i) = self"
    and enough: "n - 1 \<le> int (length (live_peers A self (node_infos N)))" and spread: "spread A N i self"
    and unused: "\<And>j. split_group_id i data w \<notin> r_group ` set (frag_table (n_db (w_nodes w j)))"
  shows "\<exists>w' tok P m shares e e'. split_op X i name data t n w = (Inr (), w') \<and> nodes_wf w' \<and>
    split_secret data n t e = (Inr shares, e') \<and>
    ready A N i self (split_group_id i data w) tok P w' \<and> manifests_of (n_db (w_nodes w' i)) name = Some m \<and>
    dealt ''secret'' A i self (n_endpoint (w_nodes w i)) (split_group_id i data w) tok t n name P shares m"
proof -
  let ?gid = "split_group_id i data w"
  let ?R = "\<lambda>tok. ready A N i self ?gid tok (\<lambda>_. None)"
  have R: "?R tok w" for tok using w unused by (simp add: ready_def placed_def)
  have need: "n - 1 = int (nat (n - 1))" "0 < nat (n - 1)" "nat (n - 1) \<le> length (live_peers A self (node_infos N))"
    using valid enough by auto
  from returnsD [OF reachable_peers_returns [OF need(3,2)] R] obtain peers w1 ns where
    w1: "reachable_peers i (n - 1) w = (Inr peers, w1)" "length peers = nat (n - 1)"
    "mset ns = mset (node_infos N)" "peers = take (nat (n - 1)) (live_peers A self ns)"
    unfolding need(1) [symmetric] by blast
  have R1: "?R tok w1" for tok
    using returnsD [OF reachable_peers_returns [OF need(3,2)] R, of tok] w1(1) unfolding need(1) [symmetric] by auto
  have nodes1: "w_nodes w1 = w_nodes w" by (rule yieldsD(1) [OF quiet.reachable_peers_any refl w1(1)])
  then have wf1: "nodes_wf w1" using w(2) by (simp add: nodes_wf_def)
  have split: "\<exists>x e'. split_secret data n t e = (Inr x, e') \<and> (\<exists>e e'. split_secret data n t e = (Inr x, e'))"
    if "\<And>k. \<not> broken e k" for e
    using split_shares [of data n t e] valid that by (auto simp: split_valid_def)
  note sp = rand_returns [OF advances_split split]
  from returnsD [OF sp R1] obtain shares w2 e e' where w2: "on_rand i (split_secret data n t) w1 = (Inr shares, w2)"
    "split_secret data n t e = (Inr shares, e')" by blast
  have R2: "?R tok w2" for tok using returnsD [OF sp R1, of i tok] w2(1) by auto
  have wf2: "nodes_wf w2" by (rule yieldsD(1) [OF wf.on_rand_any [OF advances_split] wf1 w2(1)])
  from returnsD [OF id_returns R2] obtain gid w3 where w3: "on_rand i (random_id 16) w2 = (Inr gid, w3)" by blast
  have R3: "?R tok w3" for tok using returnsD [OF id_returns R2, of i 16] w3 by auto
  have wf3: "nodes_wf w3" by (rule yieldsD(1) [OF wf.on_rand_any [OF advances_random_id] wf2 w3])
  note gid = split_draws [OF w1(1) w2(1) w3]
  have keys: "distinct (map fst N)" using w(1) unfolding faultless_def orch_wf_def by blast
  note peers = chosen_peers [OF spread keys w1(3,4)]
  have len: "length shares = Suc (length peers)" using shamir.count [OF w2(2)] w1(2) valid by simp
  have ep: "n_endpoint (w_nodes w3 i) = n_endpoint (w_nodes w i)"
    using on_rand_Inr [OF w2(1)] on_rand_Inr [OF w3] nodes1 by auto
  from returnsD [OF split_rest_returns [OF X peers len, where gid = ?gid and name = name and t = t and n = n]] wf3 R3 ep
  obtain y w' tok P m where w': "split_rest X i name t n peers shares ?gid w3 = (Inr y, w')" "nodes_wf w'"
    "ready A N i self ?gid tok P w'" "manifests_of (n_db (w_nodes w' i)) name = Some m"
    "dealt ''secret'' A i self (n_endpoint (w_nodes w i)) ?gid tok t n name P shares m" by blast
  moreover have "split_op X i name data t n w = (Inr (), w')"
    using valid w1(1) w2(1) w3 gid w'(1) by (simp add: split_op_phases bindr_def)
  ultimately show ?thesis using w2(2) by blast
qed

section \<open>Reconstruct returns\<close>

lemma db_read_ready:
  assumes "ready A N i self gid tok P w" "same_tables (n_db (w_nodes w j)) d"
  shows "ready A N i self gid tok P (set_db j d w)"
  by (rule ready_cong [OF assms(1)]) (use assms in \<open>auto simp: set_db_def set_node_def ready_def faultless_def\<close>)

lemma query_row_sound:
  assumes "\<not> sql_broken d (stmts d)" "row_stop d (stmts d) = None" "rows \<noteq> []"
  shows "\<exists>r \<in> set rows. query_row rows d = (Inr r, d\<lparr>stmts := Suc (stmts d)\<rparr>)"
proof -
  obtain r rs where "arrange (row_order d (stmts d)) rows = r # rs"
    using assms(3) by (metis arrange_Nil_iff list.exhaust)
  moreover from this have "r \<in> set rows" by (metis list.set_intros(1) set_arrange)
  ultimately show ?thesis using assms by (auto simp: query_row_def Let_def)
qed

lemma group_fragment_returns:
  assumes "P j = Some share"
  shows "returns (ready A N i self gid tok P) (on_db j (get_fragment_by_group gid))
    (\<lambda>f w. ready A N i self gid tok P w \<and> f_token f = tok \<and>
      decrypt (f_key f) (f_ciphertext f) (share_aad (f_group f) (f_pid f)) = Inr share)"
proof (rule returnsI)
  fix w assume r: "ready A N i self gid tok P w"
  let ?d = "n_db (w_nodes w j)" let ?rows = "filter (\<lambda>r. r_group r = gid) (frag_table ?d)"
  from r assms have h: "holds_share gid tok share ?d" by (simp add: ready_def placed_def)
  then have "?rows \<noteq> []" by (auto simp: holds_share_def filter_empty_conv)
  with r obtain x where x: "x \<in> set ?rows" "query_row ?rows ?d = (Inr x, ?d\<lparr>stmts := Suc (stmts ?d)\<rparr>)"
    using query_row_sound [of ?d ?rows] by (auto simp: ready_def faultless_def sound_node_def)
  then obtain f where f: "scan_fragment (storage_key ?d) x = Inr f" "f_token f = tok"
    "decrypt (f_key f) (f_ciphertext f) (share_aad (f_group f) (f_pid f)) = Inr share"
    using h by (auto simp: holds_share_def row_opens_def)
  have g: "get_fragment_by_group gid ?d = (Inr f, ?d\<lparr>stmts := Suc (stmts ?d)\<rparr>)"
    using x f by (simp add: get_fragment_by_group_def get_fragment_where_def)
  then have "on_db j (get_fragment_by_group gid) w = (Inr f, set_db j (?d\<lparr>stmts := Suc (stmts ?d)\<rparr>) w)"
    by (simp add: on_db_def set_db_def Let_def)
  with f db_read_ready [OF r get_fragment_by_group_keeps [OF g]]
  show "\<exists>f w'. on_db j (get_fragment_by_group gid) w = (Inr f, w') \<and> ready A N i self gid tok P w' \<and> f_token f = tok \<and>
      decrypt (f_key f) (f_ciphertext f) (share_aad (f_group f) (f_pid f)) = Inr share" by blast
qed

lemma local_share_returns:
  assumes "P i = Some share"
  shows "returns (ready A N i self gid tok P) (local_share i gid) (\<lambda>s w. ready A N i self gid tok P w \<and> s = share)"
  unfolding local_share_def
proof (rule returns_bindr [OF group_fragment_returns [where P = P, OF assms]])
  fix f
  show "returns (\<lambda>w. ready A N i self gid tok P w \<and> f_token f = tok \<and>
        decrypt (f_key f) (f_ciphertext f) (share_aad (f_group f) (f_pid f)) = Inr share)
      (ret (decrypt (f_key f) (f_ciphertext f) (share_aad (f_group f) (f_pid f))))
      (\<lambda>s w. ready A N i self gid tok P w \<and> s = share)"
    by (rule returns_fact) (simp add: returns_ret)
qed

lemma fetch_handler_returns:
  assumes "P j = Some share"
  shows "returns (ready A N i self gid tok P) (peer_handle j (PeerFetch gid tok))
    (\<lambda>resp w. ready A N i self gid tok P w \<and> ps_status resp = 200 \<and>
      (\<exists>ep. ps_body resp = ShareBody \<lparr>sr_share = share, sr_epoch = ep\<rparr>))"
proof -
  have "returns (\<lambda>w. ready A N i self gid tok P w \<and> f_token f = tok \<and>
        decrypt (f_key f) (f_ciphertext f) (share_aad (f_group f) (f_pid f)) = Inr share)
      (if tok \<noteq> f_token f then reply 403 (PeerError ''token di gruppo non valido'')
         else case decrypt (f_key f) (f_ciphertext f) (share_aad (f_group f) (f_pid f)) of
                Inl _ \<Rightarrow> reply 500 (PeerError ''decifratura locale fallita'')
              | Inr share \<Rightarrow> reply 200 (ShareBody \<lparr>sr_share = share, sr_epoch = f_epoch f\<rparr>))
      (\<lambda>resp w. ready A N i self gid tok P w \<and> ps_status resp = 200 \<and>
        (\<exists>ep. ps_body resp = ShareBody \<lparr>sr_share = share, sr_epoch = ep\<rparr>))" for f
    by (rule returns_fact) (auto intro: returns_post [OF reply_returns])
  then show ?thesis unfolding peer_handle_def handle_fetch_def peer_request.case
    by (intro returns_try [OF group_fragment_returns [where P = P, OF assms]]) (simp only: sum.case)
qed

lemma fetch_returns:
  assumes "A ep = Some j" "P j = Some share"
  shows "returns (ready A N i self gid tok P) (fetch_group_share ep gid tok)
    (\<lambda>s w. ready A N i self gid tok P w \<and> sr_share s = share)"
  unfolding fetch_group_share_def
  by (rule returns_bindr [OF peer_call_returns [where A = A, OF assms(1) fetch_handler_returns [where P = P, OF assms(2)]]])
     (auto simp: returns_def ret_def)

lemma member_share_returns:
  assumes "m_node mb = self \<or> A (m_endpoint mb) \<noteq> None" "P (member_place A i self mb) = Some share"
    "mf_group m = gid" "mf_token m = tok"
  shows "returns (ready A N i self gid tok P) (member_share i self m mb) (\<lambda>s w. ready A N i self gid tok P w \<and> s = share)"
proof (cases "m_node mb = self")
  case True
  with assms(2) have "P i = Some share" by (simp add: member_place_def)
  from local_share_returns [where P = P, OF this] True assms(3) show ?thesis by (simp add: member_share_def)
next
  case False
  with assms(1) obtain j where j: "A (m_endpoint mb) = Some j" by auto
  with assms(2) False have "P j = Some share" by (simp add: member_place_def)
  note f = fetch_returns [where A = A and P = P, OF j this]
  show ?thesis unfolding member_share_def assms(3,4) using False
    by (simp, intro returns_bindr [OF f]) (auto simp: returns_def ret_def)
qed

lemma dead_member:
  assumes "m_node mb \<noteq> self" "A (m_endpoint mb) = None" "ready A N i self gid tok P w"
  shows "member_share i self m mb w = (Inl ErrTransport, w\<lparr>w_calls := Suc (w_calls w)\<rparr>)"
  using assms by (simp add: member_share_def fetch_group_share_def bindr_def peer_call_def Let_def ready_def faultless_def)

text \<open>The members that answer at the addresses \<open>A\<close>.\<close>

definition answering :: "(string \<rightharpoonup> nat) \<Rightarrow> string \<Rightarrow> member \<Rightarrow> bool" where
  "answering A self mb \<longleftrightarrow> m_node mb = self \<or> A (m_endpoint mb) \<noteq> None"

lemma gather_returns:
  assumes "\<And>mb. mb \<in> set mbs \<Longrightarrow> answering A self mb \<Longrightarrow> P (member_place A i self mb) = Some (sh mb)"
    "mf_group m = gid" "mf_token m = tok" "0 \<le> mf_threshold m"
  shows "returns (ready A N i self gid tok P) (gather i self m mbs acc)
    (\<lambda>ss w. ready A N i self gid tok P w \<and>
      ss = acc @ take (nat (mf_threshold m) - length acc) (map sh (filter (answering A self) mbs)))"
  using assms(1)
proof (induction mbs arbitrary: acc)
  case Nil
  then show ?case by (simp add: returns_ret)
next
  case (Cons mb mbs)
  let ?R = "ready A N i self gid tok P"
  have IH: "returns ?R (gather i self m mbs acc)
    (\<lambda>ss w. ?R w \<and> ss = acc @ take (nat (mf_threshold m) - length acc) (map sh (filter (answering A self) mbs)))" for acc
    by (rule Cons.IH) (use Cons.prems in auto)
  show ?case
  proof (cases "mf_threshold m \<le> int (length acc)")
    case True
    then show ?thesis by (simp add: returns_ret)
  next
    case False
    then have less: "nat (mf_threshold m) - length acc = Suc (nat (mf_threshold m) - Suc (length acc))"
      using assms(4) by linarith
    show ?thesis
    proof (cases "answering A self mb")
      case True
      then have "P (member_place A i self mb) = Some (sh mb)" using Cons.prems by simp
      note ms = member_share_returns [where P = P, OF True [unfolded answering_def] this assms(2,3)]
      have "returns (\<lambda>w. ?R w \<and> s = sh mb) (gather i self m mbs (acc @ [s]))
        (\<lambda>ss w. ?R w \<and> ss = acc @ take (nat (mf_threshold m) - length acc) (map sh (filter (answering A self) (mb # mbs))))" for s
        by (rule returns_fact, rule returns_post [OF IH]) (use True less in simp)
      then show ?thesis using False by (simp add: returns_try [OF ms])
    next
      case dead: False
      have "attempt (member_share i self m mb) (\<lambda>r. case r of
        Inl _ \<Rightarrow> gather i self m mbs acc | Inr s \<Rightarrow> gather i self m mbs (acc @ [s])) w =
        gather i self m mbs acc (w\<lparr>w_calls := Suc (w_calls w)\<rparr>)" if "?R w" for w
        using dead_member [OF _ _ that] dead by (simp add: attempt_def answering_def)
      with IH [of acc] dead False show ?thesis by (simp add: returns_def)
    qed
  qed
qed

lemma get_manifest_returns:
  assumes w: "ready A N i self gid tok P w" "nodes_wf w" and m: "manifests_of (n_db (w_nodes w i)) name = Some m"
  shows "\<exists>w'. on_db i (get_manifest name) w = (Inr m, w') \<and> ready A N i self gid tok P w'"
proof -
  let ?d = "n_db (w_nodes w i)" let ?rows = "filter (\<lambda>r. w_name r = name) (manifest_table ?d)"
  from m obtain x0 where x0: "row_at w_name (manifest_table ?d) name = Some x0"
    by (auto simp: manifests_of_def split: Option.bind_splits)
  then have "?rows \<noteq> []" by (auto simp: filter_empty_conv dest: row_at_Some)
  with w(1) obtain x where x: "x \<in> set ?rows" "query_row ?rows ?d = (Inr x, ?d\<lparr>stmts := Suc (stmts ?d)\<rparr>)"
    using query_row_sound [of ?d ?rows] by (auto simp: ready_def faultless_def sound_node_def)
  have "db_wf ?d" using w(2) by (rule nodes_wf_db)
  then have "row_at w_name (manifest_table ?d) name = Some x" using row_at_member [of w_name "manifest_table ?d" x] x(1)
    by (auto simp: db_wf_def)
  with m have "scan_manifest x = Inr m" by (auto simp: manifests_of_def split: sum.splits)
  with x have g: "get_manifest name ?d = (Inr m, ?d\<lparr>stmts := Suc (stmts ?d)\<rparr>)"
    by (simp add: get_manifest_def get_manifest_where_def)
  then have "on_db i (get_manifest name) w = (Inr m, set_db i (?d\<lparr>stmts := Suc (stmts ?d)\<rparr>) w)"
    by (simp add: on_db_def set_db_def Let_def)
  with db_read_ready [OF w(1) get_manifest_keeps [OF g]] show ?thesis by blast
qed

lemma distinct_share_of:
  assumes "map (\<lambda>mb. P (f mb)) mbs = map Some shares" "distinct shares"
  shows "distinct (map (\<lambda>mb. the (P (f mb))) (filter q mbs))"
    "set (map (\<lambda>mb. the (P (f mb))) (filter q mbs)) \<subseteq> set shares"
proof -
  have m: "map (\<lambda>mb. the (P (f mb))) mbs = shares"
    using arg_cong [OF assms(1), of "map the"] by (simp add: comp_def)
  then have "distinct (map (\<lambda>mb. the (P (f mb))) mbs)" using assms(2) by simp
  then show "distinct (map (\<lambda>mb. the (P (f mb))) (filter q mbs))" by (rule distinct_map_filter)
  show "set (map (\<lambda>mb. the (P (f mb))) (filter q mbs)) \<subseteq> set shares" using m by auto
qed

text \<open>A member list that holds the shares of a deal still gives the secret when at least \<open>t\<close> members answer.\<close>

lemma reconstruct_returns:
  assumes w: "ready A' N i self gid tok P w" "nodes_wf w" and m: "manifests_of (n_db (w_nodes w i)) name = Some m"
    "mf_group m = gid" "mf_token m = tok" and deal: "split_secret data n (mf_threshold m) e = (Inr shares, e')"
    and hold: "members_hold A i self P (mf_members m) shares" and sub: "A' \<subseteq>\<^sub>m A"
    and alive: "mf_threshold m \<le> int (length (filter (answering A' self) (mf_members m)))"
  shows "\<exists>w'. reconstruct i name w = (Inr data, w') \<and> ready A' N i self gid tok P w'"
proof -
  from get_manifest_returns [OF w m(1)] obtain w1 where w1: "on_db i (get_manifest name) w = (Inr m, w1)"
    "ready A' N i self gid tok P w1" by blast
  have t: "2 \<le> mf_threshold m" "cap_ok (mf_threshold m)"
    using split_Inr(1) [OF deal] by (simp_all add: split_valid_def cap_ok_def)
  let ?sh = "\<lambda>mb. the (P (member_place A i self mb))"
  have place: "P (member_place A' i self mb) = Some (?sh mb)" if "mb \<in> set (mf_members m)" "answering A' self mb" for mb
  proof -
    have "P (member_place A i self mb) \<in> set (map (\<lambda>mb. P (member_place A i self mb)) (mf_members m))" using that(1) by simp
    also have "\<dots> = set (map Some shares)" using hold unfolding members_hold_def by simp
    finally have "P (member_place A i self mb) \<in> Some ` set shares" by simp
    moreover have "member_place A' i self mb = member_place A i self mb"
      using that(2) sub by (auto simp: member_place_def answering_def map_le_def dom_def)
    ultimately show ?thesis by auto
  qed
  let ?got = "take (nat (mf_threshold m)) (map ?sh (filter (answering A' self) (mf_members m)))"
  have "returns (ready A' N i self gid tok P) (gather i self m (mf_members m) [])
    (\<lambda>ss w. ready A' N i self gid tok P w \<and>
      ss = [] @ take (nat (mf_threshold m) - length ([] :: bytes list)) (map ?sh (filter (answering A' self) (mf_members m))))"
    by (rule gather_returns [where sh = ?sh and P = P and A = A']) (use place m t in auto)
  from returnsD [OF this w1(2)] obtain w2 where w2: "gather i self m (mf_members m) [] w1 = (Inr ?got, w2)"
    "ready A' N i self gid tok P w2" by auto
  note d = distinct_share_of [of P "member_place A i self", OF _ shamir.distinct_shares [OF deal], of "mf_members m" "answering A' self"]
  have "map (\<lambda>mb. P (member_place A i self mb)) (mf_members m) = map Some shares" using hold by (simp add: members_hold_def)
  note d = d [OF this]
  have len: "length ?got = nat (mf_threshold m)" using alive by simp
  have "combine ?got = Inr data"
  proof (rule shamir.recover_set [OF deal])
    show "distinct ?got" using d(1) by (rule distinct_take)
    show "set ?got \<subseteq> set shares" using set_take_subset d(2) by (rule subset_trans)
  qed (use len in simp)
  moreover have "n_id (w_nodes w1 i) = self" using w1(2) by (simp add: ready_def)
  ultimately have "reconstruct i name w = (Inr data, w2)"
    using w1(1) w2(1) t alive by (simp add: reconstruct_def bindr_def with_node_def ret_def)
  with w2(2) show ?thesis by blast
qed

section \<open>Healing returns\<close>

text \<open>Reading and probing draw no randomness and write no row.\<close>

definition undisturbed :: "world \<Rightarrow> world \<Rightarrow> bool" where
  "undisturbed w0 w \<longleftrightarrow> (\<forall>j. n_entropy (w_nodes w j) = n_entropy (w_nodes w0 j) \<and>
     frag_table (n_db (w_nodes w j)) = frag_table (n_db (w_nodes w0 j)) \<and>
     manifest_table (n_db (w_nodes w j)) = manifest_table (n_db (w_nodes w0 j)) \<and>
     peer_table (n_db (w_nodes w j)) = peer_table (n_db (w_nodes w0 j)) \<and>
     storage_key (n_db (w_nodes w j)) = storage_key (n_db (w_nodes w0 j)))"

lemma undisturbed_refl [simp]: "undisturbed w w"
  by (simp add: undisturbed_def)

lemma on_db_undisturbed:
  assumes "\<And>d r d'. f d = (r, d') \<Longrightarrow> same_tables d d'" shows "yields (undisturbed w0) (on_db j f) any"
proof (rule yieldsI)
  fix w r w' assume w: "undisturbed w0 w" "on_db j f w = (r, w')"
  obtain q d where q: "f (n_db (w_nodes w j)) = (q, d)" by force
  with w(2) have "w' = set_db j d w" by (simp add: on_db_def set_db_def Let_def)
  moreover have "frag_table d = frag_table (n_db (w_nodes w j))" "manifest_table d = manifest_table (n_db (w_nodes w j))"
    "peer_table d = peer_table (n_db (w_nodes w j))" "storage_key d = storage_key (n_db (w_nodes w j))" using assms [OF q] by (simp_all add: same_tables_def same_engine_def)
  ultimately show "undisturbed w0 w' \<and> (\<forall>x. r = Inr x \<longrightarrow> True)"
    using w(1) by (simp add: undisturbed_def)
qed

lemma db_undisturbed:
  "yields (undisturbed w0) (on_db j (get_fragment_by_group g)) any"
  "yields (undisturbed w0) (on_db j (get_manifest name)) any"
  by (rule on_db_undisturbed, erule keeps)+

lemma reply_undisturbed: "yields (undisturbed w0) (reply st b) any"
  unfolding reply_def by (rule yields_ret_any)

interpretation undisturbed: messaging "undisturbed w0" for w0
  by unfold_locales (simp_all add: undisturbed_def)

lemma reads_undisturbed:
  "yields (undisturbed w0) (fetch_group_share ep g tk) any" "yields (undisturbed w0) (check_presence ep g tk) any"
  unfolding fetch_group_share_def check_presence_def
  by (auto simp: peer_handle_def handle_fetch_def handle_status_def split: sum.split
      intro!: yields_seq undisturbed.call_any yields_ret_any yields_try db_undisturbed reply_undisturbed)

lemma gather_undisturbed: "yields (undisturbed w0) (gather i self m mbs acc) any"
proof (induction mbs arbitrary: acc)
  case (Cons mb mbs)
  have "yields (undisturbed w0) (member_share i self m mb) any"
    unfolding member_share_def local_share_def
    by (auto intro!: yields_seq reads_undisturbed db_undisturbed yields_ret_any)
  then show ?case by (auto split: sum.split intro!: yields_try Cons yields_ret_any)
qed (simp add: yields_ret_any)

lemma reconstruct_undisturbed: "yields (undisturbed w0) (reconstruct i name) any"
  unfolding reconstruct_def
  by (auto intro!: yields_seq db_undisturbed yields_with_node gather_undisturbed yields_ret_any)

lemma probe_undisturbed: "yields (undisturbed w0) (probe_members m mbs) any"
  by (induction m mbs rule: probe_members.induct)
     (auto intro!: yields_ret_any yields_try reads_undisturbed yields_seq)

lemma undisturbed_group_id: "undisturbed w w' \<Longrightarrow> split_group_id i data w' = split_group_id i data w"
  by (simp add: undisturbed_def split_group_id_def drawn_id_def)

lemma presence_returns:
  assumes "A ep = Some j" "P j = Some share"
  shows "returns (ready A N i self gid tok P) (check_presence ep gid tok)
    (\<lambda>p w. ready A N i self gid tok P w \<and> pr_present p)"
proof -
  have "returns (\<lambda>w. ready A N i self gid tok P w \<and> f_token f = tok \<and>
        decrypt (f_key f) (f_ciphertext f) (share_aad (f_group f) (f_pid f)) = Inr share)
      (if tok \<noteq> f_token f then reply 403 (PeerError ''token di gruppo non valido'')
         else reply 200 (PresenceBody \<lparr>pr_present = True, pr_epoch = f_epoch f\<rparr>))
      (\<lambda>resp w. ready A N i self gid tok P w \<and> ps_status resp = 200 \<and>
        (\<exists>ep. ps_body resp = PresenceBody \<lparr>pr_present = True, pr_epoch = ep\<rparr>))" for f
    by (rule returns_fact) (auto intro: returns_post [OF reply_returns])
  then have "returns (ready A N i self gid tok P) (peer_handle j (PeerStatus gid tok))
    (\<lambda>resp w. ready A N i self gid tok P w \<and> ps_status resp = 200 \<and>
        (\<exists>ep. ps_body resp = PresenceBody \<lparr>pr_present = True, pr_epoch = ep\<rparr>))"
    unfolding peer_handle_def handle_status_def peer_request.case
    by (intro returns_try [OF group_fragment_returns [where P = P, OF assms(2)]]) (simp only: sum.case)
  from peer_call_returns [where A = A, OF assms(1) this] show ?thesis
    unfolding check_presence_def by (rule returns_bindr) (auto simp: returns_def ret_def)
qed

lemma absent_member:
  "A ep = None \<Longrightarrow> ready A N i self gid tok P w \<Longrightarrow>
   check_presence ep gid tok w = (Inl ErrTransport, w\<lparr>w_calls := Suc (w_calls w)\<rparr>)"
  by (simp add: check_presence_def bindr_def peer_call_def Let_def ready_def faultless_def)

lemma probe_returns:
  assumes "\<And>mb j. mb \<in> set mbs \<Longrightarrow> A (m_endpoint mb) = Some j \<Longrightarrow> P j \<noteq> None"
    "mf_group m = gid" "mf_token m = tok"
  shows "returns (ready A N i self gid tok P) (probe_members m mbs)
    (\<lambda>alive w. ready A N i self gid tok P w \<and> alive = filter (\<lambda>mb. A (m_endpoint mb) \<noteq> None) mbs)"
  using assms(1)
proof (induction mbs)
  case Nil
  then show ?case by (simp add: returns_ret)
next
  case (Cons mb mbs)
  let ?R = "ready A N i self gid tok P"
  have IH: "returns ?R (probe_members m mbs) (\<lambda>alive w. ?R w \<and> alive = filter (\<lambda>mb. A (m_endpoint mb) \<noteq> None) mbs)"
    using Cons by fastforce
  show ?case
  proof (cases "A (m_endpoint mb)")
    case None
    have "returns ?R (bindr (probe_members m mbs) (\<lambda>alive. ret (Inr alive)))
      (\<lambda>alive w. ?R w \<and> alive = filter (\<lambda>mb. A (m_endpoint mb) \<noteq> None) (mb # mbs))"
      by (rule returns_bindr [OF IH], rule returns_ret) (simp add: None)
    then show ?thesis using None absent_member [where A = A and ep = "m_endpoint mb", OF None]
      by (simp add: returns_def attempt_def assms(2,3))
  next
    case (Some j)
    with Cons.prems obtain share where "P j = Some share" by fastforce
    note here = presence_returns [where A = A and P = P, OF Some this]
    have "returns (\<lambda>w. ?R w \<and> pr_present p) (bindr (probe_members m mbs) (\<lambda>alive. ret (Inr (if pr_present p then mb # alive else alive))))
      (\<lambda>alive w. ?R w \<and> alive = filter (\<lambda>mb. A (m_endpoint mb) \<noteq> None) (mb # mbs))" for p
      by (rule returns_fact, rule returns_bindr [OF IH], rule returns_ret) (simp add: Some)
    then show ?thesis unfolding probe_members.simps assms(2,3)
      by (intro returns_try [OF here]) (simp only: sum.case)
  qed
qed

text \<open>
  What a cycle does first when members are lost, but not too many: it finds out who is alive and
  gathers the data; what is left is to share it anew.
\<close>

lemma heal_gathers:
  assumes w: "ready A N i self gid tok P w" "nodes_wf w"
    and m: "manifests_of (n_db (w_nodes w i)) (mf_name m) = Some m" "mf_group m = gid" "mf_token m = tok"
    and deal: "split_secret data n (mf_threshold m) e = (Inr shares, e')"
    and hold: "members_hold A0 i self P (mf_members m) shares" and sub: "A \<subseteq>\<^sub>m A0"
    and own: "\<And>mb. mb \<in> set (mf_members m) \<Longrightarrow> m_node mb = self \<Longrightarrow> A (m_endpoint mb) = Some i"
    and live: "live = length (filter (\<lambda>mb. A (m_endpoint mb) \<noteq> None) (mf_members m))"
      "mf_threshold m \<le> int live" "int live \<le> mf_threshold m + margin" "int live < mf_total m"
  shows "\<exists>w1 w2. heal_one X i margin m w = reshare_manifest X i m w1 \<and>
    reconstruct i (mf_name m) w1 = (Inr data, w2) \<and> undisturbed w w2 \<and> nodes_wf w2 \<and> ready A N i self gid tok P w2"
proof -
  have place: "P (member_place A0 i self mb) \<noteq> None" if "mb \<in> set (mf_members m)" for mb
  proof -
    have "P (member_place A0 i self mb) \<in> set (map (\<lambda>mb. P (member_place A0 i self mb)) (mf_members m))" using that by simp
    also have "\<dots> = set (map Some shares)" using hold unfolding members_hold_def by simp
    finally show ?thesis by auto
  qed
  have there: "P j \<noteq> None" if "mb \<in> set (mf_members m)" "A (m_endpoint mb) = Some j" for mb j
  proof -
    have "member_place A0 i self mb = j"
      using that own [OF that(1)] sub by (auto simp: member_place_def map_le_def dom_def)
    with place [OF that(1)] show ?thesis by simp
  qed
  have "returns (ready A N i self gid tok P) (probe_members m (mf_members m))
    (\<lambda>alive w. ready A N i self gid tok P w \<and> alive = filter (\<lambda>mb. A (m_endpoint mb) \<noteq> None) (mf_members m))"
    by (rule probe_returns [where P = P and A = A]) (use there m(2,3) in auto)
  from returnsD [OF this w(1)]
  obtain alive w1 where w1: "probe_members m (mf_members m) w = (Inr alive, w1)" "ready A N i self gid tok P w1"
    "alive = filter (\<lambda>mb. A (m_endpoint mb) \<noteq> None) (mf_members m)" by auto
  have u1: "undisturbed w w1" by (rule yieldsD(1) [OF probe_undisturbed undisturbed_refl w1(1)])
  have wf1: "nodes_wf w1" by (rule yieldsD(1) [OF wf.probe_members_any w(2) w1(1)])
  have m1: "manifests_of (n_db (w_nodes w1 i)) (mf_name m) = Some m"
    using u1 m(1) by (simp add: undisturbed_def manifests_of_def)
  have "length (filter (\<lambda>mb. A (m_endpoint mb) \<noteq> None) mbs) \<le> length (filter (answering A self) mbs)" for mbs
    by (induction mbs) (auto simp: answering_def)
  then have "live \<le> length (filter (answering A self) (mf_members m))" unfolding live(1) .
  then have "mf_threshold m \<le> int (length (filter (answering A self) (mf_members m)))" using live(2) by linarith
  from reconstruct_returns [OF w1(2) wf1 m1 m(2,3) deal hold sub this] obtain w2 where
    w2: "reconstruct i (mf_name m) w1 = (Inr data, w2)" "ready A N i self gid tok P w2" by blast
  have "undisturbed w w2" by (rule yieldsD(1) [OF reconstruct_undisturbed u1 w2(1)])
  moreover have "nodes_wf w2" by (rule yieldsD(1) [OF wf.reconstruct_any wf1 w2(1)])
  moreover have "heal_one X i margin m w = reshare_manifest X i m w1"
    using w1 live by (simp add: heal_one_def bindr_def Let_def)
  ultimately show ?thesis using w2 by blast
qed

text \<open>
  A cycle over a secret that has lost members, but not too many, splits it anew among the peers
  that are reachable now.
\<close>

lemma heal_returns:
  assumes X: "hkdf_law X" and w: "ready A N i self gid tok P w" "nodes_wf w"
    and m: "manifests_of (n_db (w_nodes w i)) (mf_name m) = Some m" "mf_group m = gid" "mf_token m = tok"
      "mf_kind m = ''secret''"
    and deal: "split_secret data (mf_total m) (mf_threshold m) e = (Inr shares, e')"
    and hold: "members_hold A0 i self P (mf_members m) shares" and sub: "A \<subseteq>\<^sub>m A0"
    and own: "\<And>mb. mb \<in> set (mf_members m) \<Longrightarrow> m_node mb = self \<Longrightarrow> A (m_endpoint mb) = Some i"
    and live: "live = length (filter (\<lambda>mb. A (m_endpoint mb) \<noteq> None) (mf_members m))"
      "mf_threshold m \<le> int live" "int live \<le> mf_threshold m + margin" "int live < mf_total m"
    and enough: "mf_total m - 1 \<le> int (length (live_peers A self (node_infos N)))" and spread: "spread A N i self"
    and unused: "\<And>j. split_group_id i data w \<notin> r_group ` set (frag_table (n_db (w_nodes w j)))"
  shows "\<exists>w' ep tok' P' m' shares' e e'. heal_one X i margin m w = (Inr (), w') \<and> nodes_wf w' \<and>
    split_secret data (mf_total m) (mf_threshold m) e = (Inr shares', e') \<and>
    ready A N i self (split_group_id i data w) tok' P' w' \<and>
    manifests_of (n_db (w_nodes w' i)) (mf_name m) = Some m' \<and>
    dealt ''secret'' A i self ep (split_group_id i data w) tok' (mf_threshold m) (mf_total m) (mf_name m) P' shares' m'"
proof -
  from heal_gathers [OF w m(1-3) deal hold sub own live, of X] obtain w1 w2 where
    heal: "heal_one X i margin m w = reshare_manifest X i m w1" and w2: "reconstruct i (mf_name m) w1 = (Inr data, w2)"
    "undisturbed w w2" "nodes_wf w2" "ready A N i self gid tok P w2" by blast
  have gid: "split_group_id i data w2 = split_group_id i data w" using w2(2) by (rule undisturbed_group_id)
  have unused2: "split_group_id i data w2 \<notin> r_group ` set (frag_table (n_db (w_nodes w2 j)))" for j
    using unused w2(2) unfolding gid by (simp add: undisturbed_def)
  have valid: "2 \<le> mf_threshold m" "mf_threshold m \<le> mf_total m" "mf_total m \<le> 255" "data \<noteq> []"
    using split_Inr(1) [OF deal] by (simp_all add: split_valid_def)
  have "faultless A N w2" "n_id (w_nodes w2 i) = self" using w2(4) by (simp_all add: ready_def)
  from split_returns [OF X valid this(1) w2(3) this(2) enough spread unused2, of "mf_name m"]
  obtain w' tok' P' m' shares' e3 e4 where w': "split_op X i (mf_name m) data (mf_threshold m) (mf_total m) w2 = (Inr (), w')"
    "nodes_wf w'" "split_secret data (mf_total m) (mf_threshold m) e3 = (Inr shares', e4)"
    "ready A N i self (split_group_id i data w) tok' P' w'" "manifests_of (n_db (w_nodes w' i)) (mf_name m) = Some m'"
    "dealt ''secret'' A i self (n_endpoint (w_nodes w2 i)) (split_group_id i data w) tok' (mf_threshold m) (mf_total m) (mf_name m) P' shares' m'"
    unfolding gid by blast
  have "heal_one X i margin m w = (Inr (), w')"
    using w2(1) w'(1) m(4) by (simp add: heal reshare_manifest_def attempt_def bindr_def ret_def)
  with w' show ?thesis by blast
qed

section \<open>What a dealt manifest is good for\<close>

lemma move_addresses: "ready A N i self gid tok P w \<Longrightarrow> ready A' N i self gid tok P (w\<lparr>w_addr := A'\<rparr>)"
  by (simp add: ready_def faultless_def placed_def)

text \<open>\<open>recoverable\<close>: every member answers now, and any \<open>t\<close> of them will do later.\<close>

definition recoverable :: "nat \<Rightarrow> string \<Rightarrow> string \<Rightarrow> bytes \<Rightarrow> int \<Rightarrow> int \<Rightarrow> (string \<rightharpoonup> nat) \<Rightarrow> world \<Rightarrow> bool" where
  "recoverable i self name data t n A w \<longleftrightarrow>
     (\<exists>m. manifests_of (n_db (w_nodes w i)) name = Some m \<and> mf_threshold m = t \<and>
        length (mf_members m) = nat n \<and> list_all (answering A self) (mf_members m) \<and>
        (\<forall>A'. A' \<subseteq>\<^sub>m A \<longrightarrow> t \<le> int (length (filter (answering A' self) (mf_members m))) \<longrightarrow>
           (\<exists>w2. reconstruct i name (w\<lparr>w_addr := A'\<rparr>) = (Inr data, w2))))"

lemma dealt_recoverable:
  assumes "ready A N i self gid tok P w" "nodes_wf w" "manifests_of (n_db (w_nodes w i)) name = Some m"
    "split_secret data n t e = (Inr shares, e')" "dealt k A i self ep gid tok t n name P shares m"
  shows "recoverable i self name data t n A w"
proof -
  from assms(5) have m: "mf_group m = gid" "mf_token m = tok" "mf_threshold m = t"
    and hold: "members_hold A i self P (mf_members m) shares" by (simp_all add: dealt_def)
  have "length (mf_members m) = nat n"
    using hold shamir.count [OF assms(4)] unfolding members_hold_def by (metis length_map)
  moreover have "list_all (answering A self) (mf_members m)"
    using hold by (simp add: members_hold_def answering_def list_all_iff)
  moreover have "\<exists>w2. reconstruct i name (w\<lparr>w_addr := A'\<rparr>) = (Inr data, w2)"
    if "A' \<subseteq>\<^sub>m A" "t \<le> int (length (filter (answering A' self) (mf_members m)))" for A'
    using reconstruct_returns [OF move_addresses [OF assms(1)], of A' name m data n e shares e' A] m hold that assms(2-4)
    by (auto simp: nodes_wf_def)
  ultimately show ?thesis unfolding recoverable_def using assms(3) m(3) by blast
qed

lemma recoverable_now:
  assumes "recoverable i self name data t n A w" "0 \<le> n" "t \<le> n"
  shows "\<exists>w2. reconstruct i name (w\<lparr>w_addr := A\<rparr>) = (Inr data, w2)"
proof -
  from assms(1) obtain m :: manifest where m: "length (mf_members m) = nat n" "list_all (answering A self) (mf_members m)"
    "\<forall>A'. A' \<subseteq>\<^sub>m A \<longrightarrow> t \<le> int (length (filter (answering A' self) (mf_members m))) \<longrightarrow>
       (\<exists>w2. reconstruct i name (w\<lparr>w_addr := A'\<rparr>) = (Inr data, w2))" unfolding recoverable_def by blast
  have "filter (answering A self) (mf_members m) = mf_members m" using m(2) by (simp add: list_all_iff)
  then show ?thesis using spec [OF m(3), of A] m(1) assms(2,3) by simp
qed

text \<open>The members of a dealt manifest sit at different nodes.\<close>

lemma dealt_places:
  assumes "dealt k A i self ep gid tok t n name P shares m" "split_secret data n t e = (Inr shares, e')"
  shows "distinct (map (member_place A i self) (mf_members m))"
proof -
  have "map (P \<circ> member_place A i self) (mf_members m) = map Some shares"
    using assms(1) by (simp add: dealt_def members_hold_def comp_def)
  moreover have "distinct (map Some shares)" using shamir.distinct_shares [OF assms(2)] by (simp add: distinct_map)
  ultimately have "distinct (map P (map (member_place A i self) (mf_members m)))" by simp
  then show ?thesis by (simp only: distinct_map)
qed

lemma spread_sub:
  assumes "A' \<subseteq>\<^sub>m A" "spread A N i self" shows "spread A' N i self"
proof -
  have sub: "live_peers A' self ns = filter (\<lambda>p. A' (ni_endpoint p) \<noteq> None) (live_peers A self ns)" for ns
    using assms(1) by (auto simp: live_peers_def map_le_def dom_def intro!: filter_cong)
  have eq: "A' (ni_endpoint p) = A (ni_endpoint p)" if "p \<in> set (live_peers A' self (node_infos N))" for p
    using that assms(1) by (auto simp: live_peers_def map_le_def dom_def)
  show ?thesis unfolding spread_def
  proof (intro conjI ballI inj_onI)
    fix p assume p: "p \<in> set (live_peers A' self (node_infos N))"
    then show "A' (ni_endpoint p) \<noteq> Some i" using assms(2) eq [OF p] sub by (auto simp: spread_def)
  next
    fix p q assume p: "p \<in> set (live_peers A' self (node_infos N))" and q: "q \<in> set (live_peers A' self (node_infos N))"
      and "A' (ni_endpoint p) = A' (ni_endpoint q)"
    then show "p = q" using assms(2) eq [OF p] eq [OF q] sub by (auto simp: spread_def dest: inj_onD)
  qed
qed

end
