(* ===== verification/Exchange.thy ===== *)
theory Exchange
  imports Progress
begin

text \<open>
  What single exchanges do to the databases involved: a mutation with the notices it sends, a
  fetch with and without the group's token, a notice from anyone.
\<close>

section \<open>Fragments up to their member lists\<close>

text \<open>Notices rewrite member lists; everything else of a fragment is its core.\<close>

definition core :: "fragment \<Rightarrow> fragment" where
  "core f = f\<lparr>f_members := [], f_updated := 0\<rparr>"

definition cores :: "db \<Rightarrow> string \<rightharpoonup> fragment" where
  "cores d pid = map_option core (frags_of d pid)"

lemma core_simps [simp]: "core (f\<lparr>f_members := ms\<rparr>) = core f" "core (f\<lparr>f_updated := u\<rparr>) = core f"
  by (simp_all add: core_def)

lemma cores_same_tables: "same_tables d d' \<Longrightarrow> cores d' = cores d"
  by (simp add: cores_def fun_eq_iff same_tables_frags)

lemma cores_fragments_only: "frag_table d' = frag_table d \<Longrightarrow> storage_key d' = storage_key d \<Longrightarrow> cores d' = cores d"
  by (simp add: cores_def frags_of_def fun_eq_iff)

lemma readable_core:
  assumes "same_but_members x y" "scan_fragment k x = Inr f"
  shows "map_option core (readable k y) = map_option core (readable k x)"
  using assms by (auto simp: same_but_members_def readable_def scan_fragment_def unmarshal_members_def core_def
      split: sum.splits json_column.splits)

lemma update_sibling_cores:
  assumes "db_wf d" "update_sibling g oldPID newPID ep d = (r, d')" shows "cores d' = cores d"
  using assms(2)
proof (rule update_sibling_shape)
  fix n t assume d': "d' = d\<lparr>stmts := n, frag_table := t\<rparr>" and t: "list_all2 same_but_members (frag_table d) t"
  have "map_option core (Option.bind (row_at r_pid t pid) (readable k)) =
      map_option core (Option.bind (row_at r_pid xs pid) (readable k))"
    if "list_all2 same_but_members xs t" "\<forall>x \<in> set xs. \<exists>f. scan_fragment k x = Inr f" for xs t pid k
    using that
  proof (induction rule: list_all2_induct)
    case (Cons x xs y t)
    then have "r_pid y = r_pid x" by (auto simp: same_but_members_def)
    moreover obtain f where "scan_fragment k x = Inr f" using Cons.prems by auto
    ultimately show ?case using Cons readable_core [OF Cons.hyps(1)] by (auto simp: row_at_def)
  qed (simp add: row_at_def)
  then show ?thesis using t assms(1) by (simp add: d' cores_def frags_of_def db_wf_def fun_eq_iff)
qed

text \<open>Calls to the orchestrator and notices leave the cores of every node alone.\<close>

definition cored :: "(nat \<Rightarrow> string \<rightharpoonup> fragment) \<Rightarrow> world \<Rightarrow> bool" where
  "cored C w \<longleftrightarrow> nodes_wf w \<and> (\<forall>j. cores (n_db (w_nodes w j)) = C j)"

interpretation cored: messaging "cored C" for C
  by unfold_locales (simp_all add: cored_def nodes_wf_def)

lemma cored_set_db: "cored C w \<Longrightarrow> db_wf d \<Longrightarrow> cores d = C j \<Longrightarrow> cored C (set_db j d w)"
  by (simp add: cored_def nodes_wf_def)

lemma on_db_cored:
  assumes "\<And>d r d'. db_wf d \<Longrightarrow> f d = (r, d') \<Longrightarrow> db_wf d' \<and> cores d' = cores d"
  shows "yields (cored C) (on_db j f) any"
proof (rule yieldsI)
  fix w r w' assume w: "cored C w" "on_db j f w = (r, w')"
  obtain q d where q: "f (n_db (w_nodes w j)) = (q, d)" by force
  with w(2) have w': "w' = set_db j d w" by (simp add: on_db_def set_db_def Let_def)
  have wf: "db_wf (n_db (w_nodes w j))" and c: "cores (n_db (w_nodes w j)) = C j"
    using w(1) by (simp_all add: cored_def nodes_wf_def)
  from assms [OF wf q] c cored_set_db [OF w(1), of d j] show "cored C w' \<and> (\<forall>x. r = Inr x \<longrightarrow> True)"
    unfolding w' by simp
qed

lemma notice_cored: "yields (cored C) (handle_notice j body) any"
proof -
  have "yields (cored C) (on_db j (update_sibling g oldPID newPID ep)) any" for g oldPID newPID ep
    by (rule on_db_cored) (use update_sibling_wf update_sibling_cores in blast)
  moreover have "yields (cored C) (on_db j (update_manifest_member g oldPID newPID ep)) any" for g oldPID newPID ep
    by (rule on_db_cored) (use update_manifest_member_wf update_manifest_rows cores_fragments_only in blast)
  moreover have "yields (cored C) (reply st b) any" for st b
    unfolding reply_def by (rule yields_ret_any)
  ultimately show ?thesis unfolding handle_notice_def
    by (auto split: option.split sum.split intro!: yields_try)
qed

lemma notify_cored: "yields (cored C) (notify_siblings i frag oldPID newPID) any"
proof -
  have call: "yields (cored C) (peer_call ep (PeerNotice body)) any" for ep body
    by (rule cored.call_any) (simp add: peer_handle_def notice_cored)
  show ?thesis unfolding notify_siblings_def notify_sibling_def notify_mutation_def ok_status_def
    by (auto intro!: yields_for_each [where V = any] yields_with_node yields_ret_any yields_try yields_seq call)
qed

section \<open>Mutation\<close>

definition mutated :: "fragment \<Rightarrow> string \<Rightarrow> bytes \<Rightarrow> bytes \<Rightarrow> fragment" where
  "mutated f newPID key ct =
     \<lparr>f_pid = newPID, f_group = f_group f, f_token = f_token f, f_chain = f_chain f,
      f_epoch = f_epoch f + 1, f_threshold = f_threshold f, f_total = f_total f,
      f_key = key, f_ciphertext = ct, f_members = f_members f, f_updated = 0\<rparr>"

lemma mutation_phases:
  assumes "apply_mutation X i pid seed reason w = (Inr (), w')"
  obtains f w1 le w2 key share ct w3 w4 w5 n where
    "on_db i (get_fragment pid) w = (Inr f, w1)" "on_rand i (rand_read 32) w1 = (Inr le, w2)"
    "advance X (f_key f) seed le = Inr key"
    "decrypt (f_key f) (f_ciphertext f) (share_aad (f_group f) pid) = Inr share"
    "on_rand i (encrypt key share (share_aad (f_group f) (next_pseudo_id pid seed))) w2 = (Inr ct, w3)"
    "on_db_rand i (put_fragment (mutated f (next_pseudo_id pid seed) key ct)) w3 = (Inr (), w4)"
    "on_db i (delete_fragment pid) w4 = (Inr (), w5)"
    "attempt (client_ack (mutation_ack_of n f pid (next_pseudo_id pid seed) ct seed reason))
       (\<lambda>_. notify_siblings i f pid (next_pseudo_id pid seed)) w5 = (Inr (), w')"
  using assms unfolding apply_mutation_def Let_def mutated_def [symmetric]
  by (auto simp: ret_def with_node_def dest!: bindr_Inr)

lemma on_db_rand_Inr: "on_db_rand i f w = (Inr x, w') \<Longrightarrow>
    \<exists>d e. f (n_db (w_nodes w i)) (n_entropy (w_nodes w i)) = (Inr x, d, e) \<and>
      w' = set_node i ((w_nodes w i)\<lparr>n_db := d, n_entropy := e\<rparr>) w"
  by (auto simp: on_db_rand_def Let_def split: prod.splits)

lemma ack_cored: "yields (cored C) (attempt (client_ack a) (\<lambda>_. notify_siblings i f oldPID newPID)) any"
  by (intro yields_try cored.clients_any notify_cored)

lemma mutation_moves_core:
  assumes wf: "nodes_wf w" and m: "apply_mutation X i pid seed reason w = (Inr (), w')"
    and new: "next_pseudo_id pid seed \<noteq> pid"
  shows "\<exists>f share key ct. frags_of (n_db (w_nodes w i)) pid = Some f \<and>
    decrypt (f_key f) (f_ciphertext f) (share_aad (f_group f) pid) = Inr share \<and>
    decrypt key ct (share_aad (f_group f) (next_pseudo_id pid seed)) = Inr share \<and>
    cores (n_db (w_nodes w' i)) = (cores (n_db (w_nodes w i)))
      (pid := None, next_pseudo_id pid seed \<mapsto> core (mutated f (next_pseudo_id pid seed) key ct)) \<and>
    (\<forall>j. j \<noteq> i \<longrightarrow> cores (n_db (w_nodes w' j)) = cores (n_db (w_nodes w j)))"
  using m
proof (rule mutation_phases)
  fix f w1 le w2 key share ct w3 w4 w5 n
  let ?new = "next_pseudo_id pid seed"
  assume f: "on_db i (get_fragment pid) w = (Inr f, w1)" and le: "on_rand i (rand_read 32) w1 = (Inr le, w2)"
    and share: "decrypt (f_key f) (f_ciphertext f) (share_aad (f_group f) pid) = Inr share"
    and ct: "on_rand i (encrypt key share (share_aad (f_group f) ?new)) w2 = (Inr ct, w3)"
    and put: "on_db_rand i (put_fragment (mutated f ?new key ct)) w3 = (Inr (), w4)"
    and del: "on_db i (delete_fragment pid) w4 = (Inr (), w5)"
    and rest: "attempt (client_ack (mutation_ack_of n f pid ?new ct seed reason)) (\<lambda>_. notify_siblings i f pid ?new) w5 = (Inr (), w')"
  from on_db_Inr [OF f] obtain d1 where d1: "get_fragment pid (n_db (w_nodes w i)) = (Inr f, d1)" "w1 = set_db i d1 w" by blast
  have t1: "frags_of d1 = frags_of (n_db (w_nodes w i))" "db_wf d1"
    using get_fragment_keeps [OF d1(1)] same_tables_frags same_tables_wf nodes_wf_db [OF wf] by blast+
  from on_rand_Inr [OF ct] obtain e where e: "encrypt key share (share_aad (f_group f) ?new) (n_entropy (w_nodes w2 i)) = (Inr ct, e)" by blast
  have w3: "n_db (w_nodes w3 j) = (if j = i then d1 else n_db (w_nodes w j))" for j
    using on_rand_Inr [OF le] on_rand_Inr [OF ct] d1(2) by auto
  from on_db_rand_Inr [OF put] obtain d2 e2 where d2: "put_fragment (mutated f ?new key ct) d1 (n_entropy (w_nodes w3 i)) = (Inr (), d2, e2)"
    "w4 = set_node i ((w_nodes w3 i)\<lparr>n_db := d2, n_entropy := e2\<rparr>) w3" using w3 by auto
  from on_db_Inr [OF del] d2(2) obtain d3 where d3: "delete_fragment pid d2 = (Inr (), d3)" "w5 = set_db i d3 w4" by auto
  let ?f' = "mutated f ?new key ct\<lparr>f_updated := wall d1 (stmts d1)\<rparr>"
  have "frags_of d3 = (frags_of (n_db (w_nodes w i)))(?new \<mapsto> ?f', pid := None)"
    using delete_fragment_map [OF d3(1)] put_fragment_map [OF d2(1)] t1(1) by (simp add: mutated_def)
  then have c3: "cores d3 = (cores (n_db (w_nodes w i)))(pid := None, ?new \<mapsto> core (mutated f ?new key ct))"
    using new by (simp add: cores_def fun_eq_iff)
  have db5: "n_db (w_nodes w5 j) = (if j = i then d3 else n_db (w_nodes w j))" for j
    using d3(2) d2(2) w3 by simp
  have "db_wf d3" using delete_fragment_wf [OF put_fragment_wf [OF t1(2) d2(1)] d3(1)] .
  then have "cored (\<lambda>j. cores (n_db (w_nodes w5 j))) w5"
    using wf by (simp add: cored_def nodes_wf_def db5)
  from yieldsD(1) [OF ack_cored this rest] have "cores (n_db (w_nodes w' j)) = cores (n_db (w_nodes w5 j))" for j
    by (simp add: cored_def)
  then show ?thesis using c3 db5 share aead.open_seal [OF e] get_fragment_map [OF nodes_wf_db [OF wf] d1(1)] by auto
qed

text \<open>A mutation fails only for a reason: none of its steps does on a sound node.\<close>

lemma bindr_run: "m w = (Inr x, w1) \<Longrightarrow> bindr m f w = f x w1"
  by (simp add: bindr_def)

lemma gossip_succeeds: "\<exists>w'. with_node i (\<lambda>n. attempt (client_ack (a n)) (\<lambda>_. notify_siblings i f oldPID newPID)) w = (Inr (), w')"
proof -
  let ?m = "with_node i (\<lambda>n. attempt (client_ack (a n)) (\<lambda>_. notify_siblings i f oldPID newPID))"
  have "silent ?m" by (intro silent_with_node silent_attempt silent_cycles)
  moreover have "calm ?m" by (intro calm_with_node calm_attempt calm_clients calm_notify)
  ultimately show ?thesis using silent_runs [of ?m w] by (auto simp: calm_def)
qed

lemma mutation_succeeds:
  assumes n: "sound_node (w_nodes w i)" and f: "get_fragment pid (n_db (w_nodes w i)) = (Inr f, d1)"
    and share: "decrypt (f_key f) (f_ciphertext f) (share_aad (f_group f) pid) = Inr share"
    and args: "f_key f \<noteq> []" "seed \<noteq> []" "hkdf_law X" and ep: "\<not> bit (f_epoch f + 1) 63"
  shows "\<exists>w'. apply_mutation X i pid seed reason w = (Inr (), w')"
proof -
  let ?new = "next_pseudo_id pid seed" let ?e = "n_entropy (w_nodes w i)"
  let ?w1 = "set_db i d1 w" and ?e1 = "?e\<lparr>draws := Suc (draws ?e)\<rparr>"
  have eng: "storage_key d1 = storage_key (n_db (w_nodes w i))" "sql_broken d1 = sql_broken (n_db (w_nodes w i))"
    using get_fragment_keeps [OF f] by (auto simp: same_tables_def same_engine_def)
  have b: "\<not> broken ?e k" "key_ok (storage_key d1)" "\<not> sql_broken d1 k" for k
    using n eng by (simp_all add: sound_node_def)
  have s1: "on_db i (get_fragment pid) w = (Inr f, ?w1)" using f by (simp add: on_db_def set_db_def Let_def)
  let ?le = "map (tape ?e (draws ?e)) [0..<32]" and ?w2 = "set_entropy i ?e1 ?w1"
  have s2: "on_rand i (rand_read 32) ?w1 = (Inr ?le, ?w2)"
    using b by (simp add: on_rand_def rand_read_def set_entropy_def Let_def)
  obtain key where key: "advance X (f_key f) seed ?le = Inr key" "key_ok key"
    by (rule advance_ok [OF args(3), of "f_key f" seed ?le]) (use args in auto)
  obtain ct e3 where ct: "encrypt key share (share_aad (f_group f) ?new) ?e1 = (Inr ct, e3)"
    using encrypt_unbroken [OF key(2), of ?e1 share "share_aad (f_group f) ?new"] b(1) by auto
  let ?w3 = "set_entropy i e3 ?w2"
  have s3: "on_rand i (encrypt key share (share_aad (f_group f) ?new)) ?w2 = (Inr ct, ?w3)"
    using ct by (simp add: on_rand_def set_entropy_def [of i e3] Let_def)
  have e3: "\<not> broken e3 k" for k using ct b(1) by (auto simp: encrypt_ok split: if_splits)
  obtain wr e4 where wr: "encrypt (storage_key d1) key (frag_aad ?new) e3 = (Inr wr, e4)"
    using encrypt_unbroken [OF b(2), of e3 key "frag_aad ?new"] e3 by auto
  obtain d2 where d2: "put_fragment (mutated f ?new key ct) d1 e3 = (Inr (), d2, e4)" "sql_broken d2 = sql_broken d1"
    using wr b(3) ep by (simp add: put_fragment_def mutated_def exec_def Let_def)
  let ?w4 = "set_node i ((w_nodes ?w3 i)\<lparr>n_db := d2, n_entropy := e4\<rparr>) ?w3"
  have s4: "on_db_rand i (put_fragment (mutated f ?new key ct)) ?w3 = (Inr (), ?w4)"
    using d2 by (simp add: on_db_rand_def Let_def)
  obtain w5 where s5: "on_db i (delete_fragment pid) ?w4 = (Inr (), w5)"
    using b(3) d2(2) by (simp add: on_db_def delete_fragment_def exec_def Let_def)
  obtain w6 where s6: "with_node i (\<lambda>n. attempt (client_ack (mutation_ack_of n f pid ?new ct seed reason))
      (\<lambda>_. notify_siblings i f pid ?new)) w5 = (Inr (), w6)"
    by (rule exE [OF gossip_succeeds])
  show ?thesis
    by (rule exI [of _ w6])
       (simp only: apply_mutation_def bindr_def s1 s2 key(1) share ret_def Let_def s3 mutated_def [symmetric] s4 s5 s6
          prod.case sum.case)
qed

text \<open>A stored fragment is read on a sound node.\<close>

lemma get_fragment_sound:
  assumes "db_wf d" "\<And>k. \<not> sql_broken d k" "\<And>k. row_stop d k = None" "frags_of d pid = Some f"
  shows "get_fragment pid d = (Inr f, d\<lparr>stmts := Suc (stmts d)\<rparr>)"
proof -
  let ?rows = "filter (\<lambda>r. r_pid r = pid) (frag_table d)"
  from assms(4) obtain x0 where x0: "row_at r_pid (frag_table d) pid = Some x0"
    by (auto simp: frags_of_def split: Option.bind_splits)
  then have "?rows \<noteq> []" by (auto simp: filter_empty_conv dest: row_at_Some)
  from query_row_sound [OF assms(2,3) this] obtain x where
    x: "x \<in> set ?rows" "query_row ?rows d = (Inr x, d\<lparr>stmts := Suc (stmts d)\<rparr>)" by blast
  then have "row_at r_pid (frag_table d) pid = Some x"
    using row_at_member [of r_pid "frag_table d" x] assms(1) by (auto simp: db_wf_def)
  with assms(4) have "scan_fragment (storage_key d) x = Inr f"
    by (auto simp: frags_of_def readable_def split: sum.splits)
  with x show ?thesis by (simp add: get_fragment_def get_fragment_where_def)
qed

text \<open>A cold mutation is a mutation with the next link of the chain, which is used up first.\<close>

lemma cold_mutate_link:
  assumes "sound_node (w_nodes w i)" "nodes_wf w" "frags_of (n_db (w_nodes w i)) pid = Some f"
    "n_chains (w_nodes w i) (f_chain f) = Some c" "0 \<le> next_link c"
  shows "\<exists>w1. cold_mutate X i pid w = apply_mutation X i pid (chain c ! nat (next_link c)) ''cold'' w1 \<and>
    nodes_wf w1 \<and> sound_node (w_nodes w1 i) \<and> (\<forall>j. frags_of (n_db (w_nodes w1 j)) = frags_of (n_db (w_nodes w j))) \<and>
    (\<forall>j. cores (n_db (w_nodes w1 j)) = cores (n_db (w_nodes w j))) \<and>
    n_chains (w_nodes w1 i) = (n_chains (w_nodes w i))(f_chain f \<mapsto> c\<lparr>next_link := next_link c - 1\<rparr>)"
proof -
  let ?n = "w_nodes w i" let ?d = "(n_db ?n)\<lparr>stmts := Suc (stmts (n_db ?n))\<rparr>"
  let ?n1 = "?n\<lparr>n_db := ?d, n_chains := (n_chains ?n)(f_chain f \<mapsto> c\<lparr>next_link := next_link c - 1\<rparr>)\<rparr>"
  have g: "get_fragment pid (n_db ?n) = (Inr f, ?d)"
    by (rule get_fragment_sound) (use assms(1,3) nodes_wf_db [OF assms(2)] in \<open>auto simp: sound_node_def\<close>)
  have s: "set_node i ?n1 (set_db i ?d w) = set_node i ?n1 w" by (simp add: set_node_def set_db_def)
  have "cold_mutate X i pid w = apply_mutation X i pid (chain c ! nat (next_link c)) ''cold'' (set_node i ?n1 w)"
    using g assms(4,5) unfolding s [symmetric]
    by (simp add: cold_mutate_def bindr_def on_db_def with_node_def consume_def Let_def set_db_def)
  moreover have "frags_of ?d = frags_of (n_db ?n)" by (simp add: frags_of_def fun_eq_iff)
  moreover have "cores ?d = cores (n_db ?n)" by (rule cores_fragments_only) simp_all
  moreover have "db_wf ?d" using nodes_wf_db [OF assms(2), of i] by (simp add: db_wf_def)
  ultimately show ?thesis using assms(1,2)
    by (intro exI [of _ "set_node i ?n1 w"]) (auto simp: nodes_wf_def sound_node_def)
qed

section \<open>Notices\<close>

text \<open>On a sound database that is well formed the two updates of a notice succeed.\<close>

definition sound_db :: "db \<Rightarrow> bool" where
  "sound_db d \<longleftrightarrow> db_wf d \<and> (\<forall>k. \<not> sql_broken d k \<and> row_stop d k = None)"

lemma write_updates_sound: "(\<forall>k. \<not> sql_broken d k) \<Longrightarrow> fst (write_updates us d) = Inr ()"
  by (induction us d rule: write_updates.induct) (simp_all add: exec_def Let_def)

lemma sibling_updates_sound:
  "(\<And>r. r \<in> set rows \<Longrightarrow> \<exists>f. scan_fragment k r = Inr f) \<Longrightarrow> \<exists>us. sibling_updates oldPID newPID ep rows = Inr us"
proof (induction rows)
  case (Cons r rows)
  then obtain us where "sibling_updates oldPID newPID ep rows = Inr us" by auto
  moreover obtain ms where "unmarshal_members (r_members r) = Inr ms"
    using Cons.prems [of r] by (auto simp: scan_fragment_def split: sum.splits)
  ultimately show ?case by simp
qed simp

lemma update_sibling_sound:
  assumes "sound_db d" shows "\<exists>d'. update_sibling g oldPID newPID ep d = (Inr (), d') \<and> sound_db d' \<and>
    manifest_table d' = manifest_table d"
proof -
  let ?rows = "filter (\<lambda>r. r_group r = g) (frag_table d)"
  obtain rows where q: "query_rows ?rows d = (Inr rows, d\<lparr>stmts := Suc (stmts d)\<rparr>)"
    using assms by (auto simp: query_rows_def Let_def sound_db_def)
  have "\<exists>f. scan_fragment (storage_key d) r = Inr f" if "r \<in> set rows" for r
    using that query_rows_Inr [OF q] assms by (auto simp: sound_db_def db_wf_def)
  from sibling_updates_sound [OF this] obtain us where us: "sibling_updates oldPID newPID ep rows = Inr us" by blast
  obtain d' where u: "update_sibling g oldPID newPID ep d = (Inr (), d')"
    using q us write_updates_sound [of "d\<lparr>stmts := Suc (stmts d)\<rparr>" us] assms
    by (auto simp: update_sibling_def sound_db_def) (metis prod.collapse)
  moreover have "sql_broken d' = sql_broken d \<and> row_stop d' = row_stop d"
    using u by (rule update_sibling_shape) simp
  ultimately show ?thesis using assms update_sibling_wf [OF _ u] members_changed_manifests [OF update_sibling_changes [OF u]]
    by (auto simp: sound_db_def)
qed

lemma update_manifest_member_sound:
  assumes d: "sound_db d" and m: "manifests_of d name = Some m" "mf_group m = g" "mf_kind m \<noteq> []"
    and only: "\<And>x. x \<in> set (manifest_table d) \<Longrightarrow> w_group x = g \<Longrightarrow> w_name x = name"
  shows "\<exists>d'. update_manifest_member g oldPID newPID ep d = (Inr (), d') \<and>
    manifests_of d' = (manifests_of d)(name \<mapsto> m\<lparr>mf_members := map (rename_member oldPID newPID ep) (mf_members m)\<rparr>)"
proof -
  let ?rows = "filter (\<lambda>x. w_group x = g) (manifest_table d)"
  from m(1) obtain x0 where x0: "row_at w_name (manifest_table d) name = Some x0" "scan_manifest x0 = Inr m"
    by (auto simp: manifests_of_def split: Option.bind_splits sum.splits)
  have g0: "w_group x0 = g" "w_name x0 = name"
    using x0 m(2) row_at_Some by (fastforce simp: scan_manifest_def split: sum.splits)+
  then have "?rows \<noteq> []" using x0 by (auto simp: filter_empty_conv dest: row_at_Some)
  then obtain x where x: "x \<in> set ?rows" "query_row ?rows d = (Inr x, d\<lparr>stmts := Suc (stmts d)\<rparr>)"
    using query_row_sound [of d ?rows] d by (auto simp: sound_db_def)
  then have "w_name x = name" "x \<in> set (manifest_table d)" using only by auto
  then have "row_at w_name (manifest_table d) name = Some x"
    using row_at_member [of w_name "manifest_table d" x] d by (auto simp: sound_db_def db_wf_def)
  with x0 have xm: "scan_manifest x = Inr m" by simp
  let ?d = "d\<lparr>stmts := Suc (stmts d)\<rparr>" and ?m = "m\<lparr>mf_members := map (rename_member oldPID newPID ep) (mf_members m)\<rparr>"
  have get: "get_manifest_by_group g d = (Inr m, ?d)"
    using x xm by (simp add: get_manifest_by_group_def get_manifest_where_def)
  obtain r d' where p: "put_manifest ?m ?d = (r, d')" by force
  with d have r: "r = Inr ()" by (auto simp: put_manifest_def exec_def Let_def sound_db_def)
  have wf: "db_wf ?d" using d same_tables_wf [of d ?d] by (simp add: sound_db_def)
  have same: "manifests_of ?d = manifests_of d" by (simp add: manifests_of_def fun_eq_iff)
  have name: "mf_name m = name" "mf_created m = w_created x0"
    using x0(2) g0 by (auto simp: scan_manifest_def split: sum.splits)
  have created: "m\<lparr>mf_members := ms, mf_created := w_created x0\<rparr> = m\<lparr>mf_members := ms\<rparr>" for ms
    using name(2) by (cases m) simp
  have "manifests_of d' = (manifests_of d)(name \<mapsto>
      m\<lparr>mf_members := map (rename_member oldPID newPID ep) (mf_members m), mf_created := w_created x0\<rparr>)"
    using put_manifest_map [OF wf p [unfolded r]] m name unfolding same by simp
  then have "manifests_of d' = (manifests_of d)(name \<mapsto> ?m)" unfolding created .
  moreover have "update_manifest_member g oldPID newPID ep d = (Inr (), d')"
    using get p r by (simp add: update_manifest_member_def)
  ultimately show ?thesis by blast
qed

section \<open>Properties\<close>

text \<open>C19: A mutation that succeeds moves the fragment to the next pseudonym under a fresh sealing of the
  same share, one epoch on, with everything else of it kept; no other fragment of any node changes
  but for member lists.\<close>

theorem mutation_keeps_share:
  assumes "nodes_wf w" "apply_mutation X i pid seed reason w = (Inr (), w')" "next_pseudo_id pid seed \<noteq> pid"
  shows "\<exists>f share key ct. frags_of (n_db (w_nodes w i)) pid = Some f \<and>
    decrypt (f_key f) (f_ciphertext f) (share_aad (f_group f) pid) = Inr share \<and>
    decrypt key ct (share_aad (f_group f) (next_pseudo_id pid seed)) = Inr share \<and>
    cores (n_db (w_nodes w' i)) = (cores (n_db (w_nodes w i)))
      (pid := None, next_pseudo_id pid seed \<mapsto>
        core (f\<lparr>f_pid := next_pseudo_id pid seed, f_epoch := f_epoch f + 1, f_key := key, f_ciphertext := ct\<rparr>)) \<and>
    (\<forall>j. j \<noteq> i \<longrightarrow> cores (n_db (w_nodes w' j)) = cores (n_db (w_nodes w j)))"
proof -
  have "core (mutated f p key ct) = core (f\<lparr>f_pid := p, f_epoch := f_epoch f + 1, f_key := key, f_ciphertext := ct\<rparr>)"
    for f p key ct by (simp add: core_def mutated_def)
  with mutation_moves_core [OF assms] show ?thesis by metis
qed

text \<open>A node with one fragment of a share \<open>9\<close>.\<close>

definition nonce0 :: bytes where "nonce0 = replicate 12 0"

definition row_p :: frag_row where
  "row_p = \<lparr>r_pid = ''p'', r_group = ''g'', r_token = ''t'', r_chain = ''c'', r_epoch = 0, r_threshold = 2,
     r_total = 2, r_wrapped = nonce0 @ gcm_seal (replicate 32 1) nonce0 (replicate 32 2) (frag_aad ''p''),
     r_ciphertext = nonce0 @ gcm_seal (replicate 32 2) nonce0 [9] (share_aad ''g'' ''p''),
     r_members = MembersJson [], r_updated = 0\<rparr>"

abbreviation frag_p :: fragment where
  "frag_p \<equiv> \<lparr>f_pid = ''p'', f_group = ''g'', f_token = ''t'', f_chain = ''c'', f_epoch = 0, f_threshold = 2,
     f_total = 2, f_key = replicate 32 2, f_ciphertext = nonce0 @ gcm_seal (replicate 32 2) nonce0 [9] (share_aad ''g'' ''p''),
     f_members = [], f_updated = 0\<rparr>"

definition holder_world :: world where
  "holder_world = \<lparr>w_nodes = \<lambda>_. new_node ''a'' ''http://a'' [1] (empty_db\<lparr>frag_table := [row_p]\<rparr>) 1 entropy_zero,
     w_addr = [''http://a'' \<mapsto> 0], w_orch = new_orchestrator (\<lambda>_ i. i),
     w_fate = \<lambda>_. Reached, w_clock = int, w_calls = 0\<rparr>"

lemma gcm_decrypt: "key_ok key \<Longrightarrow> decrypt key (nonce0 @ gcm_seal key nonce0 p aad) aad = Inr p"
  by (simp add: decrypt_def nonce0_def gcm_open_seal)

lemma scan_row_p: "scan_fragment (replicate 32 1) row_p =
    Inr frag_p"
  by (simp add: scan_fragment_def row_p_def gcm_decrypt key_ok_def unmarshal_members_def)

lemma holder_world_wf: "nodes_wf holder_world"
  using scan_row_p by (simp add: nodes_wf_def holder_world_def new_node_def db_wf_def empty_db_def)

lemma holder_world_sound: "sound_node (w_nodes holder_world i)"
  by (simp add: holder_world_def new_node_def sound_node_def empty_db_def entropy_zero_def key_ok_def)

lemma holder_world_frag: "frags_of (n_db (w_nodes holder_world i)) ''p'' = Some frag_p"
  using scan_row_p by (simp add: holder_world_def new_node_def frags_of_def row_at_def empty_db_def readable_def)
    (simp add: row_p_def)

lemma frag_p_opens: "decrypt (f_key frag_p) (f_ciphertext frag_p) (share_aad (f_group frag_p) ''p'') = Inr [9]"
  by (simp add: gcm_decrypt key_ok_def)

text \<open>Pseudonyms have 32 characters, so the first one here never comes back.\<close>

lemma next_pseudo_id_longer: "next_pseudo_id ''p'' seed \<noteq> ''p''"
  by (rule notI, drule arg_cong [of _ _ length]) simp

lemma holder_mutates: "\<exists>w'. apply_mutation sample_packages 0 ''p'' [1] ''scheduled'' holder_world = (Inr (), w')"
proof (rule mutation_succeeds)
  show "sound_node (w_nodes holder_world 0)" by (rule holder_world_sound)
  show "get_fragment ''p'' (n_db (w_nodes holder_world 0)) =
      (Inr frag_p, empty_db\<lparr>frag_table := [row_p], stmts := 1\<rparr>)"
    using scan_row_p by (simp add: holder_world_def new_node_def get_fragment_def get_fragment_where_def query_row_def
        empty_db_def Let_def) (simp add: row_p_def)
qed (simp_all add: gcm_decrypt key_ok_def sample_packages_laws)

theorem mutation_keeps_share_witness:
  "\<exists>w' f key ct. apply_mutation sample_packages 0 ''p'' [1] ''scheduled'' holder_world = (Inr (), w') \<and>
    frags_of (n_db (w_nodes holder_world 0)) ''p'' = Some f \<and>
    decrypt key ct (share_aad ''g'' (next_pseudo_id ''p'' [1])) = Inr [9] \<and>
    cores (n_db (w_nodes w' 0)) ''p'' = None \<and> cores (n_db (w_nodes w' 0)) (next_pseudo_id ''p'' [1]) =
      Some (core (f\<lparr>f_pid := next_pseudo_id ''p'' [1], f_epoch := 1, f_key := key, f_ciphertext := ct\<rparr>))"
proof -
  note new = next_pseudo_id_longer [of "[1]"]
  from holder_mutates obtain w' where w': "apply_mutation sample_packages 0 ''p'' [1] ''scheduled'' holder_world = (Inr (), w')" by blast
  note f = holder_world_frag [of 0]
  from mutation_keeps_share [OF holder_world_wf w' new] obtain f' share key ct where
    r: "frags_of (n_db (w_nodes holder_world 0)) ''p'' = Some f'"
      "decrypt (f_key f') (f_ciphertext f') (share_aad (f_group f') ''p'') = Inr share"
      "decrypt key ct (share_aad (f_group f') (next_pseudo_id ''p'' [1])) = Inr share"
    and c: "cores (n_db (w_nodes w' 0)) = (cores (n_db (w_nodes holder_world 0)))
      (''p'' := None, next_pseudo_id ''p'' [1] \<mapsto>
        core (f'\<lparr>f_pid := next_pseudo_id ''p'' [1], f_epoch := f_epoch f' + 1, f_key := key, f_ciphertext := ct\<rparr>))" by blast
  have f': "f_key f' = replicate 32 2" "f_group f' = ''g''" "f_epoch f' = 0"
    "f_ciphertext f' = nonce0 @ gcm_seal (replicate 32 2) nonce0 [9] (share_aad ''g'' ''p'')" using r(1) f by auto
  then have "share = [9]" using r(2) by (simp add: gcm_decrypt key_ok_def)
  show ?thesis
    by (intro exI [of _ w'] exI [of _ f'] exI [of _ key] exI [of _ ct] conjI)
       (use w' r(1,3) c f' \<open>share = [9]\<close> new in simp_all)
qed

text \<open>C13: On a sound node a cold mutation succeeds whatever the network and the orchestrator do, while the
  chain of the fragment has links: the fragment moves to the next pseudonym under a fresh sealing of
  its share.\<close>

theorem cold_mutation_succeeds:
  assumes "sound_node (w_nodes w i)" "nodes_wf w" "frags_of (n_db (w_nodes w i)) pid = Some f"
    "decrypt (f_key f) (f_ciphertext f) (share_aad (f_group f) pid) = Inr share"
    "n_chains (w_nodes w i) (f_chain f) = Some c" "0 \<le> next_link c" "seed = chain c ! nat (next_link c)"
    "f_key f \<noteq> []" "seed \<noteq> []" "hkdf_law X" "\<not> bit (f_epoch f + 1) 63" "next_pseudo_id pid seed \<noteq> pid"
  shows "\<exists>w' key ct. cold_mutate X i pid w = (Inr (), w') \<and>
    decrypt key ct (share_aad (f_group f) (next_pseudo_id pid seed)) = Inr share \<and>
    cores (n_db (w_nodes w' i)) = (cores (n_db (w_nodes w i)))
      (pid := None, next_pseudo_id pid seed \<mapsto>
        core (f\<lparr>f_pid := next_pseudo_id pid seed, f_epoch := f_epoch f + 1, f_key := key, f_ciphertext := ct\<rparr>))"
proof -
  from cold_mutate_link [OF assms(1-3,5,6), of X] obtain w1 where
    w1: "cold_mutate X i pid w = apply_mutation X i pid seed ''cold'' w1" "nodes_wf w1" "sound_node (w_nodes w1 i)"
    "frags_of (n_db (w_nodes w1 i)) pid = Some f" "cores (n_db (w_nodes w1 i)) = cores (n_db (w_nodes w i))"
    using assms(3) unfolding assms(7) by auto
  have "get_fragment pid (n_db (w_nodes w1 i)) = (Inr f, (n_db (w_nodes w1 i))\<lparr>stmts := Suc (stmts (n_db (w_nodes w1 i)))\<rparr>)"
    by (rule get_fragment_sound) (use w1(3,4) nodes_wf_db [OF w1(2)] in \<open>auto simp: sound_node_def\<close>)
  from mutation_succeeds [OF w1(3) this assms(4,8-11)] obtain w' where
    w': "apply_mutation X i pid seed ''cold'' w1 = (Inr (), w')" by blast
  have c: "core (mutated f p key ct) = core (f\<lparr>f_pid := p, f_epoch := f_epoch f + 1, f_key := key, f_ciphertext := ct\<rparr>)"
    for p key ct by (simp add: core_def mutated_def)
  from mutation_moves_core [OF w1(2) w' assms(12)] assms(4) w1(4) obtain key ct where
    "decrypt key ct (share_aad (f_group f) (next_pseudo_id pid seed)) = Inr share"
    "cores (n_db (w_nodes w' i)) = (cores (n_db (w_nodes w i)))
      (pid := None, next_pseudo_id pid seed \<mapsto> core (mutated f (next_pseudo_id pid seed) key ct))"
    unfolding w1(5) by auto
  with w1(1) w' show ?thesis unfolding c by auto
qed

text \<open>The same node with a chain of one link, cut off from everybody.\<close>

definition isolated_world :: world where
  "isolated_world = holder_world
     \<lparr>w_nodes := \<lambda>_. (w_nodes holder_world 0)\<lparr>n_chains := [''c'' \<mapsto> \<lparr>chain = [sha256 [5], [5]], next_link = 0\<rparr>]\<rparr>,
      w_fate := \<lambda>_. Unsent\<rparr>"

theorem cold_mutation_succeeds_witness:
  "\<exists>w' key ct f'. cold_mutate sample_packages 0 ''p'' isolated_world = (Inr (), w') \<and>
    decrypt key ct (share_aad ''g'' (next_pseudo_id ''p'' (sha256 [5]))) = Inr [9] \<and>
    cores (n_db (w_nodes w' 0)) ''p'' = None \<and>
    cores (n_db (w_nodes w' 0)) (next_pseudo_id ''p'' (sha256 [5])) = Some f' \<and> f_epoch f' = 1"
proof -
  let ?seed = "sha256 [5]"
  note new = next_pseudo_id_longer [of ?seed]
  have seed: "?seed \<noteq> []" by (metis length_sha256 list.size(3) zero_neq_numeral)
  have sound: "sound_node (w_nodes isolated_world 0)"
    using holder_world_sound [of 0] by (simp add: isolated_world_def sound_node_def)
  have wf: "nodes_wf isolated_world" using holder_world_wf by (simp add: nodes_wf_def isolated_world_def)
  have f: "frags_of (n_db (w_nodes isolated_world 0)) ''p'' = Some frag_p"
    using holder_world_frag [of 0] by (simp add: isolated_world_def)
  have chain: "n_chains (w_nodes isolated_world 0) (f_chain frag_p) = Some \<lparr>chain = [?seed, [5]], next_link = 0\<rparr>"
    by (simp add: isolated_world_def)
  have "\<exists>w' key ct. cold_mutate sample_packages 0 ''p'' isolated_world = (Inr (), w') \<and>
    decrypt key ct (share_aad (f_group frag_p) (next_pseudo_id ''p'' ?seed)) = Inr [9] \<and>
    cores (n_db (w_nodes w' 0)) = (cores (n_db (w_nodes isolated_world 0)))
      (''p'' := None, next_pseudo_id ''p'' ?seed \<mapsto>
        core (frag_p\<lparr>f_pid := next_pseudo_id ''p'' ?seed, f_epoch := f_epoch frag_p + 1, f_key := key, f_ciphertext := ct\<rparr>))"
    by (rule cold_mutation_succeeds [OF sound wf f frag_p_opens chain _ _ _ seed _ _ new]) (simp_all add: sample_packages_laws)
  then obtain w' key ct where "cold_mutate sample_packages 0 ''p'' isolated_world = (Inr (), w')"
    "decrypt key ct (share_aad (f_group frag_p) (next_pseudo_id ''p'' ?seed)) = Inr [9]"
    "cores (n_db (w_nodes w' 0)) = (cores (n_db (w_nodes isolated_world 0)))
      (''p'' := None, next_pseudo_id ''p'' ?seed \<mapsto>
        core (frag_p\<lparr>f_pid := next_pseudo_id ''p'' ?seed, f_epoch := f_epoch frag_p + 1, f_key := key, f_ciphertext := ct\<rparr>))"
    by blast
  then show ?thesis using new by (intro exI [of _ w'] exI [of _ key] exI [of _ ct]) (simp add: core_def)
qed

text \<open>C20: A peer hands out a share only to a caller that names the group's token, and only a share one of
  its own rows of that group opens to.\<close>

theorem fetch_needs_token:
  assumes "peer_handle i (PeerFetch g tok) w = (Inr resp, w')" "ps_body resp = ShareBody s"
  shows "\<exists>x \<in> set (frag_table (n_db (w_nodes w i))). r_group x = g \<and> r_token x = tok \<and>
    row_opens (storage_key (n_db (w_nodes w i))) tok (sr_share s) x"
proof -
  obtain r w1 where r: "on_db i (get_fragment_by_group g) w = (r, w1)" by force
  with assms obtain f where f: "r = Inr f" "f_token f = tok"
    "decrypt (f_key f) (f_ciphertext f) (share_aad (f_group f) (f_pid f)) = Inr (sr_share s)"
    by (auto simp: peer_handle_def handle_fetch_def attempt_def reply_def ret_def split: sum.splits if_splits option.splits)
  from on_db_Inr [OF r [unfolded f(1)]] obtain d where "get_fragment_by_group g (n_db (w_nodes w i)) = (Inr f, d)" by blast
  then obtain x where x: "x \<in> set (frag_table (n_db (w_nodes w i)))" "r_group x = g"
    "scan_fragment (storage_key (n_db (w_nodes w i))) x = Inr f" by (rule get_fragment_by_group_Inr)
  then have "r_token x = tok" using f(2) by (auto simp: scan_fragment_def split: sum.splits)
  with x f(2,3) show ?thesis unfolding row_opens_def by blast
qed

theorem fetch_needs_token_witness:
  "\<exists>resp w'. peer_handle 0 (PeerFetch ''g'' ''t'') holder_world = (Inr resp, w') \<and>
    ps_body resp = ShareBody \<lparr>sr_share = [9], sr_epoch = 0\<rparr> \<and> row_opens (replicate 32 1) ''t'' [9] row_p"
proof -
  have g: "r_group row_p = ''g''" by (simp add: row_p_def)
  have db: "frag_table (n_db (w_nodes holder_world 0)) = [row_p]" "storage_key (n_db (w_nodes holder_world 0)) = replicate 32 1"
    by (simp_all add: holder_world_def new_node_def empty_db_def)
  obtain w' where a: "peer_handle 0 (PeerFetch ''g'' ''t'') holder_world =
      (Inr \<lparr>ps_status = 200, ps_body = ShareBody \<lparr>sr_share = [9], sr_epoch = 0\<rparr>\<rparr>, w')"
    using scan_row_p g by (simp add: peer_handle_def handle_fetch_def attempt_def on_db_def holder_world_def new_node_def
        get_fragment_by_group_def get_fragment_where_def query_row_def empty_db_def Let_def reply_def ret_def
        gcm_decrypt key_ok_def)
  from fetch_needs_token [OF a, of "\<lparr>sr_share = [9], sr_epoch = 0\<rparr>"] have "row_opens (replicate 32 1) ''t'' [9] row_p"
    by (simp add: db)
  with a show ?thesis by auto
qed

text \<open>C21: A mutation notice is obeyed whatever token it carries: anyone who knows a group's identifier
  and a member's pseudonym can redirect that member in the manifest of the group to an endpoint of
  his own.\<close>

theorem forged_notice_redirects:
  assumes "sound_db (n_db (w_nodes w i))" "manifests_of (n_db (w_nodes w i)) name = Some m" "mf_kind m \<noteq> []"
    "\<And>x. x \<in> set (manifest_table (n_db (w_nodes w i))) \<Longrightarrow> w_group x = mf_group m \<Longrightarrow> w_name x = name"
  shows "\<exists>w'. peer_handle i (PeerNotice (Some \<lparr>mn_group = mf_group m, mn_token = tok, mn_old = oldPID, mn_new = newPID,
      mn_endpoint = ep, mn_epoch = epoch\<rparr>)) w = (Inr \<lparr>ps_status = 204, ps_body = PeerNoBody\<rparr>, w') \<and>
    manifests_of (n_db (w_nodes w' i)) name =
      Some (m\<lparr>mf_members := map (rename_member oldPID newPID ep) (mf_members m)\<rparr>)"
proof -
  let ?d = "n_db (w_nodes w i)"
  from update_sibling_sound [OF assms(1)] obtain d1 where
    d1: "update_sibling (mf_group m) oldPID newPID ep ?d = (Inr (), d1)" "sound_db d1" "manifest_table d1 = manifest_table ?d" by blast
  have m1: "manifests_of d1 name = Some m" using assms(2) d1(3) by (simp add: manifests_of_def)
  from update_manifest_member_sound [OF d1(2) m1 refl assms(3)] assms(4) d1(3) obtain d2 where
    d2: "update_manifest_member (mf_group m) oldPID newPID ep d1 = (Inr (), d2)"
    "manifests_of d2 = (manifests_of d1)(name \<mapsto> m\<lparr>mf_members := map (rename_member oldPID newPID ep) (mf_members m)\<rparr>)"
    by metis
  then show ?thesis
    using d1(1) by (simp add: peer_handle_def handle_notice_def attempt_def on_db_def set_node_def reply_def ret_def Let_def)
qed

definition owner_db :: db where
  "owner_db = snd (put_manifest \<lparr>mf_name = ''s'', mf_kind = ''secret'', mf_group = ''g'', mf_token = ''t'',
     mf_threshold = 2, mf_total = 2, mf_members = [\<lparr>m_pid = ''p'', m_node = ''b'', m_endpoint = ''http://b''\<rparr>],
     mf_created = 0\<rparr> empty_db)"

definition owner_world :: world where
  "owner_world = holder_world\<lparr>w_nodes := \<lambda>_. new_node ''a'' ''http://a'' [1] owner_db 1 entropy_zero\<rparr>"

theorem forged_notice_redirects_witness:
  "\<exists>w'. peer_handle 0 (PeerNotice (Some \<lparr>mn_group = ''g'', mn_token = ''forged'', mn_old = ''p'', mn_new = ''p'',
      mn_endpoint = ''http://evil'', mn_epoch = 0\<rparr>)) owner_world = (Inr \<lparr>ps_status = 204, ps_body = PeerNoBody\<rparr>, w') \<and>
    map_option mf_members (manifests_of (n_db (w_nodes w' 0)) ''s'') =
      Some [\<lparr>m_pid = ''p'', m_node = ''b'', m_endpoint = ''http://evil''\<rparr>]"
proof -
  let ?m = "\<lparr>mf_name = ''s'', mf_kind = ''secret'', mf_group = ''g'', mf_token = ''t'',
     mf_threshold = 2, mf_total = 2, mf_members = [\<lparr>m_pid = ''p'', m_node = ''b'', m_endpoint = ''http://b''\<rparr>],
     mf_created = 0\<rparr>"
  have put: "put_manifest ?m empty_db = (Inr (), owner_db)"
    by (simp add: owner_db_def put_manifest_def exec_def empty_db_def Let_def)
  have wf: "db_wf owner_db" using put_manifest_wf [OF empty_db_wf put] .
  have db: "n_db (w_nodes owner_world 0) = owner_db" by (simp add: owner_world_def new_node_def)
  have "manifests_of owner_db ''s'' = Some ?m"
    using put_manifest_map [OF empty_db_wf put] by (simp add: manifests_of_def empty_db_def row_at_def)
  moreover have "sound_db owner_db"
    using wf unfolding sound_db_def
    by (simp add: owner_db_def put_manifest_def exec_def empty_db_def Let_def)
  moreover have "w_name x = ''s''" if "x \<in> set (manifest_table owner_db)" for x
    using that by (simp add: owner_db_def put_manifest_def exec_def empty_db_def Let_def upsert_def manifest_row_of_def)
  ultimately show ?thesis
    using forged_notice_redirects [of owner_world 0 "''s''" ?m "''forged''" "''p''" "''p''" "''http://evil''" 0]
    by (fastforce simp: db rename_member_def)
qed

end
