(* ===== verification/Phases.thy ===== *)
theory Phases
  imports Exchange
begin

text \<open>
  Operations of \<open>client\<close> that may overlap. No lock guards a fragment or a manifest: the event loop, the
  watchdog, its forced reshare, the healing loop, the command line and the handlers of the peer server
  run at the same time. Here \<open>applyMutation\<close> and \<open>ColdMutate\<close> (\<open>node.go\<close>), the handler of a mutation notice
  (\<open>peerserver.go\<close>) and \<open>healManifests\<close> and \<open>ForceReshareOwned\<close> (\<open>selfheal.go\<close>) are sequences of phases, one
  per access to something shared: a statement of the store, the chain, a call. Run without
  interference the phases are the operations as the other theories define them.
\<close>

section \<open>Phases\<close>

text \<open>
  The fields are the local variables that are still used. From \<open>Cold\<close> or \<open>Begin\<close> to \<open>Gossip\<close> it is a
  mutation: the pseudonym, the seed and the reason, then the fragment read, the new key and the new
  ciphertext, and the siblings not yet notified. From \<open>Heard\<close> to \<open>Restoring\<close> it is the handler of a
  notice: the rows left to update, the manifest read. From \<open>Owned\<close> to \<open>Redeal\<close> it is a healing cycle
  with its margin, or a forced reshare (\<open>None\<close>): the manifests left, the one at hand, the data recovered.
\<close>

datatype phase =
    Cold string
  | ColdRead string fragment
  | Begin string bytes string
  | Holding string bytes string fragment
  | Sealed string bytes string fragment bytes bytes
  | Placed string bytes string fragment bytes
  | Moved string bytes string fragment bytes
  | Gossip string string fragment "member list"
  | Heard mutation_notice
  | Renaming mutation_notice "(string \<times> json_column) list"
  | Lookup mutation_notice
  | Restoring mutation_notice manifest
  | Owned "int option"
  | Backups "int option" "manifest list"
  | Healing "int option" "manifest list"
  | Reshare "int option" manifest "manifest list"
  | Redeal "int option" manifest bytes "manifest list"
  | Finished "unit res"
  | Answered peer_response

text \<open>The computation between reading the fragment and storing the new one; it touches only the randomness.\<close>

definition reseal :: "packages \<Rightarrow> nat \<Rightarrow> string \<Rightarrow> bytes \<Rightarrow> fragment \<Rightarrow> (bytes \<times> bytes) act" where
  "reseal X i pid seed frag =
     bindr (on_rand i (rand_read 32)) (\<lambda>localEntropy.
     bindr (ret (advance X (f_key frag) seed localEntropy)) (\<lambda>newKey.
     bindr (ret (decrypt (f_key frag) (f_ciphertext frag) (share_aad (f_group frag) pid))) (\<lambda>plaintext.
     bindr (on_rand i (encrypt newKey plaintext (share_aad (f_group frag) (next_pseudo_id pid seed)))) (\<lambda>newCiphertext.
     ret (Inr (newKey, newCiphertext))))))"

text \<open>\<open>Consume\<close> after the chain was looked up under the mutex.\<close>

definition take_link :: "nat \<Rightarrow> string \<Rightarrow> bytes act" where
  "take_link i chainID = with_node i (\<lambda>n.
     case n_chains n chainID of
       None \<Rightarrow> ret (Inl ErrNoChain)
     | Some cc \<Rightarrow>
         (case consume cc of
            (None, _) \<Rightarrow> ret (Inl ErrChainExhausted)
          | (Some seed, cc') \<Rightarrow> (\<lambda>w. (Inr seed, set_node i (n\<lparr>n_chains := (n_chains n)(chainID \<mapsto> cc')\<rparr>) w))))"

text \<open>The first half of \<open>UpdateSibling\<close>: the query and the member lists to write.\<close>

definition select_siblings :: "mutation_notice \<Rightarrow> db \<Rightarrow> (string \<times> json_column) list res \<times> db" where
  "select_siblings req d =
     (case query_rows (filter (\<lambda>r. r_group r = mn_group req) (frag_table d)) d of
        (Inl err, d') \<Rightarrow> (Inl err, d')
      | (Inr rows, d') \<Rightarrow> (sibling_updates (mn_old req) (mn_new req) (mn_endpoint req) rows, d'))"

definition rename_members :: "mutation_notice \<Rightarrow> manifest \<Rightarrow> manifest" where
  "rename_members req m = m\<lparr>mf_members := map (rename_member (mn_old req) (mn_new req) (mn_endpoint req)) (mf_members m)\<rparr>"

text \<open>The second half of \<open>reshareManifest\<close>: the recovered data is dealt anew.\<close>

definition redeal :: "packages \<Rightarrow> nat \<Rightarrow> manifest \<Rightarrow> bytes \<Rightarrow> unit act" where
  "redeal X i m data =
     (if mf_kind m = ''backup'' then
        bindr (on_db i list_mesh_peers) (\<lambda>meshPeers.
        bindr (ping_peers meshPeers) (\<lambda>reachable.
        if int (length reachable) < mf_threshold m then ret (Inr ())
        else distribute_backup i (mf_name m) data (mf_threshold m) reachable))
      else split_op X i (mf_name m) data (mf_threshold m) (mf_total m))"

definition listed :: "manifest list res \<Rightarrow> manifest list" where
  "listed r = (case r of Inl _ \<Rightarrow> [] | Inr ms \<Rightarrow> ms)"

text \<open>
  \<open>x, err := m(); if err != nil { return err }\<close> and on to the next phase; \<open>past\<close> where the error is only
  logged or answered, so that nothing but a panic ends the operation.
\<close>

definition onward :: "'a act \<Rightarrow> ('a \<Rightarrow> phase) \<Rightarrow> world \<Rightarrow> phase \<times> world" where
  "onward m f w = (case m w of (Inl err, w') \<Rightarrow> (Finished (Inl err), w') | (Inr x, w') \<Rightarrow> (f x, w'))"

definition past :: "'a act \<Rightarrow> ('a res \<Rightarrow> phase) \<Rightarrow> world \<Rightarrow> phase \<times> world" where
  "past m f w = (case m w of (r, w') \<Rightarrow> (case died r of Some msg \<Rightarrow> Finished (Inl (Panic msg)) | None \<Rightarrow> f r, w'))"

abbreviation obeyed :: phase where
  "obeyed \<equiv> Answered \<lparr>ps_status = 204, ps_body = PeerNoBody\<rparr>"

abbreviation store_failed :: phase where
  "store_failed \<equiv> Answered \<lparr>ps_status = 500, ps_body = PeerError ''store''\<rparr>"

fun phase_step :: "packages \<Rightarrow> nat \<Rightarrow> phase \<Rightarrow> world \<Rightarrow> phase \<times> world" where
  "phase_step X i (Cold pid) = onward (on_db i (get_fragment pid)) (ColdRead pid)"
| "phase_step X i (ColdRead pid frag) = onward (take_link i (f_chain frag)) (\<lambda>seed. Begin pid seed ''cold'')"
| "phase_step X i (Begin pid seed reason) = onward (on_db i (get_fragment pid)) (Holding pid seed reason)"
| "phase_step X i (Holding pid seed reason frag) =
     onward (reseal X i pid seed frag) (\<lambda>(newKey, newCiphertext). Sealed pid seed reason frag newKey newCiphertext)"
| "phase_step X i (Sealed pid seed reason frag newKey newCiphertext) =
     onward (on_db_rand i (put_fragment (mutated frag (next_pseudo_id pid seed) newKey newCiphertext)))
       (\<lambda>_. Placed pid seed reason frag newCiphertext)"
| "phase_step X i (Placed pid seed reason frag newCiphertext) =
     onward (on_db i (delete_fragment pid)) (\<lambda>_. Moved pid seed reason frag newCiphertext)"
| "phase_step X i (Moved pid seed reason frag newCiphertext) =
     onward (with_node i (\<lambda>n. attempt (client_ack (mutation_ack_of n frag pid (next_pseudo_id pid seed) newCiphertext seed reason))
         (\<lambda>_. ret (Inr ()))))
       (\<lambda>_. Gossip pid (next_pseudo_id pid seed) frag (f_members frag))"
| "phase_step X i (Gossip oldPID newPID frag []) = Pair (Finished (Inr ()))"
| "phase_step X i (Gossip oldPID newPID frag (m # ms)) =
     onward (notify_sibling i frag oldPID newPID m) (\<lambda>_. Gossip oldPID newPID frag ms)"
| "phase_step X i (Heard req) = past (on_db i (select_siblings req)) (case_sum (\<lambda>_. store_failed) (Renaming req))"
| "phase_step X i (Renaming req []) = Pair (Lookup req)"
| "phase_step X i (Renaming req (u # us)) =
     past (on_db i (write_updates [u])) (case_sum (\<lambda>_. store_failed) (\<lambda>_. Renaming req us))"
| "phase_step X i (Lookup req) = past (on_db i (get_manifest_by_group (mn_group req))) (case_sum (\<lambda>_. obeyed) (Restoring req))"
| "phase_step X i (Restoring req m) = past (on_db i (put_manifest (rename_members req m))) (\<lambda>_. obeyed)"
| "phase_step X i (Owned margin) =
     past (on_db i (list_manifests_by_kind ''backup'')) (\<lambda>r. Backups margin (listed r))"
| "phase_step X i (Backups margin ms) =
     past (on_db i (list_manifests_by_kind ''secret'')) (\<lambda>r. Healing margin (ms @ listed r))"
| "phase_step X i (Healing margin []) = Pair (Finished (Inr ()))"
| "phase_step X i (Healing None (m # ms)) = Pair (Reshare None m ms)"
| "phase_step X i (Healing (Some margin) (m # ms)) =
     onward (probe_members m (mf_members m)) (\<lambda>alive.
       let live = int (length alive)
       in if mf_total m \<le> live then Healing (Some margin) ms
          else if live < mf_threshold m then Healing (Some margin) ms
          else if mf_threshold m + margin < live then Healing (Some margin) ms
          else Reshare (Some margin) m ms)"
| "phase_step X i (Reshare margin m ms) =
     past (reconstruct i (mf_name m)) (case_sum (\<lambda>_. Healing margin ms) (\<lambda>data. Redeal margin m data ms))"
| "phase_step X i (Redeal margin m data ms) = past (redeal X i m data) (\<lambda>_. Healing margin ms)"
| "phase_step X i (Finished r) = Pair (Finished r)"
| "phase_step X i (Answered resp) = Pair (Answered resp)"

section \<open>Phases without interference\<close>

text \<open>Every phase comes closer to the end; at stage 0 it is reached.\<close>

fun stage :: "phase \<Rightarrow> nat" where
  "stage (Cold _) = 8"
| "stage (ColdRead _ _) = 7"
| "stage (Begin _ _ _) = 6"
| "stage (Holding _ _ _ _) = 5"
| "stage (Sealed _ _ _ _ _ _) = 4"
| "stage (Placed _ _ _ _ _) = 3"
| "stage (Moved _ _ _ _ _) = 2"
| "stage (Gossip _ _ _ _) = 1"
| "stage (Heard _) = 4"
| "stage (Renaming _ _) = 3"
| "stage (Lookup _) = 2"
| "stage (Restoring _ _) = 1"
| "stage (Owned _) = 3"
| "stage (Backups _ _) = 2"
| "stage (Healing _ _) = 1"
| "stage (Reshare _ _ _) = 1"
| "stage (Redeal _ _ _ _) = 1"
| "stage (Finished _) = 0"
| "stage (Answered _) = 0"

fun to_do :: "phase \<Rightarrow> nat" where
  "to_do (Gossip _ _ _ ms) = length ms"
| "to_do (Renaming _ us) = length us"
| "to_do (Healing _ ms) = 3 * length ms"
| "to_do (Reshare _ _ ms) = 3 * length ms + 2"
| "to_do (Redeal _ _ _ ms) = 3 * length ms + 1"
| "to_do _ = 0"

lemma onward_cases:
  assumes "onward m f w = (p', w')"
  obtains err where "m w = (Inl err, w')" "p' = Finished (Inl err)" | x where "m w = (Inr x, w')" "p' = f x"
  using assms by (auto simp: onward_def split: prod.splits sum.splits)

lemma past_cases:
  assumes "past m f w = (p', w')"
  obtains msg where "m w = (Inl (Panic msg), w')" "p' = Finished (Inl (Panic msg))"
  | r where "m w = (r, w')" "died r = None" "p' = f r"
  using assms by (auto simp: past_def died_Some split: prod.splits option.splits)

lemma phase_descends:
  assumes "phase_step X i p w = (p', w')" "stage p \<noteq> 0"
  shows "(p', p) \<in> measures [stage, to_do]"
  using assms
  by (cases "(X, i, p)" rule: phase_step.cases)
     (auto elim!: onward_cases past_cases simp: measures_def Let_def split: sum.splits)

function phase_end :: "packages \<Rightarrow> nat \<Rightarrow> phase \<Rightarrow> world \<Rightarrow> phase \<times> world" where
  "phase_end X i p w = (if stage p = 0 then (p, w) else case phase_step X i p w of (p', w') \<Rightarrow> phase_end X i p' w')"
  by pat_completeness auto
termination
proof (relation "inv_image (measures [stage, to_do]) (\<lambda>(X, i, p, w). p)", goal_cases)
  case (2 X i p w x y)
  from phase_descends [OF sym [OF 2(2)] 2(1)] show ?case by (simp only: in_inv_image prod.case)
qed simp

declare phase_end.simps [simp del]

lemma phase_end_ended [simp]: "stage p = 0 \<Longrightarrow> phase_end X i p w = (p, w)"
  by (simp add: phase_end.simps)

lemma phase_end_step: "stage p \<noteq> 0 \<Longrightarrow> phase_end X i p w = (case phase_step X i p w of (p', w') \<Rightarrow> phase_end X i p' w')"
  by (subst phase_end.simps) simp

text \<open>The last phase of an operation with a given result.\<close>

definition ending :: "unit act \<Rightarrow> world \<Rightarrow> phase \<times> world" where
  "ending m w = (case m w of (r, w') \<Rightarrow> (Finished r, w'))"

definition replying :: "peer_response act \<Rightarrow> world \<Rightarrow> phase \<times> world" where
  "replying m w = (case m w of (Inl err, w') \<Rightarrow> (Finished (Inl err), w') | (Inr resp, w') \<Rightarrow> (Answered resp, w'))"

lemma end_onward:
  assumes "stage p \<noteq> 0" "phase_step X i p = onward m f" "\<And>x. phase_end X i (f x) = ending (g x)"
  shows "phase_end X i p = ending (bindr m g)"
  by (rule ext) (simp add: phase_end_step assms onward_def ending_def bindr_def split: prod.split sum.split)

lemma end_past:
  assumes "stage p \<noteq> 0" "phase_step X i p = past m f" "\<And>r. phase_end X i (f r) = ending (g r)"
  shows "phase_end X i p = ending (attempt m g)"
  by (rule ext) (simp add: phase_end_step assms past_def ending_def attempt_def split: prod.split option.split)

lemma reply_past:
  assumes "stage p \<noteq> 0" "phase_step X i p = past m f" "\<And>r. phase_end X i (f r) = replying (g r)"
  shows "phase_end X i p = replying (attempt m g)"
  by (rule ext) (simp add: phase_end_step assms past_def replying_def attempt_def split: prod.split option.split)

lemma end_pair: "stage p \<noteq> 0 \<Longrightarrow> phase_step X i p = Pair p' \<Longrightarrow> phase_end X i p = phase_end X i p'"
  by (rule ext) (simp add: phase_end_step)

lemma end_ended: "phase_end X i (Finished r) = ending (ret r)" "phase_end X i (Answered resp) = replying (ret (Inr resp))"
  by (rule ext, simp add: ending_def replying_def ret_def)+

text \<open>Laws of the sequencing.\<close>

lemma bindr_assoc: "bindr (bindr m f) g = bindr m (\<lambda>x. bindr (f x) g)"
  by (rule ext) (simp add: bindr_def split: prod.split sum.split)

lemma bindr_attempt: "bindr (attempt m f) g = attempt m (\<lambda>r. bindr (f r) g)"
  by (rule ext) (simp add: bindr_def attempt_def split: prod.split option.split)

lemma attempt_bindr: "attempt (bindr m f) g = attempt m (case_sum (\<lambda>err. g (Inl err)) (\<lambda>x. attempt (f x) g))"
  by (rule ext) (auto simp: bindr_def attempt_def died_def split: prod.split sum.split option.split goerr.split)

lemma bindr_sum: "bindr (case_sum f g r) h = case_sum (\<lambda>err. bindr (f err) h) (\<lambda>x. bindr (g x) h) r"
  by (simp split: sum.split)

lemma attempt_ret: "attempt (ret (Inr x)) g = g (Inr x)"
  by (rule ext) (simp add: attempt_def ret_def)

lemma told:
  "bindr (with_node i (\<lambda>n. attempt (a n) (\<lambda>_. ret (Inr ())))) (\<lambda>_. g) = with_node i (\<lambda>n. attempt (a n) (\<lambda>_. g))"
  by (rule ext) (simp add: bindr_def with_node_def attempt_def ret_def split: prod.split option.split)

lemma on_db_seq:
  assumes "\<And>d. f d = (case g d of (Inl err, d') \<Rightarrow> (Inl err, d') | (Inr x, d') \<Rightarrow> h x d')"
  shows "on_db i f = bindr (on_db i g) (\<lambda>x. on_db i (h x))"
  by (rule ext) (simp add: on_db_def bindr_def assms set_node_def Let_def split: prod.split sum.split)

lemma on_db_idle: "on_db i (Pair r) = ret r"
  by (rule ext) (simp add: on_db_def ret_def set_node_def)

section \<open>Mutations\<close>

lemma end_gossip: "phase_end X i (Gossip oldPID newPID frag ms) = ending (for_each (notify_sibling i frag oldPID newPID) ms)"
proof (induction ms)
  case (Cons m ms)
  show ?case unfolding for_each.simps by (rule end_onward, simp, rule phase_step.simps, simp add: Cons)
qed (simp add: end_pair [of _ X i] end_ended)

lemma end_moved:
  "phase_end X i (Moved pid seed reason f ct) =
     ending (with_node i (\<lambda>n. attempt (client_ack (mutation_ack_of n f pid (next_pseudo_id pid seed) ct seed reason))
       (\<lambda>_. notify_siblings i f pid (next_pseudo_id pid seed))))"
proof -
  have "phase_end X i (Moved pid seed reason f ct) = ending (bindr
      (with_node i (\<lambda>n. attempt (client_ack (mutation_ack_of n f pid (next_pseudo_id pid seed) ct seed reason))
        (\<lambda>_. ret (Inr ())))) (\<lambda>_. notify_siblings i f pid (next_pseudo_id pid seed)))"
    unfolding notify_siblings_def by (rule end_onward, simp, rule phase_step.simps, simp add: end_gossip)
  then show ?thesis by (simp only: told)
qed

lemma end_begin: "phase_end X i (Begin pid seed reason) = ending (apply_mutation X i pid seed reason)"
proof -
  have stored: "phase_end X i (Placed pid seed reason f ct) = ending (bindr (on_db i (delete_fragment pid)) (\<lambda>_.
      with_node i (\<lambda>n. attempt (client_ack (mutation_ack_of n f pid (next_pseudo_id pid seed) ct seed reason))
        (\<lambda>_. notify_siblings i f pid (next_pseudo_id pid seed)))))" (is "_ = ending (?stored f ct)") for f ct
    by (rule end_onward, simp, rule phase_step.simps, simp add: end_moved)
  have sealed: "phase_end X i (Sealed pid seed reason f key ct) = ending (bindr
      (on_db_rand i (put_fragment (mutated f (next_pseudo_id pid seed) key ct))) (\<lambda>_. ?stored f ct))"
    (is "_ = ending (?sealed f key ct)") for f key ct
    by (rule end_onward, simp, rule phase_step.simps, simp add: stored)
  have holding: "phase_end X i (Holding pid seed reason f) = ending (bindr (reseal X i pid seed f) (\<lambda>(key, ct). ?sealed f key ct))"
    (is "_ = ending (?holding f)") for f
    by (rule end_onward, simp, rule phase_step.simps, simp add: sealed split: prod.split)
  have "phase_end X i (Begin pid seed reason) = ending (bindr (on_db i (get_fragment pid)) ?holding)"
    by (rule end_onward, simp, rule phase_step.simps, simp add: holding)
  then show ?thesis
    by (simp add: apply_mutation_def Let_def reseal_def bindr_assoc bindr_ret mutated_def [symmetric])
qed

lemma end_cold: "phase_end X i (Cold pid) = ending (cold_mutate X i pid)"
proof -
  have link: "bindr (take_link i c) (\<lambda>seed. g seed) = with_node i (\<lambda>n. case n_chains n c of
      None \<Rightarrow> ret (Inl ErrNoChain)
    | Some cc \<Rightarrow> (case consume cc of
        (None, _) \<Rightarrow> ret (Inl ErrChainExhausted)
      | (Some seed, cc') \<Rightarrow> (\<lambda>w. g seed (set_node i (n\<lparr>n_chains := (n_chains n)(c \<mapsto> cc')\<rparr>) w))))"
    for c and g :: "bytes \<Rightarrow> unit act"
    by (rule ext) (simp add: take_link_def bindr_def with_node_def ret_def split: option.split prod.split)
  have "phase_end X i (ColdRead pid f) = ending (bindr (take_link i (f_chain f)) (\<lambda>seed. apply_mutation X i pid seed ''cold''))" for f
    by (rule end_onward, simp, rule phase_step.simps, simp add: end_begin)
  note read = this
  have "phase_end X i (Cold pid) = ending (bindr (on_db i (get_fragment pid)) (\<lambda>f.
      bindr (take_link i (f_chain f)) (\<lambda>seed. apply_mutation X i pid seed ''cold'')))"
    by (rule end_onward, simp, rule phase_step.simps, simp add: read)
  then show ?thesis unfolding cold_mutate_def link .
qed

section \<open>Notices\<close>

lemma update_sibling_seq:
  "on_db i (update_sibling (mn_group req) (mn_old req) (mn_new req) (mn_endpoint req)) =
     bindr (on_db i (select_siblings req)) (\<lambda>us. on_db i (write_updates us))"
  by (rule on_db_seq) (simp add: update_sibling_def select_siblings_def split: prod.split sum.split)

lemma write_updates_seq: "on_db i (write_updates us) = for_each (\<lambda>u. on_db i (write_updates [u])) us"
proof (induction us)
  case Nil
  have "write_updates [] = Pair (Inr ())" by (rule ext) simp
  then show ?case by (simp add: on_db_idle)
next
  case (Cons u us)
  have "on_db i (write_updates (u # us)) = bindr (on_db i (write_updates [u])) (\<lambda>_. on_db i (write_updates us))"
    by (rule on_db_seq) (cases u, simp split: prod.split sum.split)
  then show ?case by (simp add: Cons)
qed

lemma update_manifest_seq:
  "on_db i (update_manifest_member (mn_group req) (mn_old req) (mn_new req) (mn_endpoint req)) =
     bindr (on_db i (get_manifest_by_group (mn_group req))) (\<lambda>m. on_db i (put_manifest (rename_members req m)))"
  by (rule on_db_seq) (simp add: update_manifest_member_def rename_members_def split: prod.split sum.split)

lemma end_heard: "phase_end X i (Heard req) = replying (peer_handle i (PeerNotice (Some req)))"
proof -
  let ?ok = "ret (Inr \<lparr>ps_status = 204, ps_body = PeerNoBody\<rparr>)"
    and ?failed = "ret (Inr \<lparr>ps_status = 500, ps_body = PeerError ''store''\<rparr>)"
  let ?manifest = "attempt (on_db i (update_manifest_member (mn_group req) (mn_old req) (mn_new req) (mn_endpoint req))) (\<lambda>_. ?ok)"
  let ?then = "case_sum (\<lambda>_. ?failed) (\<lambda>_. ?manifest)"
  have restoring: "phase_end X i (Restoring req m) = replying (attempt (on_db i (put_manifest (rename_members req m))) (\<lambda>_. ?ok))" for m
    by (rule reply_past, simp, rule phase_step.simps, rule end_ended)
  have lookup: "phase_end X i (Lookup req) = replying ?manifest"
    unfolding update_manifest_seq attempt_bindr
    by (rule reply_past, simp, rule phase_step.simps) (auto simp: end_ended restoring split: sum.split)
  have renaming: "phase_end X i (Renaming req us) = replying (attempt (on_db i (write_updates us)) ?then)" for us
    unfolding write_updates_seq [of i us]
  proof (induction us)
    case Nil
    have "phase_end X i (Renaming req []) = phase_end X i (Lookup req)" by (rule end_pair) simp_all
    then show ?case by (simp add: lookup attempt_ret)
  next
    case (Cons u us)
    show ?case unfolding for_each.simps attempt_bindr
      by (rule reply_past, simp, rule phase_step.simps) (auto simp: end_ended Cons split: sum.split)
  qed
  have "phase_end X i (Heard req) =
      replying (attempt (on_db i (update_sibling (mn_group req) (mn_old req) (mn_new req) (mn_endpoint req))) ?then)"
    unfolding update_sibling_seq attempt_bindr
    by (rule reply_past, simp, rule phase_step.simps) (auto simp: end_ended renaming split: sum.split)
  then show ?thesis by (simp add: peer_handle_def handle_notice_def reply_def)
qed

section \<open>Healing\<close>

fun heal_body :: "packages \<Rightarrow> nat \<Rightarrow> int option \<Rightarrow> manifest \<Rightarrow> unit act" where
  "heal_body X i (Some margin) = heal_one X i margin"
| "heal_body X i None = reshare_manifest X i"

lemma reshare_redeal: "reshare_manifest X i m = attempt (bindr (reconstruct i (mf_name m)) (redeal X i m)) (\<lambda>_. ret (Inr ()))"
  by (simp add: reshare_manifest_def redeal_def [abs_def])

lemma end_reshare:
  assumes "phase_end X i (Healing margin ms) = ending rest"
  shows "phase_end X i (Reshare margin m ms) = ending (bindr (reshare_manifest X i m) (\<lambda>_. rest))"
proof -
  have dealt: "phase_end X i (Redeal margin m data ms) = ending (attempt (redeal X i m data) (\<lambda>_. rest))" for data
    by (rule end_past, simp, rule phase_step.simps, simp add: assms)
  have "phase_end X i (Reshare margin m ms) =
      ending (attempt (reconstruct i (mf_name m)) (case_sum (\<lambda>_. rest) (\<lambda>data. attempt (redeal X i m data) (\<lambda>_. rest))))"
    by (rule end_past, simp, rule phase_step.simps) (auto simp: assms dealt split: sum.split)
  then show ?thesis unfolding reshare_redeal attempt_bindr bindr_attempt bindr_sum bindr_ret .
qed

lemma end_healing: "phase_end X i (Healing margin ms) = ending (for_each (heal_body X i margin) ms)"
proof (induction ms)
  case Nil
  show ?case by (simp add: end_pair [of "Healing margin []" X i "Finished (Inr ())"] end_ended)
next
  case (Cons m ms)
  show ?case
  proof (cases margin)
    case None
    then show ?thesis using end_reshare [OF Cons, of m] by (simp add: end_pair [of "Healing None (m # ms)" X i "Reshare None m ms"])
  next
    case (Some k)
    have "phase_end X i (Healing margin (m # ms)) = ending (bindr (probe_members m (mf_members m)) (\<lambda>alive.
        bindr (let live = int (length alive)
          in if mf_total m \<le> live then ret (Inr ())
             else if live < mf_threshold m then ret (Inr ())
             else if mf_threshold m + k < live then ret (Inr ())
             else reshare_manifest X i m) (\<lambda>_. for_each (heal_body X i margin) ms)))"
      unfolding Some
      by (rule end_onward, simp, rule phase_step.simps)
         (use Cons end_reshare [OF Cons, of m] in \<open>simp add: Some Let_def bindr_ret\<close>)
    then show ?thesis by (simp add: Some heal_one_def [of X i k m] bindr_assoc)
  qed
qed

lemma end_owned: "phase_end X i (Owned margin) = ending (bindr (owned_manifests i) (for_each (heal_body X i margin)))"
proof -
  have backups: "phase_end X i (Backups margin ms) = ending (attempt (on_db i (list_manifests_by_kind ''secret''))
      (\<lambda>r. for_each (heal_body X i margin) (ms @ listed r)))" for ms
    by (rule end_past, simp, rule phase_step.simps, simp add: end_healing)
  have "phase_end X i (Owned margin) = ending (attempt (on_db i (list_manifests_by_kind ''backup'')) (\<lambda>r1.
      attempt (on_db i (list_manifests_by_kind ''secret'')) (\<lambda>r2. for_each (heal_body X i margin) (listed r1 @ listed r2))))"
    by (rule end_past, simp, rule phase_step.simps, simp add: backups)
  then show ?thesis by (simp add: owned_manifests_def bindr_attempt bindr_ret listed_def)
qed

section \<open>Property\<close>


end
