(* ===== verification/Overlap.thy ===== *)
theory Overlap
  imports Phases
begin

text \<open>
  The system with overlapping operations: any number of mutations, notices and healing cycles are in
  flight, each between two of its phases, while everything else goes on. The invariants of \<open>Custody\<close>
  hold throughout, given that what the operations in flight hold in their variables satisfies them.
\<close>

section \<open>The system with overlapping operations\<close>

text \<open>
  A list of operations in flight, each with its node, beside the world. Between any two phases of one
  any other operation of the system, or a phase of another in flight, may happen; the operations of a
  node vanish when it stops. Notices may come from anyone.
\<close>

fun starts_with :: "phase \<Rightarrow> bool" where
  "starts_with (Begin _ _ _) = True"
| "starts_with (Cold _) = True"
| "starts_with (Heard _) = True"
| "starts_with (Owned _) = True"
| "starts_with _ = False"

inductive overlap_step :: "packages \<Rightarrow> (deliver_request \<Rightarrow> bool) \<Rightarrow>
    (nat \<times> phase) list \<times> world \<Rightarrow> (nat \<times> phase) list \<times> world \<Rightarrow> bool"
  for X :: packages and allowed :: "deliver_request \<Rightarrow> bool" where
  elsewhere: "world_step X allowed w w' \<Longrightarrow> overlap_step X allowed (ts, w) (ts, w')"
| begins: "starts_with p \<Longrightarrow> overlap_step X allowed (ts, w) ((i, p) # ts, w)"
| advances: "k < length ts \<Longrightarrow> ts ! k = (i, p) \<Longrightarrow> phase_step X i p w = (p', w') \<Longrightarrow>
    overlap_step X allowed (ts, w) (ts[k := (i, p')], w')"
| vanish: "overlap_step X allowed (ts, w) (filter (\<lambda>(j, _). j \<noteq> i) ts, w)"

inductive overlap_run :: "packages \<Rightarrow> (deliver_request \<Rightarrow> bool) \<Rightarrow>
    (nat \<times> phase) list \<times> world \<Rightarrow> (nat \<times> phase) list \<times> world \<Rightarrow> bool"
  for X :: packages and allowed :: "deliver_request \<Rightarrow> bool" where
  still: "overlap_run X allowed s s"
| further: "overlap_run X allowed s s' \<Longrightarrow> overlap_step X allowed s' s'' \<Longrightarrow> overlap_run X allowed s s''"

lemma overlap_trans:
  assumes "overlap_run X allowed s' s''" "overlap_run X allowed s s'" shows "overlap_run X allowed s s''"
  using assms by (induction rule: overlap_run.induct) (auto intro: overlap_run.intros)

lemma world_run_overlap:
  assumes "world_run X allowed w w'" shows "overlap_run X allowed (ts, w) (ts, w')"
  using assms by (induction rule: world_run.induct) (auto intro: overlap_run.intros overlap_step.elsewhere)

lemma steps_overlap:
  assumes "phase_step X i p w = (p', w')" "k < length ts" "ts ! k = (i, p)" "overlap_run X allowed s (ts, w)"
  shows "overlap_run X allowed s (ts[k := (i, p')], w')"
  by (rule overlap_run.further [OF assms(4) overlap_step.advances [OF assms(2,3,1)]])

text \<open>An operation in flight runs on as it does without interference.\<close>

lemma run_overlaps:
  assumes "phase_end X i p w = (q, w')" "k < length ts" "ts ! k = (i, p)"
  shows "overlap_run X allowed (ts, w) (ts[k := (i, q)], w')"
  using assms
proof (induction X i p w arbitrary: ts rule: phase_end.induct)
  case (1 X i p w)
  show ?case
  proof (cases "stage p = 0")
    case True
    with 1 have "ts[k := (i, q)] = ts" "w' = w" by (auto simp: list_update_same_conv)
    then show ?thesis by (simp add: overlap_run.still)
  next
    case False
    obtain p' w1 where s: "phase_step X i p w = (p', w1)" by force
    with 1(2) False have "phase_end X i p' w1 = (q, w')" by (simp add: phase_end_step)
    from 1(1) [OF False s [symmetric] this, of "ts[k := (i, p')]"] 1(3)
    have "overlap_run X allowed (ts[k := (i, p')], w1) (ts[k := (i, q)], w')" by simp
    moreover have "overlap_run X allowed (ts, w) (ts[k := (i, p')], w1)"
      by (rule steps_overlap [OF s 1(3,4) overlap_run.still])
    ultimately show ?thesis by (rule overlap_trans)
  qed
qed

section \<open>Invariants between the phases\<close>

text \<open>What an operation in flight holds: fragments that are \<open>ok\<close>, manifests that are \<open>okm\<close>, parsed members.\<close>

fun phase_ok :: "(string \<Rightarrow> string \<Rightarrow> bytes \<Rightarrow> bytes \<Rightarrow> bool) \<Rightarrow> (string \<Rightarrow> int \<Rightarrow> bool) \<Rightarrow> phase \<Rightarrow> bool" where
  "phase_ok ok okm (Holding pid seed reason frag) = ok (f_group frag) pid (f_key frag) (f_ciphertext frag)"
| "phase_ok ok okm (Sealed pid seed reason frag key ct) = ok (f_group frag) (next_pseudo_id pid seed) key ct"
| "phase_ok ok okm (Renaming req us) = (\<forall>u \<in> set us. \<exists>ms. snd u = MembersJson ms)"
| "phase_ok ok okm (Restoring req m) = okm (mf_group m) (mf_threshold m)"
| "phase_ok ok okm p = True"

definition flight_ok :: "(string \<Rightarrow> string \<Rightarrow> bytes \<Rightarrow> bytes \<Rightarrow> bool) \<Rightarrow> (string \<Rightarrow> int \<Rightarrow> bool) \<Rightarrow> (nat \<times> phase) list \<Rightarrow> bool" where
  "flight_ok ok okm ts \<longleftrightarrow> (\<forall>(j, p) \<in> set ts. phase_ok ok okm p)"

lemma flight_none [simp]: "flight_ok ok okm []"
  by (simp add: flight_ok_def)

lemma flight_mono:
  assumes "flight_ok ok okm ts" "\<And>g pid key ct. ok g pid key ct \<Longrightarrow> ok' g pid key ct" "\<And>g t. okm g t \<Longrightarrow> okm' g t"
  shows "flight_ok ok' okm' ts"
proof -
  have "phase_ok ok' okm' p" if "phase_ok ok okm p" for p using that assms(2,3) by (cases p) auto
  with assms(1) show ?thesis by (auto simp: flight_ok_def)
qed

text \<open>The operations in flight of a sane node: nothing is known of fragments, and thresholds are in range.\<close>

abbreviation sane :: "(nat \<times> phase) list \<Rightarrow> bool" where
  "sane \<equiv> flight_ok (\<lambda>_ _ _ _. True) (\<lambda>_ t. 2 \<le> t \<and> t \<le> 255)"

lemma yields_onward:
  assumes "onward m f w = (p', w')" "yields I m V" "I w" "\<And>x. V x \<Longrightarrow> phase_ok ok okm (f x)"
  shows "I w' \<and> phase_ok ok okm p'"
  using assms(1)
proof (rule onward_cases)
  fix x assume "m w = (Inr x, w')" "p' = f x"
  with yieldsD [OF assms(2,3)] assms(4) show ?thesis by blast
next
  fix err assume "m w = (Inl err, w')" "p' = Finished (Inl err)"
  with yieldsD(1) [OF assms(2,3)] show ?thesis by simp
qed

lemma yields_past:
  assumes "past m f w = (p', w')" "yields I m V" "I w" "\<And>r. (\<And>x. r = Inr x \<Longrightarrow> V x) \<Longrightarrow> phase_ok ok okm (f r)"
  shows "I w' \<and> phase_ok ok okm p'"
  using assms(1)
proof (rule past_cases)
  fix r assume r: "m w = (r, w')" "died r = None" "p' = f r"
  with yieldsD [OF assms(2,3)] assms(4) [of r] show ?thesis by blast
next
  fix msg assume "m w = (Inl (Panic msg), w')" "p' = Finished (Inl (Panic msg))"
  with yieldsD(1) [OF assms(2,3)] show ?thesis by simp
qed

context custody
begin

lemma take_link_any: "yields I (take_link i c) any"
proof (rule yieldsI)
  fix w r w' assume I: "I w" and t: "take_link i c w = (r, w')"
  have "w' = w \<or> (\<exists>cs. w' = set_node i ((w_nodes w i)\<lparr>n_chains := cs\<rparr>) w)"
    using t by (auto simp: take_link_def with_node_def ret_def split: option.splits prod.splits)
  then show "I w' \<and> (\<forall>x. r = Inr x \<longrightarrow> True)" using I set_chains by auto
qed

lemma reseal_yields:
  assumes "ok (f_group frag) pid (f_key frag) (f_ciphertext frag)"
  shows "yields I (reseal X i pid seed frag) (\<lambda>(key, ct). ok (f_group frag) (next_pseudo_id pid seed) key ct)"
  unfolding reseal_def
proof (rule yields_seq [OF on_rand_any [OF advances_rand_read]], rule yields_seq [OF yields_ret_any],
    rule yields_bindr [OF yields_ret_eq], rule yields_bindr [OF sealing_yields], rule yields_ret)
  fix key p ct x
  assume "decrypt (f_key frag) (f_ciphertext frag) (share_aad (f_group frag) pid) = Inr p"
    "\<exists>e e'. encrypt key p (share_aad (f_group frag) (next_pseudo_id pid seed)) e = (Inr ct, e')"
    "Inr (key, ct) = (Inr x :: (bytes \<times> bytes) res)"
  with assms show "case x of (key, ct) \<Rightarrow> ok (f_group frag) (next_pseudo_id pid seed) key ct"
    by (auto intro: resealed)
qed

lemma select_siblings_yields: "yields I (on_db i (select_siblings req)) (\<lambda>us. \<forall>u \<in> set us. \<exists>ms. snd u = MembersJson ms)"
proof (rule on_db_yields)
  fix w r d assume I: "I w" and s: "select_siblings req (n_db (w_nodes w i)) = (r, d)"
  let ?rows = "filter (\<lambda>r. r_group r = mn_group req) (frag_table (n_db (w_nodes w i)))"
  obtain q d' where q: "query_rows ?rows (n_db (w_nodes w i)) = (q, d')" by force
  with s query_rows_keeps [of ?rows "n_db (w_nodes w i)"] have "same_tables (n_db (w_nodes w i)) d"
    by (auto simp: select_siblings_def same_tables_def same_engine_def split: sum.splits)
  with I have "I (set_db i d w)" by (rule untouched)
  moreover have "\<forall>u \<in> set us. \<exists>ms. snd u = MembersJson ms" if "r = Inr us" for us
  proof -
    from s that q obtain rows where "sibling_updates (mn_old req) (mn_new req) (mn_endpoint req) rows = Inr us"
      by (auto simp: select_siblings_def split: sum.splits)
    then show ?thesis by (rule sibling_updates_json)
  qed
  ultimately show "I (set_db i d w) \<and> (\<forall>us. r = Inr us \<longrightarrow> (\<forall>u \<in> set us. \<exists>ms. snd u = MembersJson ms))" by blast
qed

lemma write_member_any: "\<exists>ms. snd u = MembersJson ms \<Longrightarrow> yields I (on_db i (write_updates [u])) any"
  by (rule db_step) (rule renamed, assumption, erule write_members, simp)

lemma redeal_any: "yields I (redeal X i m data) any"
  unfolding redeal_def by (auto intro!: yields_seq db_simple ping_peers_any yields_ret_any distribute_any split_any)

lemma phase_keeps:
  assumes "phase_step X i p w = (p', w')" "I w" "phase_ok ok okm p" shows "I w' \<and> phase_ok ok okm p'"
proof (cases p)
  case (Cold pid)
  show ?thesis by (rule yields_onward [OF _ read_fragment assms(2)]) (use assms(1) Cold in auto)
next
  case (ColdRead pid frag)
  show ?thesis by (rule yields_onward [OF _ take_link_any assms(2)]) (use assms(1) ColdRead in auto)
next
  case (Begin pid seed reason)
  show ?thesis by (rule yields_onward [OF _ read_fragment assms(2)]) (use assms(1) Begin in \<open>auto simp: sound_def\<close>)
next
  case (Holding pid seed reason frag)
  show ?thesis by (rule yields_onward [OF _ reseal_yields assms(2)]) (use assms(1,3) Holding in auto)
next
  case (Sealed pid seed reason frag key ct)
  then have "sound (mutated frag (next_pseudo_id pid seed) key ct)" using assms(3) by (simp add: sound_def mutated_def)
  from yields_onward [OF _ store_fragment [OF this] assms(2)] show ?thesis using assms(1) Sealed by simp
next
  case (Placed pid seed reason frag ct)
  show ?thesis by (rule yields_onward [OF _ db_simple(5) assms(2)]) (use assms(1) Placed in auto)
next
  case (Moved pid seed reason frag ct)
  have "yields I (with_node i (\<lambda>n. attempt (client_ack (a n)) (\<lambda>_. ret (Inr ())))) any" for a
    by (intro yields_with_node yields_try clients_any yields_ret_any)
  from yields_onward [OF _ this assms(2)] show ?thesis using assms(1) Moved by simp
next
  case (Gossip oldPID newPID frag ms)
  have "yields I (notify_sibling i frag oldPID newPID m) any" for m
    unfolding notify_sibling_def by (auto intro!: yields_with_node yields_ret_any yields_try [OF peers_any(1)])
  from yields_onward [OF _ this assms(2)] show ?thesis using assms Gossip by (cases ms) auto
next
  case (Heard req)
  show ?thesis by (rule yields_past [OF _ select_siblings_yields assms(2)]) (use assms(1) Heard in \<open>auto split: sum.split\<close>)
next
  case (Renaming req us)
  show ?thesis
  proof (cases us)
    case Nil
    then show ?thesis using assms Renaming by auto
  next
    case (Cons u us')
    then have "yields I (on_db i (write_updates [u])) any" using assms(3) Renaming by (intro write_member_any) simp
    from yields_past [OF _ this assms(2)] show ?thesis using assms(1,3) Renaming Cons by (simp split: sum.split)
  qed
next
  case (Lookup req)
  show ?thesis by (rule yields_past [OF _ read_group_manifest assms(2)]) (use assms(1) Lookup in \<open>auto split: sum.split\<close>)
next
  case (Restoring req m)
  then have "yields I (on_db i (put_manifest (rename_members req m))) any"
    using assms(3) by (intro store_manifest) (simp add: rename_members_def)
  from yields_past [OF _ this assms(2)] show ?thesis using assms(1) Restoring by simp
next
  case (Owned margin)
  show ?thesis by (rule yields_past [OF _ db_simple(3) assms(2)]) (use assms(1) Owned in auto)
next
  case (Backups margin ms)
  show ?thesis by (rule yields_past [OF _ db_simple(3) assms(2)]) (use assms(1) Backups in auto)
next
  case (Healing margin ms)
  show ?thesis
  proof (cases "(X, i, p)" rule: phase_step.cases)
    case (19 _ _ k m ms')
    then show ?thesis by (intro yields_onward [OF _ probe_members_any assms(2)]) (use assms(1) in \<open>auto simp: Let_def\<close>)
  qed (use assms(1,2) Healing in auto)
next
  case (Reshare margin m ms)
  show ?thesis by (rule yields_past [OF _ reconstruct_any assms(2)]) (use assms(1) Reshare in \<open>auto split: sum.split\<close>)
next
  case (Redeal margin m data ms)
  show ?thesis by (rule yields_past [OF _ redeal_any assms(2)]) (use assms(1) Redeal in auto)
qed (use assms in auto)

lemma overlap_keeps:
  assumes "overlap_run X allowed s s'" "\<And>d. allowed d \<Longrightarrow> delivery_ok d" "I (snd s)" "flight_ok ok okm (fst s)"
  shows "I (snd s') \<and> flight_ok ok okm (fst s')"
  using assms
proof (induction rule: overlap_run.induct)
  case (further s s' s'')
  then have IH: "I (snd s')" "flight_ok ok okm (fst s')" by blast+
  from further.hyps(2) show ?case
  proof (cases rule: overlap_step.cases)
    case (elsewhere w w' ts)
    then show ?thesis using IH step_keeps further.prems(1) by auto
  next
    case (begins p ts w i)
    then have "phase_ok ok okm p" by (cases p) auto
    with IH begins show ?thesis by (simp add: flight_ok_def)
  next
    case (advances k ts i p w p' w')
    then have "phase_ok ok okm p" using IH(2) nth_mem by (fastforce simp: flight_ok_def)
    from phase_keeps [OF advances(5) _ this] IH advances(1,2) show ?thesis
      by (auto simp: flight_ok_def dest!: subsetD [OF set_update_subset_insert])
  qed (use IH in \<open>auto simp: flight_ok_def\<close>)
qed simp

end

text \<open>What the invariants of the system give in a run with overlaps.\<close>

lemma wf_overlap:
  assumes "overlap_run X allowed (ts, w) (ts', w')" "nodes_wf w" "flight_ok (\<lambda>_ _ _ _. True) okm ts" shows "nodes_wf w'"
proof -
  have "flight_ok (\<lambda>_ _ _ _. True) (\<lambda>_ _. True) ts" using assms(3) by (rule flight_mono) simp_all
  with wf.overlap_keeps [OF assms(1)] assms(2) show ?thesis by (simp add: wf.delivery_ok_def)
qed

lemma valid_overlap:
  assumes "overlap_run X allowed (ts, w) (ts', w')" "thresholds_ok w" "sane ts" shows "thresholds_ok w' \<and> sane ts'"
  using valid.overlap_keeps [OF assms(1)] assms(2,3) by (simp add: valid.delivery_ok_def)

lemma group_overlap:
  assumes "overlap_run X (\<lambda>d. dr_group d \<noteq> gid) (ts, w) (ts', w')" "guarded gid t S w"
    "flight_ok (\<lambda>g _ _ _. g \<noteq> gid) (\<lambda>g _. g \<noteq> gid) ts"
  shows "guarded gid t S w'"
proof -
  have "flight_ok (genuine gid S) (\<lambda>g th. g = gid \<longrightarrow> th = t) ts"
    using assms(3) by (rule flight_mono) (simp_all add: genuine_def)
  with group.overlap_keeps [OF assms(1)] assms(2) show ?thesis by (simp add: group.delivery_ok_def genuine_def)
qed

end
