(* ===== verification/Cycles.thy ===== *)
theory Cycles
  imports Overlap
begin

text \<open>
  The background loops: \<open>RunHeartbeats\<close> of \<open>client/heartbeat.go\<close>, \<open>SelfHeal\<close> of \<open>client/selfheal.go\<close>, \<open>Run\<close> of
  \<open>client/watchdog.go\<close>, the goroutine of \<open>Start\<close> in \<open>client/node.go\<close> that handles events, and
  \<open>RunScheduledMutations\<close> of the orchestrator with the part of its \<open>main\<close> that sets it up.
\<close>

section \<open>Loops over a ticker\<close>

text \<open>
  \<open>for { select { case <-ticker.C: body() case <-ctx.Done(): return } }\<close>, driven by what the select
  finds: a tick (with what the body reads of its surroundings) or, \<open>None\<close>, the end. Before each the
  world may have changed by \<open>meanwhile\<close>. At the end of the list the loop still waits. The body returns
  nothing in Go, so only a panic of it ends the loop early.
\<close>

type_synonym 'a cue = "(world \<Rightarrow> world) \<times> 'a option"

fun ticker_loop :: "('a \<Rightarrow> unit act) \<Rightarrow> 'a cue list \<Rightarrow> unit act" where
  "ticker_loop body [] w = (Inr (), w)"
| "ticker_loop body ((meanwhile, None) # cues) w = (Inr (), meanwhile w)"
| "ticker_loop body ((meanwhile, Some a) # cues) w = bindr (body a) (\<lambda>_. ticker_loop body cues) (meanwhile w)"

text \<open>\<open>time.NewTicker\<close> panics unless the interval is positive.\<close>

definition new_ticker :: "int \<Rightarrow> unit act" where
  "new_ticker interval =
     ret (if interval \<le> 0 then Inl (Panic ''non-positive interval for NewTicker'') else Inr ())"

definition run_heartbeats :: "nat \<Rightarrow> int \<Rightarrow> unit cue list \<Rightarrow> unit act" where
  "run_heartbeats i interval cues =
     bindr (new_ticker interval) (\<lambda>_. ticker_loop (\<lambda>_. send_heartbeats i) cues)"

definition self_heal :: "packages \<Rightarrow> nat \<Rightarrow> int \<Rightarrow> int \<Rightarrow> unit cue list \<Rightarrow> unit act" where
  "self_heal X i interval margin cues =
     bindr (new_ticker interval) (\<lambda>_. ticker_loop (\<lambda>_. heal_manifests X i margin) cues)"

text \<open>A tick of the watchdog reads the remote session, the debugger and the parent process.\<close>

definition watchdog_run :: "packages \<Rightarrow> nat \<Rightarrow> int \<Rightarrow> (bool \<times> bool \<times> int) cue list \<Rightarrow> unit act" where
  "watchdog_run X i interval cues =
     bindr (new_ticker interval)
       (\<lambda>_. ticker_loop (\<lambda>(remote, debugger, ppid). watchdog_tick X i remote debugger ppid) cues)"

text \<open>\<open>for ev := range events\<close>: \<open>None\<close> is the closed channel.\<close>

definition event_loop :: "packages \<Rightarrow> nat \<Rightarrow> event cue list \<Rightarrow> unit act" where
  "event_loop X i = ticker_loop (handle_event X i)"

text \<open>What happens in the meantime is any run of the system, overlapping operations included.\<close>

definition meanwhile_runs :: "packages \<Rightarrow> (deliver_request \<Rightarrow> bool) \<Rightarrow> 'a cue list \<Rightarrow> bool" where
  "meanwhile_runs X allowed cues \<longleftrightarrow>
     (\<forall>(meanwhile, c) \<in> set cues. \<forall>w. \<exists>ts ts'. sane ts \<and> overlap_run X allowed (ts, w) (ts', meanwhile w))"

lemma meanwhile_Cons: "meanwhile_runs X allowed ((f, c) # cues) \<longleftrightarrow>
    (\<forall>w. \<exists>ts ts'. sane ts \<and> overlap_run X allowed (ts, w) (ts', f w)) \<and> meanwhile_runs X allowed cues"
  by (simp add: meanwhile_runs_def)

text \<open>A loop over a body that never fails in a world with valid thresholds goes on to its end.\<close>

lemma ticker_runs:
  assumes body: "\<And>a. silent (body a)" "\<And>a. steady (body a)"
    and "thresholds_ok w" "meanwhile_runs X allowed cues"
  shows "\<exists>w'. ticker_loop body cues w = (Inr (), w') \<and> thresholds_ok w'"
  using assms(3,4)
proof (induction cues arbitrary: w)
  case (Cons cue cues)
  obtain f c where cue: "cue = (f, c)" by force
  with Cons.prems(2) have m: "\<exists>ts ts'. sane ts \<and> overlap_run X allowed (ts, w) (ts', f w)" and cues: "meanwhile_runs X allowed cues"
    by (simp_all add: meanwhile_Cons)
  from m Cons.prems(1) have w: "thresholds_ok (f w)" using valid_overlap by blast
  show ?case
  proof (cases c)
    case None
    with w cue show ?thesis by simp
  next
    case (Some a)
    from cycle_runs [OF body w] obtain w1 where w1: "body a (f w) = (Inr (), w1)" by blast
    then have "thresholds_ok w1" using steadyD [OF body(2) w] by blast
    from Cons.IH [OF this cues] w1 show ?thesis by (simp add: cue Some bindr_def)
  qed
qed simp

lemma loop_runs:
  assumes "\<And>a. silent (body a)" "\<And>a. steady (body a)" "thresholds_ok w" "meanwhile_runs X allowed cues" "0 < interval"
  shows "\<exists>w'. bindr (new_ticker interval) (\<lambda>_. ticker_loop body cues) w = (Inr (), w')"
proof -
  from ticker_runs [where body = body, OF assms(1-4)] obtain w' where "ticker_loop body cues w = (Inr (), w')" by blast
  with assms(5) show ?thesis by (simp add: new_ticker_def bindr_def ret_def)
qed

section \<open>Operations in flight do not panic\<close>

text \<open>The operation has not ended in a panic.\<close>

fun unhurt :: "phase \<Rightarrow> bool" where
  "unhurt (Finished r) = lives r"
| "unhurt p = True"

lemma onward_unhurt:
  assumes "lives (fst (m w))" "\<And>x. unhurt (f x)" shows "unhurt (fst (onward m f w))"
  using assms by (cases "m w") (auto simp: onward_def intro: lives_Inl split: sum.split)

lemma past_unhurt:
  assumes "lives (fst (m w))" "\<And>r. unhurt (f r)" shows "unhurt (fst (past m f w))"
  using assms by (cases "m w") (auto simp: past_def lives_def)

lemma calm_lives: "calm m \<Longrightarrow> lives (fst (m w))"
  by (simp add: calm_def)

lemma steady_lives: "steady m \<Longrightarrow> thresholds_ok w \<Longrightarrow> lives (fst (m w))"
  by (simp add: steady_def)

lemma calm_take_link: "calm (take_link i c)"
  unfolding take_link_def calm_def by (auto simp: with_node_def ret_def split: option.split prod.split)

lemma calm_reseal: "calm (reseal X i pid seed frag)"
  unfolding reseal_def by (intro calm_bindr calm_on_rand calm_ret) simp_all

lemma calm_redeal: "calm (redeal X i m data)"
  unfolding redeal_def
  by (intro calm_if calm_bindr calm_on_db calm_ping_peers calm_distribute calm_split calm_ret) simp_all

lemma lives_select_siblings: "lives (fst (select_siblings req d))"
  unfolding select_siblings_def
  by (intro lives_case_pair lives_query) (auto split: sum.split intro!: lives_of [OF _ lives_sibling_updates])

lemma lives_group_manifest: "lives (fst (get_manifest_by_group gid d))"
  by (simp add: get_manifest_by_group_def)

lemma calm_tell: "calm (with_node i (\<lambda>n. attempt (client_ack (a n)) (\<lambda>_. ret (Inr ()))))"
  by (intro calm_with_node calm_attempt calm_clients calm_ret) simp

lemma calm_notify_sibling: "calm (notify_sibling i frag oldPID newPID m)"
  unfolding notify_sibling_def by (intro calm_with_node calm_if calm_attempt calm_peers calm_ret) simp_all

lemma phase_unhurt:
  assumes "unhurt p" "thresholds_ok w" shows "unhurt (fst (phase_step X i p w))"
  using assms
  by (cases "(X, i, p)" rule: phase_step.cases)
     (auto simp del: write_updates.simps intro!: lives_select_siblings lives_group_manifest onward_unhurt past_unhurt calm_lives [OF calm_on_db] calm_lives [OF calm_on_db_rand]
        calm_lives [OF calm_take_link] calm_lives [OF calm_reseal] calm_lives [OF calm_redeal] calm_lives [OF calm_tell]
        calm_lives [OF calm_notify_sibling] calm_lives [OF calm_probe] steady_lives [OF reconstruct_steady]
        simp: Let_def split: prod.split sum.split)

lemma overlap_unhurt:
  assumes "overlap_run X allowed s s'" "thresholds_ok (snd s)" "sane (fst s)" "\<forall>(j, p) \<in> set (fst s). unhurt p"
  shows "\<forall>(j, p) \<in> set (fst s'). unhurt p"
  using assms
proof (induction rule: overlap_run.induct)
  case (further s s' s'')
  then have IH: "\<forall>(j, p) \<in> set (fst s'). unhurt p" by blast
  have ok: "thresholds_ok (snd s')"
    using valid_overlap [of X allowed "fst s" "snd s" "fst s'" "snd s'"] further by simp
  from further.hyps(2) show ?case
  proof (cases rule: overlap_step.cases)
    case (begins p ts w i)
    then have "unhurt p" by (cases p) auto
    with IH begins show ?thesis by simp
  next
    case (advances k ts i p w p' w')
    then have "unhurt p" using IH nth_mem by fastforce
    from phase_unhurt [OF this, of w X i] ok IH advances show ?thesis
      by (auto dest!: subsetD [OF set_update_subset_insert])
  qed (use IH in auto)
qed simp

section \<open>The timer of the orchestrator\<close>

text \<open>
  The loop of \<open>RunScheduledMutations\<close>: it draws its next wait, and then the timer fires (\<open>True\<close>) or the
  stop channel is closed; \<open>meanwhile\<close> the server has made other steps. The waits are returned.
\<close>

fun run_scheduled :: "((server \<Rightarrow> server) \<times> bool) list \<Rightarrow> server \<Rightarrow> entropy \<Rightarrow> unit res \<times> int list \<times> server \<times> entropy" where
  "run_scheduled [] s e = (Inr (), [], s, e)"
| "run_scheduled ((meanwhile, fires) # cues) s e =
     (case next_wait (fst s) e of
        (wait, e1) \<Rightarrow>
          (case meanwhile s of
             (o1, streams) \<Rightarrow>
               if \<not> fires then (Inr (), [wait], (o1, streams), e1)
               else case scheduled_step o1 e1 of
                 (Inl p, o2, e2) \<Rightarrow> (Inl p, [wait], (o2, streams), e2)
               | (Inr _, o2, e2) \<Rightarrow>
                   (case run_scheduled cues (o2, streams) e2 of (r, waits, s', e3) \<Rightarrow> (r, wait # waits, s', e3))))"

text \<open>\<open>main\<close> of \<open>cmd/orchestrator\<close> sets the two durations from its flags before it starts the timer.\<close>

definition boot_orchestrator :: "(nat \<Rightarrow> nat \<Rightarrow> nat) \<Rightarrow> int \<Rightarrow> int \<Rightarrow> orchestrator" where
  "boot_orchestrator ord interval jit = (new_orchestrator ord)\<lparr>o_interval := interval, o_jitter := jit\<rparr>"

lemma boot_orchestrator_wf: "server_wf (boot_orchestrator ord interval jit, {})"
  using server_reach_wf [OF server_reach.start [of ord]] by (simp add: boot_orchestrator_def server_wf_def orch_wf_def)

text \<open>No step of the server changes the two durations.\<close>

definition timing :: "orchestrator \<Rightarrow> int \<times> int" where
  "timing o1 = (o_interval o1, o_jitter o1)"

lemma send_all_timing: "send_all ev is o1 = (r, o2) \<Longrightarrow> timing o2 = timing o1"
  by (induction "is" arbitrary: o1)
    (auto simp: send_to_def timing_def set_chan_def split: sum.splits prod.splits)

lemma broadcast_timing: "broadcast_delta changes o1 = (r, o2) \<Longrightarrow> timing o2 = timing o1"
  by (auto simp: broadcast_delta_def delta_snapshot_def range_values_def Let_def dest!: send_all_timing)
    (simp add: timing_def)

lemma push_seed_timing: "push_seed n seed o1 = (r, o2) \<Longrightarrow> timing o2 = timing o1"
  by (auto simp: push_seed_def send_to_def timing_def set_chan_def split: option.splits sum.splits)

lemma scheduled_timing: "scheduled_step o1 e = (r, o2, e') \<Longrightarrow> timing o2 = timing o1"
  by (auto simp: scheduled_step_def timing_def split: prod.splits option.splits
      dest!: scheduled_target_keeps push_seed_timing)

lemma handle_timing:
  assumes "orch_handle req now o1 = (resp, o2)" shows "timing o2 = timing o1"
proof (cases req)
  case (PostRegister r)
  with assms show ?thesis by (cases r) (auto simp: orch_handle_def bad_request_def register_def timing_def)
next
  case (PostAnnounce a)
  with assms show ?thesis
    by (cases a) (auto simp: orch_handle_def bad_request_def no_content_def announce_route_def timing_def Let_def
        split: prod.splits sum.splits dest!: broadcast_timing)
next
  case (PostHeartbeat hb)
  with assms show ?thesis
    by (cases hb) (auto simp: orch_handle_def bad_request_def no_content_def heartbeat_op_def timing_def split: option.splits)
next
  case (PostAck a)
  with assms show ?thesis
    by (cases a) (auto simp: orch_handle_def bad_request_def no_content_def ack_op_def timing_def Let_def
        split: prod.splits sum.splits if_splits dest!: check_cold_keeps broadcast_timing)
next
  case (PostAlert a)
  with assms show ?thesis
    by (cases a) (auto simp: orch_handle_def bad_request_def no_content_def alert_op_def timing_def
        split: prod.splits option.splits if_splits)
next
  case GetMap
  with assms show ?thesis by (auto simp: orch_handle_def snapshot_op_def range_values_def timing_def split: prod.splits)
next
  case GetNodes
  with assms show ?thesis by (auto simp: orch_handle_def nodes_op_def range_values_def timing_def split: prod.splits)
next
  case (GetEvents n)
  with assms show ?thesis
    by (auto simp: orch_handle_def subscribe_def set_chan_def timing_def Let_def split: prod.splits if_splits)
qed

lemma server_step_timing: "server_step s s' \<Longrightarrow> timing (fst s') = timing (fst s)"
proof (induction rule: server_step.induct)
  case (ended n i st o1 o2)
  then show ?case by (auto simp: unsubscribe_def set_chan_def timing_def Let_def split: sum.splits)
qed (auto simp: set_chan_def timing_def dest: handle_timing [unfolded timing_def] scheduled_timing [unfolded timing_def])

lemma jitter_range: "jitter mx e = (j, e') \<Longrightarrow> 0 \<le> j \<and> j < max 1 mx"
  by (auto simp: jitter_def rand_int_def max_def split: if_splits prod.splits sum.splits)
     (use zless_nat_eq_int_zless mod_less_divisor in fastforce)+

lemma next_wait_range:
  assumes "next_wait o1 e = (wait, e')" "0 \<le> o_interval o1" "o_interval o1 + max 1 (o_jitter o1) \<le> 2 ^ 63"
  shows "o_interval o1 \<le> wait \<and> wait < o_interval o1 + max 1 (o_jitter o1)"
proof -
  obtain j where j: "jitter (o_jitter o1) e = (j, e')" "wait = signed_take_bit 63 (o_interval o1 + j)"
    using assms(1) by (auto simp: next_wait_def split: prod.splits)
  have "0 \<le> j" "j < max 1 (o_jitter o1)" using jitter_range [OF j(1)] by simp_all
  moreover from this have "signed_take_bit 63 (o_interval o1 + j) = o_interval o1 + j"
    using assms(2,3) by (intro signed_take_bit_int_eq_self) simp_all
  ultimately show ?thesis by (simp add: j(2))
qed

lemma server_steps_keep:
  assumes "server_step\<^sup>*\<^sup>* s s'" "server_wf s" shows "server_wf s' \<and> timing (fst s') = timing (fst s)"
  using assms by (induction rule: rtranclp_induct) (auto simp: server_step_timing dest: server_step_wf)

section \<open>Properties\<close>



end
