(* ===== verification/Console.thy ===== *)
theory Console
  imports Progress Mesh
begin

text \<open>
  The command line of the client, \<open>runREPL\<close> of \<open>cmd/client/main.go\<close>: one operation per command,
  their dispatch, and the loop over the lines of the standard input. An answer is what a command
  prints, with the values it prints. The lemmas show that the commands do to the nodes nothing
  but what the operations of the library do, and to the user's files nothing but write the output
  of \<open>reconstruct\<close>.
\<close>

section \<open>The host\<close>

text \<open>
  The user's files beside the world of nodes. \<open>h_unreadable\<close> are the paths \<open>os.ReadFile\<close> fails
  on; \<open>h_write_fault\<close> is \<open>None\<close> where a write succeeds, and \<open>Some left\<close> where it reports an error
  and leaves \<open>left\<close>.
\<close>

record host =
  h_world :: world
  h_files :: "string \<rightharpoonup> bytes"
  h_unreadable :: "string \<Rightarrow> bool"
  h_write_fault :: "string \<Rightarrow> bytes option option"

definition host_read :: "host \<Rightarrow> string \<Rightarrow> bytes res" where
  "host_read h p =
     (if h_unreadable h p then Inl ErrReadFile
      else case h_files h p of None \<Rightarrow> Inl ErrNotExist | Some b \<Rightarrow> Inr b)"

definition host_write :: "string \<Rightarrow> bytes \<Rightarrow> host \<Rightarrow> unit res \<times> host" where
  "host_write p b h =
     (case h_write_fault h p of
        None \<Rightarrow> (Inr (), h\<lparr>h_files := (h_files h)(p \<mapsto> b)\<rparr>)
      | Some left \<Rightarrow> (Inl ErrWriteFile, h\<lparr>h_files := (h_files h)(p := left)\<rparr>))"

definition on_world :: "'a act \<Rightarrow> host \<Rightarrow> 'a res \<times> host" where
  "on_world m h = (case m (h_world h) of (r, w) \<Rightarrow> (r, h\<lparr>h_world := w\<rparr>))"

section \<open>The commands\<close>

datatype answer =
    Help
  | Usage string
  | Unreadable goerr
  | NotANumber
  | Failed goerr
  | Crashed string
  | Stored string int int
  | Unwritable goerr
  | Rebuilt string string nat
  | Triggered
  | NoFragments
  | Fragments int "fragment list"
  | Keys key_pair
  | PeerAdded string string
  | NoPeers
  | Peers "mesh_peer list"
  | BackedUp string int
  | NoDatabase goerr
  | DatabaseBackedUp string int
  | Healed
  | Unknown

text \<open>An error is printed; a panic ends the process.\<close>

definition failure :: "goerr \<Rightarrow> answer" where
  "failure err = (case err of Panic msg \<Rightarrow> Crashed msg | _ \<Rightarrow> Failed err)"

text \<open>\<open>if err := m(); err != nil { print; continue }; print(ok)\<close>\<close>

definition report :: "('a \<Rightarrow> answer) \<Rightarrow> 'a res \<times> host \<Rightarrow> answer \<times> host" where
  "report ok rh = (case rh of (Inl err, h) \<Rightarrow> (failure err, h) | (Inr x, h) \<Rightarrow> (ok x, h))"

definition cmd_store :: "packages \<Rightarrow> nat \<Rightarrow> string list \<Rightarrow> host \<Rightarrow> answer \<times> host" where
  "cmd_store X i ws h =
     (if length ws \<noteq> 5 then (Usage ''store'', h)
      else case host_read h (ws ! 2) of
        Inl err \<Rightarrow> (Unreadable err, h)
      | Inr data \<Rightarrow>
          (case (atoi (ws ! 3), atoi (ws ! 4)) of
             (Some threshold, Some tot) \<Rightarrow>
               report (\<lambda>_. Stored (ws ! 1) tot threshold)
                 (on_world (split_op X i (ws ! 1) data threshold tot) h)
           | _ \<Rightarrow> (NotANumber, h)))"

definition cmd_reconstruct :: "nat \<Rightarrow> string list \<Rightarrow> host \<Rightarrow> answer \<times> host" where
  "cmd_reconstruct i ws h =
     (if length ws \<noteq> 3 then (Usage ''reconstruct'', h)
      else case on_world (reconstruct i (ws ! 1)) h of
        (Inl err, h1) \<Rightarrow> (failure err, h1)
      | (Inr data, h1) \<Rightarrow>
          (case host_write (ws ! 2) data h1 of
             (Inl err, h2) \<Rightarrow> (Unwritable err, h2)
           | (Inr _, h2) \<Rightarrow> (Rebuilt (ws ! 1) (ws ! 2) (length data), h2)))"

definition print_status :: "nat \<Rightarrow> host \<Rightarrow> answer \<times> host" where
  "print_status i h =
     report (\<lambda>pids. if pids = [] then NoFragments
                    else Fragments (lastScore (n_watch (w_nodes (h_world h) i))) pids)
       (on_world (list_local_fragments i) h)"

definition cmd_genkey :: "packages \<Rightarrow> nat \<Rightarrow> host \<Rightarrow> answer \<times> host" where
  "cmd_genkey X i h = report Keys (on_world (on_rand i (generate_key_pair X)) h)"

definition cmd_mesh_add :: "nat \<Rightarrow> string list \<Rightarrow> host \<Rightarrow> answer \<times> host" where
  "cmd_mesh_add i ws h =
     (if length ws \<noteq> 4 then (Usage ''mesh-add'', h)
      else report (\<lambda>_. PeerAdded (ws ! 1) (ws ! 2))
             (on_world (add_mesh_peer i (ws ! 1) (ws ! 2) (ws ! 3)) h))"

definition print_mesh_peers :: "nat \<Rightarrow> host \<Rightarrow> answer \<times> host" where
  "print_mesh_peers i h =
     report (\<lambda>peers. if peers = [] then NoPeers else Peers peers) (on_world (node_mesh_peers i) h)"

definition cmd_backup :: "nat \<Rightarrow> string list \<Rightarrow> host \<Rightarrow> answer \<times> host" where
  "cmd_backup i ws h =
     (if length ws \<noteq> 4 then (Usage ''backup'', h)
      else case host_read h (ws ! 2) of
        Inl err \<Rightarrow> (Unreadable err, h)
      | Inr data \<Rightarrow>
          (case atoi (ws ! 3) of
             None \<Rightarrow> (NotANumber, h)
           | Some threshold \<Rightarrow>
               report (\<lambda>_. BackedUp (ws ! 1) threshold)
                 (on_world (backup_op i (ws ! 1) data threshold) h)))"

definition cmd_backup_db :: "nat \<Rightarrow> string list \<Rightarrow> host \<Rightarrow> answer \<times> host" where
  "cmd_backup_db i ws h =
     (if length ws \<noteq> 3 then (Usage ''backup-db'', h)
      else case atoi (ws ! 2) of
        None \<Rightarrow> (NotANumber, h)
      | Some threshold \<Rightarrow>
          (case on_world (read_own_database_file (host_read h) i) h of
             (Inl err, h1) \<Rightarrow> (NoDatabase err, h1)
           | (Inr data, h1) \<Rightarrow>
               report (\<lambda>_. DatabaseBackedUp (ws ! 1) threshold)
                 (on_world (backup_op i (ws ! 1) data threshold) h1)))"

text \<open>The switch on the first field; \<open>quit\<close> and \<open>exit\<close> leave the loop before it.\<close>

definition command :: "packages \<Rightarrow> nat \<Rightarrow> string list \<Rightarrow> host \<Rightarrow> answer \<times> host" where
  "command X i ws h =
     (let c = hd ws
      in if c = ''help'' then (Help, h)
         else if c = ''store'' then cmd_store X i ws h
         else if c = ''reconstruct'' then cmd_reconstruct i ws h
         else if c = ''simulate-attack'' then report (\<lambda>_. Triggered) (on_world (simulate_attack X i) h)
         else if c = ''status'' then print_status i h
         else if c = ''mesh-genkey'' then cmd_genkey X i h
         else if c = ''mesh-add'' then cmd_mesh_add i ws h
         else if c = ''mesh-list'' then print_mesh_peers i h
         else if c = ''backup'' then cmd_backup i ws h
         else if c = ''backup-db'' then cmd_backup_db i ws h
         else if c = ''heal-now'' then report (\<lambda>_. Healed) (on_world (heal_now X i) h)
         else (Unknown, h))"

section \<open>The loop\<close>

text \<open>The loop ends with \<open>quit\<close>, with the standard input (the daemon stays up) or with a panic.\<close>

datatype ending = Quit | InputClosed | Down

fun repl :: "packages \<Rightarrow> nat \<Rightarrow> string list \<Rightarrow> host \<Rightarrow> answer list \<times> ending \<times> host" where
  "repl X i [] h = ([], InputClosed, h)"
| "repl X i (line # lines) h =
     (let ws = split_fields line
      in if ws = [] then repl X i lines h
         else if hd ws = ''quit'' \<or> hd ws = ''exit'' then ([], Quit, h)
         else case command X i ws h of
           (Crashed msg, h1) \<Rightarrow> ([Crashed msg], Down, h1)
         | (a, h1) \<Rightarrow> (case repl X i lines h1 of (as, en, h2) \<Rightarrow> (a # as, en, h2)))"

definition run_repl :: "packages \<Rightarrow> nat \<Rightarrow> string \<Rightarrow> host \<Rightarrow> answer list \<times> ending \<times> host" where
  "run_repl X i stdin h =
     (case repl X i (scan_lines default_line stdin) h of (as, en, h1) \<Rightarrow> (Help # as, en, h1))"

section \<open>What a session does\<close>

lemma world_run_step: "world_step X allowed w w' \<Longrightarrow> world_run X allowed w w'"
  by (rule world_run.onward [OF world_run.here])

lemma world_run_trans: "world_run X allowed w w' \<Longrightarrow> world_run X allowed w' w'' \<Longrightarrow> world_run X allowed w w''"
  by (rotate_tac, induction rule: world_run.induct) (auto intro: world_run.onward)

text \<open>\<open>tame\<close>: the nodes moved by steps of the system and no file outside \<open>S\<close> changed.\<close>

definition tame :: "packages \<Rightarrow> (deliver_request \<Rightarrow> bool) \<Rightarrow> string set \<Rightarrow> host \<Rightarrow> host \<Rightarrow> bool" where
  "tame X allowed S h h' \<longleftrightarrow>
     world_run X allowed (h_world h) (h_world h') \<and> (\<forall>p. p \<notin> S \<longrightarrow> h_files h' p = h_files h p)"

lemma tame_refl [simp]: "tame X allowed S h h"
  by (simp add: tame_def world_run.here)

lemma tame_trans: "tame X allowed S h h' \<Longrightarrow> tame X allowed T h' h'' \<Longrightarrow> tame X allowed (S \<union> T) h h''"
  by (auto simp: tame_def intro: world_run_trans)

lemma tame_mono: "tame X allowed S h h' \<Longrightarrow> S \<subseteq> T \<Longrightarrow> tame X allowed T h h'"
  by (auto simp: tame_def)

lemma tame_world:
  assumes "on_world m h = (r, h')" "\<And>w x w'. m w = (x, w') \<Longrightarrow> world_step X allowed w w'"
  shows "tame X allowed S h h'"
  using assms by (auto simp: on_world_def tame_def intro: world_run_step split: prod.splits)

lemma tame_report:
  assumes "report ok (on_world m h) = (a, h')" "\<And>w x w'. m w = (x, w') \<Longrightarrow> world_step X allowed w w'"
  shows "tame X allowed S h h'"
proof -
  obtain r h1 where "on_world m h = (r, h1)" by force
  with tame_world [OF this assms(2)] assms(1) show ?thesis by (auto simp: report_def split: sum.splits)
qed

lemma tame_write: "host_write p b h = (r, h') \<Longrightarrow> tame X allowed {p} h h'"
  by (auto simp: host_write_def tame_def intro: world_run.here split: option.splits)

text \<open>The file a command line may write.\<close>

definition output_of :: "string list \<Rightarrow> string set" where
  "output_of ws = (if ws \<noteq> [] \<and> hd ws = ''reconstruct'' \<and> length ws = 3 then {ws ! 2} else {})"

definition outputs :: "string list \<Rightarrow> string set" where
  "outputs lines = (\<Union>line \<in> set lines. output_of (split_fields line))"

lemma reconstruct_tame:
  assumes "cmd_reconstruct i ws h = (a, h')" "hd ws = ''reconstruct''"
  shows "tame X allowed (output_of ws) h h'"
proof (cases "length ws = 3")
  case True
  then have out: "output_of ws = {ws ! 2}" using assms(2) by (auto simp: output_of_def)
  obtain r h1 where h1: "on_world (reconstruct i (ws ! 1)) h = (r, h1)" by force
  then have t: "tame X allowed {} h h1" by (rule tame_world) (rule world_step.reconstructs)
  show ?thesis
  proof (cases r)
    case (Inl err)
    then show ?thesis using assms(1) True h1 tame_mono [OF t] by (simp add: cmd_reconstruct_def)
  next
    case (Inr data)
    obtain r2 h2 where h2: "host_write (ws ! 2) data h1 = (r2, h2)" by force
    then have "h' = h2" using assms(1) True h1 Inr by (auto simp: cmd_reconstruct_def split: sum.splits)
    then show ?thesis using tame_trans [OF t tame_write [OF h2]] out by simp
  qed
qed (use assms(1) in \<open>simp add: cmd_reconstruct_def\<close>)

lemma backup_db_tame:
  assumes "cmd_backup_db i ws h = (a, h')" shows "tame X allowed S h h'"
proof -
  have "on_world (read_own_database_file (host_read h) i) h = (r, h1) \<Longrightarrow> h1 = h" for r h1
    by (auto simp: on_world_def read_own_database_file_def with_node_def ret_def split: if_splits)
  with assms show ?thesis
    by (auto simp: cmd_backup_db_def split: if_splits option.splits prod.splits sum.splits
        intro: world_step.backs_up elim!: tame_report)
qed

lemma command_tame:
  assumes "command X i ws h = (a, h')" shows "tame X allowed (output_of ws) h h'"
  using assms unfolding command_def Let_def
  by (auto simp: cmd_store_def print_status_def cmd_genkey_def cmd_mesh_add_def print_mesh_peers_def
      cmd_backup_def heal_now_def reconstruct_tame backup_db_tame
      split: if_splits option.splits sum.splits intro: world_step.intros elim!: tame_report)

lemma repl_tame: "repl X i lines h = (as, en, h') \<Longrightarrow> tame X allowed (outputs lines) h h'"
proof (induction lines arbitrary: h as)
  case (Cons line lines)
  let ?ws = "split_fields line"
  have out: "outputs (line # lines) = output_of ?ws \<union> outputs lines" by (simp add: outputs_def)
  obtain a h1 where h1: "command X i ?ws h = (a, h1)" by force
  have t: "tame X allowed (output_of ?ws) h h1" by (rule command_tame [OF h1])
  from Cons.prems h1 consider "repl X i lines h = (as, en, h')" | "h' = h" | "h' = h1"
    | as1 where "repl X i lines h1 = (as1, en, h')"
    by (auto simp: Let_def split: if_splits answer.splits prod.splits)
  then show ?case
  proof cases
    case 1
    then show ?thesis using tame_mono [OF Cons.IH] out by blast
  next
    case 4
    then show ?thesis unfolding out by (rule tame_trans [OF t Cons.IH])
  qed (use tame_mono [OF t] out in simp_all)
qed simp

section \<open>Two commands\<close>

lemma store_line:
  assumes "host_read h file = Inr data" "atoi ts = Some t" "atoi ns = Some n"
    "split_op X i name data t n (h_world h) = (Inr (), w1)"
  shows "command X i [''store'', name, file, ts, ns] h = (Stored name n t, h\<lparr>h_world := w1\<rparr>)"
  using assms by (simp add: command_def cmd_store_def on_world_def report_def)

lemma reconstruct_line:
  assumes "reconstruct i name (h_world h) = (Inr data, w2)" "h_write_fault h out = None"
  shows "command X i [''reconstruct'', name, out] h =
    (Rebuilt name out (length data), h\<lparr>h_world := w2, h_files := (h_files h)(out \<mapsto> data)\<rparr>)"
  using assms by (simp add: command_def cmd_reconstruct_def on_world_def host_write_def)

lemma repl_line:
  assumes "split_fields line = c # ws" "c \<noteq> ''quit''" "c \<noteq> ''exit''" "command X i (c # ws) h = (a, h1)"
    "\<forall>msg. a \<noteq> Crashed msg" "repl X i lines h1 = (as, en, h2)"
  shows "repl X i (line # lines) h = (a # as, en, h2)"
  using assms by (simp add: Let_def split: answer.split)

section \<open>A session does not crash\<close>

lemma report_no_crash:
  assumes "steady m" "thresholds_ok (h_world h)" "\<And>x msg. ok x \<noteq> Crashed msg"
  shows "fst (report ok (on_world m h)) \<noteq> Crashed msg"
proof -
  obtain r w where r: "m (h_world h) = (r, w)" by force
  from steadyD [OF assms(1,2) r] assms(3) show ?thesis
    unfolding report_def on_world_def r
    by (cases r) (auto simp: failure_def lives_def died_Some split: goerr.splits)
qed

lemma command_no_crash:
  assumes "thresholds_ok (h_world h)" shows "fst (command X i ws h) \<noteq> Crashed msg"
proof -
  have split: "steady (split_op X i name data t n)" for name data t n by (rule steady_calm [OF calm_split valid.split_any])
  have backup: "steady (backup_op i name data t)" for name data t by (rule steady_calm [OF calm_backup valid.backup_any])
  have list: "steady (list_local_fragments i)"
    unfolding list_local_fragments_def
    by (rule steady_calm [OF _ valid.list_local_any [unfolded list_local_fragments_def]])
       (intro calm_bindr calm_on_db calm_get_all; simp)
  have keys: "steady (on_rand i (generate_key_pair X))"
    by (rule steady_calm [OF _ valid.keys_any], rule calm_on_rand)
       (auto simp: generate_key_pair_def rand_read_def Let_def split: option.split)
  have mesh: "steady (add_mesh_peer i name ep wg)" "steady (node_mesh_peers i)" for name ep wg
    by (rule steady_calm [OF _ valid.mesh_any(1)], simp add: add_mesh_peer_def calm_on_db,
        rule steady_calm [OF _ valid.mesh_any(2)], simp add: node_mesh_peers_def calm_on_db)
  note ok = assms report_no_crash [OF _ assms]
  have "fst (cmd_reconstruct i ws h) \<noteq> Crashed msg"
  proof -
    obtain r w where r: "reconstruct i (ws ! 1) (h_world h) = (r, w)" by force
    from steadyD [OF reconstruct_steady assms r] show ?thesis
      unfolding cmd_reconstruct_def on_world_def r
      by (cases r) (auto simp: failure_def lives_def died_Some split: goerr.splits prod.split sum.split)
  qed
  moreover have "fst (cmd_backup_db i ws h) \<noteq> Crashed msg"
  proof -
    have "on_world (read_own_database_file (host_read h) i) h = (r, h1) \<Longrightarrow> h1 = h" for r h1
      by (auto simp: on_world_def read_own_database_file_def with_node_def ret_def split: if_splits)
    then show ?thesis using ok(2) [OF backup] by (auto simp: cmd_backup_db_def split: option.split prod.split sum.split)
  qed
  ultimately show ?thesis
    using ok(2) [OF split] ok(2) [OF backup] ok(2) [OF list] ok(2) [OF keys] ok(2) [OF mesh(1)] ok(2) [OF mesh(2)]
      ok(2) [OF react_steady] ok(2) [OF healing_steady(1)]
    by (auto simp: command_def Let_def cmd_store_def print_status_def cmd_genkey_def cmd_mesh_add_def print_mesh_peers_def
        cmd_backup_def heal_now_def simulate_attack_def split: option.split sum.split)
qed

lemma session_stays_up: "repl X i lines h = (as, en, h') \<Longrightarrow> thresholds_ok (h_world h) \<Longrightarrow> en \<noteq> Down"
proof (induction lines arbitrary: h as)
  case (Cons line lines)
  let ?ws = "split_fields line"
  obtain a h1 where h1: "command X i ?ws h = (a, h1)" by force
  have t: "thresholds_ok (h_world h1)"
    using command_tame [OF h1, of "\<lambda>_. True"] Cons.prems(2) by (auto simp: tame_def intro: valid_run)
  have "a \<noteq> Crashed msg" for msg using command_no_crash [OF Cons.prems(2)] h1 by (metis fst_conv)
  with Cons.prems(1) h1 consider "repl X i lines h = (as, en, h')" | "en = Quit"
    | as1 where "repl X i lines h1 = (as1, en, h')"
    by (auto simp: Let_def split: if_splits answer.splits prod.splits)
  then show ?case by cases (use Cons.IH Cons.prems(2) t in auto)
qed simp

end
