(* ===== verification/Samples.thy ===== *)
theory Samples
  imports Exchange Console
begin

text \<open>
  Small worlds, for the witnesses: two and four nodes that have just started, registered with the
  orchestrator and reachable, and a host with one file.
\<close>

section \<open>A small world\<close>

text \<open>
  For the witnesses: two nodes, both registered with the orchestrator and both reachable. Node 0
  draws ones in its second read, every other read gives zeros.
\<close>

definition node_a :: node where
  "node_a = new_node ''a'' ''http://a'' [1] empty_db 1
     \<lparr>tape = \<lambda>k _. if k = 1 then 1 else 0, broken = \<lambda>_. False, draws = 0\<rparr>"

definition node_b :: node where
  "node_b = new_node ''b'' ''http://b'' [2] empty_db 1
     \<lparr>tape = \<lambda>_ _. 0, broken = \<lambda>_. False, draws = 0\<rparr>"

definition two_nodes :: world where
  "two_nodes = \<lparr>w_nodes = \<lambda>j. if j = 0 then node_a else node_b,
     w_addr = [''http://a'' \<mapsto> 0, ''http://b'' \<mapsto> 1],
     w_orch = register ''b'' ''http://b'' 0 (register ''a'' ''http://a'' 0 (new_orchestrator (\<lambda>_ i. i))),
     w_fate = \<lambda>_. Reached, w_clock = int, w_calls = 0\<rparr>"

lemma two_nodes_nodes:
  "n_db (w_nodes two_nodes j) = empty_db" "broken (n_entropy (w_nodes two_nodes j)) = (\<lambda>_. False)"
  "n_id (w_nodes two_nodes 0) = ''a''" "nodes_wf two_nodes"
  by (simp_all add: two_nodes_def node_a_def node_b_def new_node_def nodes_wf_def empty_db_wf)

lemma two_nodes_faultless:
  "faultless (w_addr two_nodes) (o_nodes (w_orch two_nodes)) two_nodes"
proof -
  have "orch_wf (w_orch two_nodes)" by (simp add: two_nodes_def register_wf new_orchestrator_wf)
  then show ?thesis
    by (simp add: faultless_def sound_node_def two_nodes_nodes) (simp add: two_nodes_def empty_db_def key_ok_def)
qed

lemma two_nodes_peers:
  "live_peers (w_addr two_nodes) ''a'' (node_infos (o_nodes (w_orch two_nodes))) =
    [\<lparr>ni_node = ''b'', ni_endpoint = ''http://b''\<rparr>]"
  by (simp add: two_nodes_def live_peers_def node_infos_def register_def new_orchestrator_def)

lemma two_nodes_spread: "spread (w_addr two_nodes) (o_nodes (w_orch two_nodes)) 0 ''a''"
  unfolding spread_def two_nodes_peers by (simp add: two_nodes_def)

lemma two_nodes_drawn: "drawn_id two_nodes j k = hex_encode (replicate 16 (if j = 0 \<and> k = 1 then 1 else 0))"
  by (simp add: drawn_id_def two_nodes_def node_a_def node_b_def new_node_def map_replicate_const)

lemma two_nodes_fresh: "fresh_group_id (split_group_id 0 [7] two_nodes) two_nodes"
proof -
  have gid: "split_group_id 0 [7] two_nodes = drawn_id two_nodes 0 1"
    by (simp add: split_group_id_def) (simp add: two_nodes_def node_a_def new_node_def)
  have "drawn_id two_nodes j k = drawn_id two_nodes 0 1 \<longleftrightarrow> j = 0 \<and> k = 1" for j k
    unfolding two_nodes_drawn by (simp add: hex_encode_inj)
  then show ?thesis unfolding fresh_group_id_def gid by (simp add: two_nodes_nodes) (simp add: empty_db_def)
qed

lemma two_nodes_unused: "split_group_id 0 [7] two_nodes \<notin> r_group ` set (frag_table (n_db (w_nodes two_nodes j)))"
  by (simp add: two_nodes_nodes) (simp add: empty_db_def)

lemma two_nodes_thresholds: "thresholds_ok two_nodes"
  by (simp add: thresholds_ok_def manifests_all_def two_nodes_nodes) (simp add: empty_db_def)

section \<open>Four nodes\<close>

definition four_nodes :: world where
  "four_nodes = two_nodes\<lparr>w_addr := (w_addr two_nodes)(''http://c'' \<mapsto> 2, ''http://d'' \<mapsto> 3),
     w_orch := register ''d'' ''http://d'' 0 (register ''c'' ''http://c'' 0 (w_orch two_nodes))\<rparr>"

lemma four_nodes_faultless: "faultless (w_addr four_nodes) (o_nodes (w_orch four_nodes)) four_nodes"
proof -
  have "orch_wf (w_orch four_nodes)"
    using two_nodes_faultless by (simp add: four_nodes_def register_wf faultless_def)
  then show ?thesis using two_nodes_faultless by (simp add: faultless_def) (simp add: four_nodes_def)
qed

lemma four_nodes_peers:
  "live_peers A ''a'' (node_infos (o_nodes (w_orch four_nodes))) = filter (\<lambda>p. A (ni_endpoint p) \<noteq> None)
    [\<lparr>ni_node = ''b'', ni_endpoint = ''http://b''\<rparr>, \<lparr>ni_node = ''c'', ni_endpoint = ''http://c''\<rparr>,
     \<lparr>ni_node = ''d'', ni_endpoint = ''http://d''\<rparr>]"
  by (simp add: four_nodes_def two_nodes_def live_peers_def node_infos_def register_def new_orchestrator_def)

lemma four_nodes_addr: "w_addr four_nodes = [''http://a'' \<mapsto> 0, ''http://b'' \<mapsto> 1, ''http://c'' \<mapsto> 2, ''http://d'' \<mapsto> 3]"
  by (simp add: four_nodes_def two_nodes_def)

lemma four_nodes_spread: "spread (w_addr four_nodes) (o_nodes (w_orch four_nodes)) 0 ''a''"
  unfolding spread_def four_nodes_peers by (simp add: four_nodes_addr)

lemma four_nodes_nodes: "w_nodes four_nodes = w_nodes two_nodes"
  by (simp add: four_nodes_def)

lemma four_nodes_start:
  "nodes_wf four_nodes" "n_id (w_nodes four_nodes 0) = ''a''" "n_endpoint (w_nodes four_nodes 0) = ''http://a''"
  "groups_within {} four_nodes" "split_group_id 0 [7] four_nodes \<notin> r_group ` set (frag_table (n_db (w_nodes four_nodes j)))"
proof -
  show "nodes_wf four_nodes" using two_nodes_nodes(4) by (simp add: nodes_wf_def four_nodes_nodes)
  show "n_id (w_nodes four_nodes 0) = ''a''" by (simp add: four_nodes_nodes two_nodes_nodes)
  show "n_endpoint (w_nodes four_nodes 0) = ''http://a''"
    by (simp add: four_nodes_nodes) (simp add: two_nodes_def node_a_def new_node_def)
  have e: "frag_table (n_db (w_nodes four_nodes j)) = []" for j
    by (simp add: four_nodes_nodes two_nodes_nodes) (simp add: empty_db_def)
  then show "groups_within {} four_nodes" by (simp add: groups_within_def)
  show "split_group_id 0 [7] four_nodes \<notin> r_group ` set (frag_table (n_db (w_nodes four_nodes j)))" by (simp add: e)
qed

lemma four_nodes_split:
  "\<exists>w1 tok P m shares e e'. split_op sample_packages 0 ''s'' [7] 2 3 four_nodes = (Inr (), w1) \<and>
    split_secret [7] 3 2 e = (Inr shares, e') \<and> manifests_of (n_db (w_nodes w1 0)) ''s'' = Some m \<and>
    dealt ''secret'' (w_addr four_nodes) 0 ''a'' ''http://a'' (split_group_id 0 [7] four_nodes) tok 2 3 ''s'' P shares m"
proof -
  have "3 - 1 \<le> int (length (live_peers (w_addr four_nodes) ''a'' (node_infos (o_nodes (w_orch four_nodes)))))"
    unfolding four_nodes_peers by (simp add: four_nodes_addr)
  from split_returns [OF sample_packages_laws(1) _ _ _ _ four_nodes_faultless four_nodes_start(1,2) this
      four_nodes_spread four_nodes_start(5), of 2 "''s''"] show ?thesis
    by (simp add: four_nodes_start(3)) blast
qed

text \<open>The second group identifier of node 0 is not the first.\<close>

lemma four_nodes_other:
  assumes "split_op sample_packages 0 ''s'' [7] 2 3 four_nodes = (Inr (), w1)"
  shows "split_group_id 0 [7] w1 \<noteq> split_group_id 0 [7] four_nodes"
proof -
  note g = split_groups [OF assms four_nodes_start(4)]
  let ?k = "draws (n_entropy (w_nodes w1 0)) + 1"
  have d0: "draws (n_entropy (w_nodes four_nodes 0)) = 0"
    by (simp add: four_nodes_nodes) (simp add: two_nodes_def node_a_def new_node_def)
  have drawn: "drawn_id w1 0 k = drawn_id two_nodes 0 k" for k
    using g(2) by (simp add: drawn_id_def drawn_from_def four_nodes_nodes)
  have "split_group_id 0 [7] w1 = drawn_id two_nodes 0 ?k" using drawn by (simp add: split_group_id_def)
  moreover have "split_group_id 0 [7] four_nodes = drawn_id two_nodes 0 1"
    using d0 by (simp add: split_group_id_def) (simp add: drawn_id_def four_nodes_nodes)
  moreover have "drawn_id two_nodes 0 ?k \<noteq> drawn_id two_nodes 0 1"
    using g(3) d0 unfolding two_nodes_drawn by (simp add: hex_encode_inj)
  ultimately show ?thesis by simp
qed

lemma four_nodes_second:
  assumes "split_op sample_packages 0 ''s'' [7] 2 3 four_nodes = (Inr (), w1)"
  shows "split_group_id 0 [7] w1 \<notin> r_group ` set (frag_table (n_db (w_nodes w1 j)))"
  using groups_db [OF split_groups(1) [OF assms four_nodes_start(4)], of j] four_nodes_other [OF assms] by blast

lemma one_departs:
  assumes "distinct (map f xs)" "x \<in> set xs" "\<And>y. y \<in> set xs \<Longrightarrow> A (f y) \<noteq> None"
  shows "length (filter (\<lambda>y. (A(f x := None)) (f y) \<noteq> None) xs) = length xs - 1"
proof -
  have "filter (\<lambda>y. (A(f x := None)) (f y) \<noteq> None) xs = filter (\<lambda>y. f x \<noteq> f y) xs"
    by (rule filter_cong) (use assms(3) in auto)
  then have "length (filter (\<lambda>y. (A(f x := None)) (f y) \<noteq> None) xs) = length (filter (\<lambda>e. f x \<noteq> e) (map f xs))"
    by (simp only: filter_map comp_def length_map)
  also have "\<dots> = length (remove1 (f x) (map f xs))"
    using assms(1) by (simp only: removeAll_filter_not_eq [symmetric] distinct_remove1_removeAll)
  finally show ?thesis using assms(2) by (simp add: length_remove1)
qed

lemma four_nodes_thresholds: "thresholds_ok four_nodes"
  using two_nodes_thresholds by (simp add: thresholds_ok_def four_nodes_nodes)

section \<open>A host\<close>

definition two_hosts :: host where
  "two_hosts = \<lparr>h_world = two_nodes, h_files = [''f'' \<mapsto> [7]], h_unreadable = (\<lambda>_. False), h_write_fault = (\<lambda>_. None)\<rparr>"

end
