(* ===== verification/Races.thy ===== *)
theory Races
  imports Overlap Samples
begin

text \<open>
  What overlapping operations do to each other, \<open>client/node.go\<close>, \<open>peerserver.go\<close> and \<open>selfheal.go\<close>: a fragment may
  fork, a notice may be lost or bring an old manifest back, and a reshare may undo a store.
\<close>

section \<open>A fragment may fork\<close>

text \<open>A node whose store and randomness work, in a world of well-formed databases.\<close>

definition fit :: "nat \<Rightarrow> world \<Rightarrow> bool" where
  "fit i w \<longleftrightarrow> nodes_wf w \<and> sound_node (w_nodes w i)"

definition frags_at :: "nat \<Rightarrow> world \<Rightarrow> string \<rightharpoonup> fragment" where
  "frags_at i w = frags_of (n_db (w_nodes w i))"

lemma fit_db: "fit i w \<Longrightarrow> db_wf (n_db (w_nodes w i)) \<and> (\<forall>k. \<not> sql_broken (n_db (w_nodes w i)) k) \<and>
    (\<forall>k. row_stop (n_db (w_nodes w i)) k = None)"
  by (simp add: fit_def sound_node_def nodes_wf_db)

lemma fit_set_db:
  assumes "fit i w" "db_wf d" "same_engine (n_db (w_nodes w i)) d" shows "fit i (set_db i d w)"
  using assms by (simp add: fit_def nodes_wf_def sound_node_def same_engine_def)

lemma begin_step:
  assumes "fit i w" "frags_at i w pid = Some f"
  shows "\<exists>w'. phase_step X i (Begin pid seed reason) w = (Holding pid seed reason f, w') \<and> fit i w' \<and>
    (\<forall>j. frags_at j w' = frags_at j w)"
proof -
  let ?d = "n_db (w_nodes w i)" let ?d' = "?d\<lparr>stmts := Suc (stmts ?d)\<rparr>"
  have g: "get_fragment pid ?d = (Inr f, ?d')"
    using get_fragment_sound [of ?d pid f] fit_db [OF assms(1)] assms(2) by (simp add: frags_at_def)
  have "on_db i (get_fragment pid) w = (Inr f, set_db i ?d' w)" using g by (simp add: on_db_def set_db_def Let_def)
  moreover have "fit i (set_db i ?d' w)"
    using get_fragment_keeps [OF g] same_tables_wf fit_db [OF assms(1)]
    by (intro fit_set_db [OF assms(1)]) (auto simp: same_tables_def)
  moreover have "frags_at j (set_db i ?d' w) = frags_at j w" for j by (simp add: frags_at_def frags_of_def fun_eq_iff)
  ultimately show ?thesis by (simp add: onward_def)
qed

lemma holding_step:
  assumes "fit i w" "decrypt (f_key f) (f_ciphertext f) (share_aad (f_group f) pid) = Inr share"
    "f_key f \<noteq> []" "seed \<noteq> []" "hkdf_law X"
  shows "\<exists>key ct w'. phase_step X i (Holding pid seed reason f) w = (Sealed pid seed reason f key ct, w') \<and>
    decrypt key ct (share_aad (f_group f) (next_pseudo_id pid seed)) = Inr share \<and> fit i w' \<and>
    (\<forall>j. frags_at j w' = frags_at j w)"
proof -
  let ?e = "n_entropy (w_nodes w i)" let ?e1 = "?e\<lparr>draws := Suc (draws ?e)\<rparr>" and ?aad = "share_aad (f_group f) (next_pseudo_id pid seed)"
  have b: "\<not> broken ?e k" for k using assms(1) by (simp add: fit_def sound_node_def)
  let ?le = "map (tape ?e (draws ?e)) [0..<32]" and ?w1 = "set_entropy i ?e1 w"
  have s1: "on_rand i (rand_read 32) w = (Inr ?le, ?w1)"
    using b by (simp add: on_rand_def rand_read_def set_entropy_def Let_def)
  obtain key where key: "advance X (f_key f) seed ?le = Inr key" "key_ok key"
    by (rule advance_ok [OF assms(5), of "f_key f" seed ?le]) (use assms(3,4) in auto)
  obtain ct e2 where ct: "encrypt key share ?aad ?e1 = (Inr ct, e2)"
    using encrypt_unbroken [OF key(2), of ?e1 share ?aad] b by auto
  have s2: "on_rand i (encrypt key share ?aad) ?w1 = (Inr ct, set_entropy i e2 ?w1)"
    using ct by (simp add: on_rand_def set_entropy_def [of i e2] Let_def)
  have "\<not> broken e2 k" for k using ct b by (auto simp: encrypt_ok split: if_splits)
  then have "fit i (set_entropy i e2 ?w1)" using assms(1) by (simp add: fit_def nodes_wf_def sound_node_def)
  moreover have "frags_at j (set_entropy i e2 ?w1) = frags_at j w" for j by (simp add: frags_at_def)
  moreover have "phase_step X i (Holding pid seed reason f) w = (Sealed pid seed reason f key ct, set_entropy i e2 ?w1)"
    by (simp only: phase_step.simps onward_def reseal_def bindr_def s1 s2 key(1) assms(2) ret_def prod.case sum.case)
  ultimately show ?thesis using aead.open_seal [OF ct] by blast
qed

lemma sealed_step:
  assumes "fit i w" "\<not> bit (f_epoch f + 1) 63"
  shows "\<exists>w' c. phase_step X i (Sealed pid seed reason f key ct) w = (Placed pid seed reason f ct, w') \<and> fit i w' \<and>
    frags_at i w' = (frags_at i w)(next_pseudo_id pid seed \<mapsto> mutated f (next_pseudo_id pid seed) key ct\<lparr>f_updated := c\<rparr>)"
proof -
  let ?d = "n_db (w_nodes w i)" let ?e = "n_entropy (w_nodes w i)" let ?new = "next_pseudo_id pid seed"
  have b: "\<not> broken ?e k" "key_ok (storage_key ?d)" "\<not> sql_broken ?d k" for k
    using assms(1) by (simp_all add: fit_def sound_node_def)
  obtain wr e' where wr: "encrypt (storage_key ?d) key (frag_aad ?new) ?e = (Inr wr, e')"
    using encrypt_unbroken [OF b(2), of ?e key "frag_aad ?new"] b(1) by auto
  obtain d where d: "put_fragment (mutated f ?new key ct) ?d ?e = (Inr (), d, e')"
    using wr b(3) assms(2) by (simp add: put_fragment_def mutated_def exec_def Let_def)
  let ?w = "set_node i ((w_nodes w i)\<lparr>n_db := d, n_entropy := e'\<rparr>) w"
  have "on_db_rand i (put_fragment (mutated f ?new key ct)) w = (Inr (), ?w)" using d by (simp add: on_db_rand_def Let_def)
  moreover have "fit i ?w"
  proof -
    have "db_wf d" using put_fragment_wf [OF _ d] fit_db [OF assms(1)] by blast
    moreover have "same_engine ?d d" using d by (rule put_fragment_cases) (auto simp: same_engine_def same_tables_def)
    moreover have "\<not> broken e' k" for k using wr b(1) by (auto simp: encrypt_ok split: if_splits)
    ultimately show ?thesis using assms(1) by (simp add: fit_def nodes_wf_def sound_node_def same_engine_def)
  qed
  moreover have "frags_at i ?w = (frags_at i w)(?new \<mapsto> mutated f ?new key ct\<lparr>f_updated := wall ?d (stmts ?d)\<rparr>)"
    using put_fragment_map [OF d] by (simp add: frags_at_def mutated_def)
  ultimately show ?thesis by (auto simp: onward_def)
qed

lemma stored_step:
  assumes "fit i w"
  shows "\<exists>w'. phase_step X i (Placed pid seed reason f ct) w = (Moved pid seed reason f ct, w') \<and> fit i w' \<and>
    frags_at i w' = (frags_at i w)(pid := None)"
proof -
  let ?d = "n_db (w_nodes w i)"
  obtain d where d: "delete_fragment pid ?d = (Inr (), d)"
    using fit_db [OF assms] by (simp add: delete_fragment_def exec_def Let_def)
  then have "on_db i (delete_fragment pid) w = (Inr (), set_db i d w)" by (simp add: on_db_def set_db_def Let_def)
  moreover have "fit i (set_db i d w)"
    using delete_fragment_wf [OF _ d] fit_db [OF assms] d
    by (intro fit_set_db [OF assms]) (auto simp: delete_fragment_def same_engine_def elim: exec_cases)
  moreover have "frags_at i (set_db i d w) = (frags_at i w)(pid := None)"
    using delete_fragment_map [OF d] by (simp add: frags_at_def)
  ultimately show ?thesis by (auto simp: onward_def)
qed

text \<open>From the fragment in hand to the old row deleted.\<close>

lemma holding_moves:
  assumes "fit i w" "decrypt (f_key f) (f_ciphertext f) (share_aad (f_group f) pid) = Inr share"
    "f_key f \<noteq> []" "seed \<noteq> []" "hkdf_law X" "\<not> bit (f_epoch f + 1) 63"
    and k: "k < length ts" "ts ! k = (i, Holding pid seed reason f)"
  shows "\<exists>key ct c w'. overlap_run X allowed (ts, w) (ts[k := (i, Moved pid seed reason f ct)], w') \<and> fit i w' \<and>
    decrypt key ct (share_aad (f_group f) (next_pseudo_id pid seed)) = Inr share \<and>
    frags_at i w' = (frags_at i w)(next_pseudo_id pid seed \<mapsto> mutated f (next_pseudo_id pid seed) key ct\<lparr>f_updated := c\<rparr>,
      pid := None)"
proof -
  from holding_step [OF assms(1-5)] obtain key ct w1 where
    w1: "phase_step X i (Holding pid seed reason f) w = (Sealed pid seed reason f key ct, w1)"
    "decrypt key ct (share_aad (f_group f) (next_pseudo_id pid seed)) = Inr share" "fit i w1" "\<And>j. frags_at j w1 = frags_at j w"
    by blast
  from sealed_step [OF w1(3) assms(6)] obtain c w2 where
    w2: "phase_step X i (Sealed pid seed reason f key ct) w1 = (Placed pid seed reason f ct, w2)" "fit i w2"
    "frags_at i w2 = (frags_at i w1)(next_pseudo_id pid seed \<mapsto> mutated f (next_pseudo_id pid seed) key ct\<lparr>f_updated := c\<rparr>)"
    by blast
  from stored_step [OF w2(2)] obtain w3 where
    w3: "phase_step X i (Placed pid seed reason f ct) w2 = (Moved pid seed reason f ct, w3)" "fit i w3"
    "frags_at i w3 = (frags_at i w2)(pid := None)" by blast
  have "overlap_run X allowed (ts, w) (ts[k := (i, Sealed pid seed reason f key ct)], w1)"
    by (rule steps_overlap [OF w1(1) k overlap_run.still])
  from steps_overlap [OF w2(1) _ _ this, of k] k have
    "overlap_run X allowed (ts, w) (ts[k := (i, Placed pid seed reason f ct)], w2)" by simp
  from steps_overlap [OF w3(1) _ _ this, of k] k have
    "overlap_run X allowed (ts, w) (ts[k := (i, Moved pid seed reason f ct)], w3)" by simp
  with w1(2,4) w2(3) w3(2,3) show ?thesis by metis
qed

text \<open>The acknowledgement and the gossip end, whatever the network does, and touch no fragment but for members.\<close>

lemma moved_finishes:
  assumes "nodes_wf w" and k: "k < length ts" "ts ! k = (i, Moved pid seed reason f ct)"
  shows "\<exists>w'. overlap_run X allowed (ts, w) (ts[k := (i, Finished (Inr ()))], w') \<and> nodes_wf w' \<and>
    (\<forall>j. cores (n_db (w_nodes w' j)) = cores (n_db (w_nodes w j)))"
proof -
  let ?m = "with_node i (\<lambda>n. attempt (client_ack (mutation_ack_of n f pid (next_pseudo_id pid seed) ct seed reason))
      (\<lambda>_. notify_siblings i f pid (next_pseudo_id pid seed)))"
  obtain w' where w': "?m w = (Inr (), w')" by (rule exE [OF gossip_succeeds])
  have "yields (cored C) ?m any" for C by (intro yields_with_node ack_cored)
  from yieldsD(1) [OF this _ w', of "\<lambda>j. cores (n_db (w_nodes w j))"] assms(1)
  have "cored (\<lambda>j. cores (n_db (w_nodes w j))) w'" by (simp add: cored_def)
  moreover have "phase_end X i (Moved pid seed reason f ct) w = (Finished (Inr ()), w')" by (simp add: end_moved ending_def w')
  from run_overlaps [OF this k] have "overlap_run X allowed (ts, w) (ts[k := (i, Finished (Inr ()))], w')" .
  ultimately show ?thesis by (auto simp: cored_def)
qed

text \<open>Two mutations at the same stage.\<close>

lemma both_begin:
  assumes "fit i w" "frags_at i w pid = Some f"
  shows "\<exists>w'. overlap_run X allowed ([(i, Begin pid seed1 reason1), (i, Begin pid seed2 reason2)], w)
      ([(i, Holding pid seed1 reason1 f), (i, Holding pid seed2 reason2 f)], w') \<and> fit i w'"
proof -
  from begin_step [OF assms] obtain w1 where
    w1: "phase_step X i (Begin pid seed1 reason1) w = (Holding pid seed1 reason1 f, w1)" "fit i w1"
    "\<And>j. frags_at j w1 = frags_at j w" by blast
  with assms(2) have "frags_at i w1 pid = Some f" by simp
  from begin_step [OF w1(2) this] obtain w2 where
    w2: "phase_step X i (Begin pid seed2 reason2) w1 = (Holding pid seed2 reason2 f, w2)" "fit i w2" by blast
  have "overlap_run X allowed ([(i, Begin pid seed1 reason1), (i, Begin pid seed2 reason2)], w)
      ([(i, Holding pid seed1 reason1 f), (i, Begin pid seed2 reason2)], w1)"
    using steps_overlap [OF w1(1) _ _ overlap_run.still, where k = 0 and ts = "[(i, Begin pid seed1 reason1), (i, Begin pid seed2 reason2)]"]
    by simp
  from steps_overlap [OF w2(1) _ _ this, of 1] w2(2) show ?thesis by auto
qed

lemma both_finish:
  assumes "nodes_wf w" "ts = [(i, Moved pid seed1 reason1 f ct1), (i, Moved pid seed2 reason2 f ct2)]"
  shows "\<exists>w'. overlap_run X allowed (ts, w) ([(i, Finished (Inr ())), (i, Finished (Inr ()))], w') \<and>
    (\<forall>j. cores (n_db (w_nodes w' j)) = cores (n_db (w_nodes w j)))"
proof -
  from moved_finishes [OF assms(1), where k = 0 and X = X and allowed = allowed and ts = ts] assms(2) obtain w1 where
    w1: "overlap_run X allowed (ts, w) ([(i, Finished (Inr ())), (i, Moved pid seed2 reason2 f ct2)], w1)" "nodes_wf w1"
    "\<forall>j. cores (n_db (w_nodes w1 j)) = cores (n_db (w_nodes w j))" by auto
  from moved_finishes [OF w1(2), where k = 1 and X = X and allowed = allowed and
      ts = "[(i, Finished (Inr ())), (i, Moved pid seed2 reason2 f ct2)]"]
  obtain w2 where w2: "overlap_run X allowed ([(i, Finished (Inr ())), (i, Moved pid seed2 reason2 f ct2)], w1)
      ([(i, Finished (Inr ())), (i, Finished (Inr ()))], w2)"
    "\<forall>j. cores (n_db (w_nodes w2 j)) = cores (n_db (w_nodes w1 j))" by auto
  from overlap_trans [OF w2(1) w1(1)] w1(3) w2(2) show ?thesis by auto
qed

lemma mutated_core:
  assumes "core g = core (mutated f q k ct)" "decrypt k ct (share_aad (f_group f) q) = Inr share"
  shows "f_group g = f_group f \<and> decrypt (f_key g) (f_ciphertext g) (share_aad (f_group f) q) = Inr share"
  using assms by (cases g) (simp add: core_def mutated_def)

lemma cores_at: "cores (n_db (w_nodes w' i)) = cores (n_db (w_nodes w i)) \<Longrightarrow>
    map_option core (frags_at i w' q) = map_option core (frags_at i w q)"
  by (drule fun_cong [where x = q]) (simp add: cores_def frags_at_def)

section \<open>A notice may be lost\<close>

lemma scan_renamed:
  assumes "scan_fragment k r = Inr f"
  shows "scan_fragment k (r\<lparr>r_members := rename_column oldPID newPID ep (r_members r)\<rparr>) =
    Inr (f\<lparr>f_members := map (rename_member oldPID newPID ep) (f_members f)\<rparr>)"
  using assms
  by (auto simp: scan_fragment_def unmarshal_members_def rename_column_def split: sum.splits json_column.splits)

lemma row_at_same_key: "(\<And>r. key (g r) = key r) \<Longrightarrow> row_at key (map g t) k = map_option g (row_at key t k)"
  unfolding row_at_def by (induction t) auto

lemma update_sibling_frags:
  assumes "sound_db d" "update_sibling g oldPID newPID ep d = (Inr (), d')" "frags_of d pid = Some f" "f_group f = g"
  shows "frags_of d' pid = Some (f\<lparr>f_members := map (rename_member oldPID newPID ep) (f_members f)\<rparr>)"
proof -
  let ?up = "\<lambda>r. if r_group r = g then r\<lparr>r_members := rename_column oldPID newPID ep (r_members r)\<rparr> else r"
  have t: "frag_table d' = map ?up (frag_table d)"
    using update_sibling_rows [OF _ assms(2)] assms(1) by (auto simp: sound_db_def)
  have k: "storage_key d' = storage_key d" using assms(2) by (rule update_sibling_shape) simp
  from assms(3) obtain r where r: "row_at r_pid (frag_table d) pid = Some r" "scan_fragment (storage_key d) r = Inr f"
    by (auto simp: frags_of_def readable_def split: Option.bind_splits sum.splits)
  have "r_group r = g" using r(2) assms(4) by (auto simp: scan_fragment_def split: sum.splits)
  moreover have "row_at r_pid (frag_table d') pid = Some (?up r)" unfolding t by (subst row_at_same_key) (simp_all add: r(1))
  ultimately show ?thesis using scan_renamed [OF r(2)] by (simp add: frags_of_def readable_def k)
qed

lemma notice_step:
  assumes "fit i w"
  shows "\<exists>w'. peer_handle i (PeerNotice (Some n)) w = (Inr \<lparr>ps_status = 204, ps_body = PeerNoBody\<rparr>, w') \<and> fit i w' \<and>
    (\<forall>pid f. frags_at i w pid = Some f \<longrightarrow> f_group f = mn_group n \<longrightarrow> frags_at i w' pid =
      Some (f\<lparr>f_members := map (rename_member (mn_old n) (mn_new n) (mn_endpoint n)) (f_members f)\<rparr>))"
proof -
  let ?d = "n_db (w_nodes w i)" let ?sib = "update_sibling (mn_group n) (mn_old n) (mn_new n) (mn_endpoint n)"
    and ?man = "update_manifest_member (mn_group n) (mn_old n) (mn_new n) (mn_endpoint n)"
  have d: "sound_db ?d" using fit_db [OF assms] by (simp add: sound_db_def)
  from update_sibling_sound [OF d] obtain d1 where d1: "?sib ?d = (Inr (), d1)" by blast
  obtain r d2 where d2: "?man d1 = (r, d2)" by force
  obtain q w' where h: "peer_handle i (PeerNotice (Some n)) w = (q, w')" by force
  have "died q = None" using calmD [OF peer_handle_calm h] by (simp add: lives_def)
  then have q: "q = Inr \<lparr>ps_status = 204, ps_body = PeerNoBody\<rparr>" and w': "w' = set_db i d2 (set_db i d1 w)"
    using h d1 d2 by (auto simp: peer_handle_def handle_notice_def attempt_def on_db_def set_db_def reply_def ret_def Let_def
        split: option.splits)
  have "nodes_wf w'"
    using yieldsD(1) [OF wf.peer_handle_yields _ h] assms by (simp add: wf.request_ok_def fit_def)
  moreover have "same_engine ?d d1" using d1 by (rule update_sibling_shape) (simp add: same_engine_def)
  moreover have "same_engine d1 d2" using d2
    by (rule update_manifest_member_cases) (auto simp: same_tables_def same_engine_def elim!: put_manifest_cases)
  ultimately have "fit i w'" using assms by (auto simp: fit_def sound_node_def same_engine_def w')
  moreover have "frags_of d2 = frags_of d1" using update_manifest_rows [OF d2] by (simp add: frags_of_def fun_eq_iff)
  ultimately show ?thesis using h q w' update_sibling_frags [OF d d1] by (auto simp: frags_at_def)
qed

section \<open>A write of a manifest read before\<close>

lemma lookup_step:
  assumes "fit i w" "mf_group m0 = mn_group req" "manifests_of (n_db (w_nodes w i)) name = Some m0"
  shows "\<exists>m. mf_group m = mn_group req \<and>
    phase_step X i (Lookup req) w = (Restoring req m, set_db i ((n_db (w_nodes w i))\<lparr>stmts := Suc (stmts (n_db (w_nodes w i)))\<rparr>) w)"
proof -
  let ?d = "n_db (w_nodes w i)" let ?rows = "filter (\<lambda>r. w_group r = mn_group req) (manifest_table ?d)"
  obtain r where r: "row_at w_name (manifest_table ?d) name = Some r" "scan_manifest r = Inr m0"
    using assms(3) by (auto simp: manifests_of_def split: Option.bind_splits sum.splits)
  then have "r \<in> set ?rows" using assms(2) row_at_Some [of w_name _ name r] by (auto simp: scan_manifest_def split: sum.splits)
  then have "?rows \<noteq> []" by force
  moreover have "\<not> sql_broken ?d (stmts ?d)" "row_stop ?d (stmts ?d) = None" using fit_db [OF assms(1)] by blast+
  ultimately obtain x where x: "x \<in> set ?rows" "query_row ?rows ?d = (Inr x, ?d\<lparr>stmts := Suc (stmts ?d)\<rparr>)"
    using query_row_sound by blast
  obtain m where m: "scan_manifest x = Inr m" using fit_db [OF assms(1)] x(1) by (auto simp: db_wf_def)
  then have "mf_group m = mn_group req" using x(1) by (auto simp: scan_manifest_def split: sum.splits)
  moreover have "get_manifest_by_group (mn_group req) ?d = (Inr m, ?d\<lparr>stmts := Suc (stmts ?d)\<rparr>)"
    using x(2) m by (simp add: get_manifest_by_group_def get_manifest_where_def)
  ultimately show ?thesis by (auto simp: past_def on_db_def set_db_def Let_def)
qed

lemma restoring_step:
  assumes "nodes_wf w" "\<not> sql_broken (n_db (w_nodes w i)) (stmts (n_db (w_nodes w i)))"
  shows "\<exists>w' m'. phase_step X i (Restoring req m) w = (obeyed, w') \<and>
    manifests_of (n_db (w_nodes w' i)) (mf_name m) = Some m' \<and> mf_group m' = mf_group m \<and> mf_token m' = mf_token m \<and>
    mf_members m' = mf_members (rename_members req m)"
proof -
  let ?d = "n_db (w_nodes w i)" let ?m = "rename_members req m"
  obtain d where d: "put_manifest ?m ?d = (Inr (), d)" using assms(2) by (simp add: put_manifest_def exec_def Let_def)
  have "on_db i (put_manifest ?m) w = (Inr (), set_db i d w)" using d by (simp add: on_db_def set_db_def Let_def)
  moreover have "\<exists>m'. manifests_of d (mf_name m) = Some m' \<and> mf_group m' = mf_group m \<and> mf_token m' = mf_token m \<and>
      mf_members m' = mf_members ?m"
    using put_manifest_map [OF nodes_wf_db [OF assms(1)] d] by (simp add: rename_members_def)
  ultimately show ?thesis by (auto simp: past_def)
qed

section \<open>Properties\<close>

text \<open>C15: Two mutations of one fragment that overlap, such as a scheduled one and a cold one of the watchdog,
  may both succeed and leave the node with a fragment of the same share under each of the two next
  pseudonyms: the fragment has forked, unless the two pseudonyms happen to collide.\<close>

theorem mutations_fork:
  assumes "nodes_wf w" "sound_node (w_nodes w i)" "frags_of (n_db (w_nodes w i)) pid = Some f"
    "decrypt (f_key f) (f_ciphertext f) (share_aad (f_group f) pid) = Inr share"
    "f_key f \<noteq> []" "seed1 \<noteq> []" "seed2 \<noteq> []" "hkdf_law X" "\<not> bit (f_epoch f + 1) 63"
    "p1 = next_pseudo_id pid seed1" "p2 = next_pseudo_id pid seed2" "p1 \<noteq> pid" "p2 \<noteq> pid"
  shows "\<exists>w' f1 f2. overlap_run X allowed ([(i, Begin pid seed1 reason1), (i, Begin pid seed2 reason2)], w)
      ([(i, Finished (Inr ())), (i, Finished (Inr ()))], w') \<and>
    frags_of (n_db (w_nodes w' i)) pid = None \<and>
    frags_of (n_db (w_nodes w' i)) p1 = Some f1 \<and> frags_of (n_db (w_nodes w' i)) p2 = Some f2 \<and>
    f_group f1 = f_group f \<and> f_group f2 = f_group f \<and>
    decrypt (f_key f1) (f_ciphertext f1) (share_aad (f_group f) p1) = Inr share \<and>
    decrypt (f_key f2) (f_ciphertext f2) (share_aad (f_group f) p2) = Inr share"
proof -
  let ?s = "([(i, Begin pid seed1 reason1), (i, Begin pid seed2 reason2)], w)"
  have "fit i w" "frags_at i w pid = Some f" using assms(1-3) by (simp_all add: fit_def frags_at_def)
  from both_begin [OF this] obtain w2 where both: "overlap_run X allowed ?s
      ([(i, Holding pid seed1 reason1 f), (i, Holding pid seed2 reason2 f)], w2)" "fit i w2" by blast
  from holding_moves [OF both(2) assms(4,5,6,8,9), where k = 0 and reason = reason1 and allowed = allowed and
      ts = "[(i, Holding pid seed1 reason1 f), (i, Holding pid seed2 reason2 f)]"]
  obtain k1 ct1 c1 w3 where w3: "overlap_run X allowed ([(i, Holding pid seed1 reason1 f), (i, Holding pid seed2 reason2 f)], w2)
      ([(i, Moved pid seed1 reason1 f ct1), (i, Holding pid seed2 reason2 f)], w3)" "fit i w3"
    "decrypt k1 ct1 (share_aad (f_group f) p1) = Inr share"
    "frags_at i w3 = (frags_at i w2)(p1 \<mapsto> mutated f p1 k1 ct1\<lparr>f_updated := c1\<rparr>, pid := None)"
    unfolding assms(10) by auto
  from holding_moves [OF w3(2) assms(4,5,7,8,9), where k = 1 and reason = reason2 and allowed = allowed and
      ts = "[(i, Moved pid seed1 reason1 f ct1), (i, Holding pid seed2 reason2 f)]"]
  obtain k2 ct2 c2 w4 where w4: "overlap_run X allowed ([(i, Moved pid seed1 reason1 f ct1), (i, Holding pid seed2 reason2 f)], w3)
      ([(i, Moved pid seed1 reason1 f ct1), (i, Moved pid seed2 reason2 f ct2)], w4)" "fit i w4"
    "decrypt k2 ct2 (share_aad (f_group f) p2) = Inr share"
    "frags_at i w4 = (frags_at i w3)(p2 \<mapsto> mutated f p2 k2 ct2\<lparr>f_updated := c2\<rparr>, pid := None)"
    unfolding assms(11) by auto
  from both_finish [OF _ refl, of w4] w4(2) obtain w6 where
    w6: "overlap_run X allowed ([(i, Moved pid seed1 reason1 f ct1), (i, Moved pid seed2 reason2 f ct2)], w4)
      ([(i, Finished (Inr ())), (i, Finished (Inr ()))], w6)"
    "cores (n_db (w_nodes w6 i)) = cores (n_db (w_nodes w4 i))" unfolding fit_def by blast
  have run: "overlap_run X allowed ?s ([(i, Finished (Inr ())), (i, Finished (Inr ()))], w6)"
    by (rule overlap_trans [OF w6(1) overlap_trans [OF w4(1) overlap_trans [OF w3(1) both(1)]]])
  from cores_at [OF w6(2), of pid] cores_at [OF w6(2), of p1] cores_at [OF w6(2), of p2] assms(12,13)
  obtain f1 f2 where f: "frags_at i w6 pid = None" "frags_at i w6 p1 = Some f1" "frags_at i w6 p2 = Some f2"
    "core f2 = core (mutated f p2 k2 ct2)"
    "core f1 = core (if p1 = p2 then mutated f p2 k2 ct2 else mutated f p1 k1 ct1)"
    by (auto simp: w4(4) w3(4) split: if_splits)
  have "f_group f1 = f_group f \<and> decrypt (f_key f1) (f_ciphertext f1) (share_aad (f_group f) p1) = Inr share"
    by (cases "p1 = p2") (use f(5) mutated_core [of f1 f p2 k2 ct2] mutated_core [of f1 f p1 k1 ct1] w3(3) w4(3) in simp_all)
  with run f(1-3) mutated_core [OF f(4) w4(3)] show ?thesis unfolding frags_at_def by blast
qed

theorem mutations_fork_witness:
  "\<exists>w' f1 f2. overlap_run sample_packages (\<lambda>_. False) ([(0, Begin ''p'' [1] ''scheduled''), (0, Begin ''p'' [2] ''cold'')], holder_world)
      ([(0, Finished (Inr ())), (0, Finished (Inr ()))], w') \<and>
    frags_of (n_db (w_nodes w' 0)) (next_pseudo_id ''p'' [1]) = Some f1 \<and>
    frags_of (n_db (w_nodes w' 0)) (next_pseudo_id ''p'' [2]) = Some f2 \<and>
    decrypt (f_key f1) (f_ciphertext f1) (share_aad ''g'' (next_pseudo_id ''p'' [1])) = Inr [9] \<and>
    decrypt (f_key f2) (f_ciphertext f2) (share_aad ''g'' (next_pseudo_id ''p'' [2])) = Inr [9]"
proof -
  have "\<exists>w' f1 f2. overlap_run sample_packages (\<lambda>_. False) ([(0, Begin ''p'' [1] ''scheduled''), (0, Begin ''p'' [2] ''cold'')], holder_world)
      ([(0, Finished (Inr ())), (0, Finished (Inr ()))], w') \<and>
    frags_of (n_db (w_nodes w' 0)) ''p'' = None \<and>
    frags_of (n_db (w_nodes w' 0)) (next_pseudo_id ''p'' [1]) = Some f1 \<and> frags_of (n_db (w_nodes w' 0)) (next_pseudo_id ''p'' [2]) = Some f2 \<and>
    f_group f1 = f_group frag_p \<and> f_group f2 = f_group frag_p \<and>
    decrypt (f_key f1) (f_ciphertext f1) (share_aad (f_group frag_p) (next_pseudo_id ''p'' [1])) = Inr [9] \<and>
    decrypt (f_key f2) (f_ciphertext f2) (share_aad (f_group frag_p) (next_pseudo_id ''p'' [2])) = Inr [9]"
    by (rule mutations_fork [OF holder_world_wf holder_world_sound holder_world_frag frag_p_opens _ _ _ sample_packages_laws(1) _ refl refl
      next_pseudo_id_longer next_pseudo_id_longer]) simp_all
  then show ?thesis unfolding fragment.simps by blast
qed

text \<open>C16: A notice handled between the phases of a mutation is lost: it is answered as done and the members
  of the stored fragment are renamed, but the mutation then stores the members it had read before and
  deletes the renamed row, so the fragment goes on naming a pseudonym that its sibling has given up.\<close>

theorem notice_lost_in_mutation:
  assumes "nodes_wf w" "sound_node (w_nodes w i)" "frags_of (n_db (w_nodes w i)) pid = Some f"
    "decrypt (f_key f) (f_ciphertext f) (share_aad (f_group f) pid) = Inr share"
    "f_key f \<noteq> []" "seed \<noteq> []" "hkdf_law X" "\<not> bit (f_epoch f + 1) 63"
    "p = next_pseudo_id pid seed" "p \<noteq> pid" "mn_group n = f_group f"
  shows "\<exists>w1 w2 w3 ct f3. overlap_run X allowed ([(i, Begin pid seed reason)], w) ([(i, Holding pid seed reason f)], w1) \<and>
    peer_handle i (PeerNotice (Some n)) w1 = (Inr \<lparr>ps_status = 204, ps_body = PeerNoBody\<rparr>, w2) \<and>
    frags_of (n_db (w_nodes w2 i)) pid =
      Some (f\<lparr>f_members := map (rename_member (mn_old n) (mn_new n) (mn_endpoint n)) (f_members f)\<rparr>) \<and>
    overlap_run X allowed ([(i, Holding pid seed reason f)], w2) ([(i, Moved pid seed reason f ct)], w3) \<and>
    frags_of (n_db (w_nodes w3 i)) pid = None \<and> frags_of (n_db (w_nodes w3 i)) p = Some f3 \<and> f_members f3 = f_members f"
proof -
  have "fit i w" "frags_at i w pid = Some f" using assms(1-3) by (simp_all add: fit_def frags_at_def)
  from begin_step [OF this] obtain w1 where
    w1: "phase_step X i (Begin pid seed reason) w = (Holding pid seed reason f, w1)" "fit i w1"
    "\<And>j. frags_at j w1 = frags_at j w" by blast
  have run: "overlap_run X allowed ([(i, Begin pid seed reason)], w) ([(i, Holding pid seed reason f)], w1)"
    using steps_overlap [OF w1(1) _ _ overlap_run.still, where k = 0 and ts = "[(i, Begin pid seed reason)]"] by simp
  have "frags_at i w1 pid = Some f" using w1(3) \<open>frags_at i w pid = Some f\<close> by simp
  with notice_step [OF w1(2), of n] assms(11) obtain w2 where
    w2: "peer_handle i (PeerNotice (Some n)) w1 = (Inr \<lparr>ps_status = 204, ps_body = PeerNoBody\<rparr>, w2)" "fit i w2"
    "frags_at i w2 pid = Some (f\<lparr>f_members := map (rename_member (mn_old n) (mn_new n) (mn_endpoint n)) (f_members f)\<rparr>)"
    by metis
  from holding_moves [OF w2(2) assms(4-8), where k = 0 and reason = reason and allowed = allowed and ts = "[(i, Holding pid seed reason f)]"]
  obtain key ct c w3 where w3: "overlap_run X allowed ([(i, Holding pid seed reason f)], w2) ([(i, Moved pid seed reason f ct)], w3)"
    "frags_at i w3 = (frags_at i w2)(p \<mapsto> mutated f p key ct\<lparr>f_updated := c\<rparr>, pid := None)" unfolding assms(9) by auto
  have "f_members (mutated f p key ct\<lparr>f_updated := c\<rparr>) = f_members f" by (simp add: mutated_def)
  moreover have "frags_at i w3 pid = None" "frags_at i w3 p = Some (mutated f p key ct\<lparr>f_updated := c\<rparr>)"
    using w3(2) assms(10) by simp_all
  ultimately show ?thesis using run w2(1,3) w3(1) unfolding frags_at_def by blast
qed

text \<open>The holder with a sibling \<open>q\<close> at node \<open>b\<close>.\<close>

definition sibling_q :: member where
  "sibling_q = \<lparr>m_pid = ''q'', m_node = ''b'', m_endpoint = ''http://b''\<rparr>"

definition sibling_world :: world where
  "sibling_world = holder_world\<lparr>w_nodes := \<lambda>_. (w_nodes holder_world 0)
     \<lparr>n_db := empty_db\<lparr>frag_table := [row_p\<lparr>r_members := MembersJson [sibling_q]\<rparr>]\<rparr>\<rparr>\<rparr>"

lemma sibling_world_start:
  "nodes_wf sibling_world" "sound_node (w_nodes sibling_world i)"
  "frags_of (n_db (w_nodes sibling_world i)) ''p'' = Some (frag_p\<lparr>f_members := [sibling_q]\<rparr>)"
proof -
  have scan: "scan_fragment (replicate 32 1) (row_p\<lparr>r_members := MembersJson [sibling_q]\<rparr>) = Inr (frag_p\<lparr>f_members := [sibling_q]\<rparr>)"
    using scan_row_p by (auto simp: scan_fragment_def unmarshal_members_def split: sum.splits)
  then show "nodes_wf sibling_world" by (simp add: nodes_wf_def sibling_world_def db_wf_def empty_db_def)
  show "sound_node (w_nodes sibling_world i)"
    using holder_world_sound [of 0] by (simp add: sibling_world_def sound_node_def) (simp add: empty_db_def key_ok_def)
  show "frags_of (n_db (w_nodes sibling_world i)) ''p'' = Some (frag_p\<lparr>f_members := [sibling_q]\<rparr>)"
    using scan by (simp add: sibling_world_def frags_of_def row_at_def empty_db_def readable_def) (simp add: row_p_def)
qed

theorem notice_lost_in_mutation_witness:
  "\<exists>w1 w2 w3 ct f3. overlap_run sample_packages (\<lambda>_. False) ([(0, Begin ''p'' [1] ''scheduled'')], sibling_world)
      ([(0, Holding ''p'' [1] ''scheduled'' (frag_p\<lparr>f_members := [sibling_q]\<rparr>))], w1) \<and>
    peer_handle 0 (PeerNotice (Some \<lparr>mn_group = ''g'', mn_token = ''t'', mn_old = ''q'', mn_new = ''r'', mn_endpoint = ''http://b'',
      mn_epoch = 1\<rparr>)) w1 = (Inr \<lparr>ps_status = 204, ps_body = PeerNoBody\<rparr>, w2) \<and>
    map_option f_members (frags_of (n_db (w_nodes w2 0)) ''p'') = Some [sibling_q\<lparr>m_pid := ''r''\<rparr>] \<and>
    overlap_run sample_packages (\<lambda>_. False) ([(0, Holding ''p'' [1] ''scheduled'' (frag_p\<lparr>f_members := [sibling_q]\<rparr>))], w2)
      ([(0, Moved ''p'' [1] ''scheduled'' (frag_p\<lparr>f_members := [sibling_q]\<rparr>) ct)], w3) \<and>
    frags_of (n_db (w_nodes w3 0)) (next_pseudo_id ''p'' [1]) = Some f3 \<and> f_members f3 = [sibling_q]"
proof -
  let ?f = "frag_p\<lparr>f_members := [sibling_q]\<rparr>" and ?n = "\<lparr>mn_group = ''g'', mn_token = ''t'', mn_old = ''q'', mn_new = ''r'',
      mn_endpoint = ''http://b'', mn_epoch = 1\<rparr>"
  have "decrypt (f_key ?f) (f_ciphertext ?f) (share_aad (f_group ?f) ''p'') = Inr [9]" using frag_p_opens by simp
  then have "\<exists>w1 w2 w3 ct f3. overlap_run sample_packages (\<lambda>_. False) ([(0, Begin ''p'' [1] ''scheduled'')], sibling_world)
      ([(0, Holding ''p'' [1] ''scheduled'' ?f)], w1) \<and>
    peer_handle 0 (PeerNotice (Some ?n)) w1 = (Inr \<lparr>ps_status = 204, ps_body = PeerNoBody\<rparr>, w2) \<and>
    frags_of (n_db (w_nodes w2 0)) ''p'' =
      Some (?f\<lparr>f_members := map (rename_member (mn_old ?n) (mn_new ?n) (mn_endpoint ?n)) (f_members ?f)\<rparr>) \<and>
    overlap_run sample_packages (\<lambda>_. False) ([(0, Holding ''p'' [1] ''scheduled'' ?f)], w2) ([(0, Moved ''p'' [1] ''scheduled'' ?f ct)], w3) \<and>
    frags_of (n_db (w_nodes w3 0)) ''p'' = None \<and> frags_of (n_db (w_nodes w3 0)) (next_pseudo_id ''p'' [1]) = Some f3 \<and>
    f_members f3 = f_members ?f"
    by (rule notice_lost_in_mutation [OF sibling_world_start _ _ _ sample_packages_laws(1) _ refl next_pseudo_id_longer]) simp_all
  then obtain w1 w2 w3 ct f3 where w: "overlap_run sample_packages (\<lambda>_. False) ([(0, Begin ''p'' [1] ''scheduled'')], sibling_world)
      ([(0, Holding ''p'' [1] ''scheduled'' ?f)], w1)"
    "peer_handle 0 (PeerNotice (Some ?n)) w1 = (Inr \<lparr>ps_status = 204, ps_body = PeerNoBody\<rparr>, w2)"
    "frags_of (n_db (w_nodes w2 0)) ''p'' =
      Some (?f\<lparr>f_members := map (rename_member (mn_old ?n) (mn_new ?n) (mn_endpoint ?n)) (f_members ?f)\<rparr>)"
    "overlap_run sample_packages (\<lambda>_. False) ([(0, Holding ''p'' [1] ''scheduled'' ?f)], w2) ([(0, Moved ''p'' [1] ''scheduled'' ?f ct)], w3)"
    "frags_of (n_db (w_nodes w3 0)) (next_pseudo_id ''p'' [1]) = Some f3" "f_members f3 = f_members ?f" by blast
  have "map_option f_members (frags_of (n_db (w_nodes w2 0)) ''p'') = Some [sibling_q\<lparr>m_pid := ''r''\<rparr>]"
    unfolding w(3) by (simp add: rename_member_def sibling_q_def)
  moreover have "f_members f3 = [sibling_q]" using w(6) by simp
  ultimately show ?thesis using w(1,2,4,5) by blast
qed






end
