(* ===== verification/Offsite.thy ===== *)
theory Offsite
  imports Samples
begin

text \<open>
  Backups to the trusted mesh, \<open>client/backup.go\<close>, and their healing: without faults a backup
  succeeds whatever the orchestrator lists, its members are the peers of the mesh, and the owner
  restores the data while a threshold of them answers.
\<close>

section \<open>The peers of a backup\<close>

text \<open>Peers with names of their own that answer at different places.\<close>

definition trusted :: "(string \<rightharpoonup> nat) \<Rightarrow> string \<Rightarrow> mesh_peer list \<Rightarrow> bool" where
  "trusted A self ps \<longleftrightarrow> (\<forall>p \<in> set ps. p_name p \<noteq> self \<and> A (p_endpoint p) \<noteq> None) \<and>
     distinct (map (\<lambda>p. A (p_endpoint p)) ps)"

text \<open>The members of a manifest are the peers.\<close>

definition held_by :: "mesh_peer list \<Rightarrow> manifest \<Rightarrow> bool" where
  "held_by ps m \<longleftrightarrow> map (\<lambda>mb. (m_node mb, m_endpoint mb)) (mf_members m) = map (\<lambda>p. (p_name p, p_endpoint p)) ps"

lemma held_away:
  assumes "held_by ps m" "trusted A self ps" "mb \<in> set (mf_members m)" shows "m_node mb \<noteq> self"
proof -
  have "(m_node mb, m_endpoint mb) \<in> set (map (\<lambda>mb. (m_node mb, m_endpoint mb)) (mf_members m))" using assms(3) by force
  also have "\<dots> = set (map (\<lambda>p. (p_name p, p_endpoint p)) ps)" using assms(1) by (simp only: held_by_def)
  finally show ?thesis using assms(2) by (auto simp: trusted_def)
qed

lemma held_answering:
  assumes "held_by ps m"
  shows "length (filter (\<lambda>mb. A (m_endpoint mb) \<noteq> None) (mf_members m)) = length (filter (\<lambda>p. A (p_endpoint p) \<noteq> None) ps)"
proof -
  have "length (filter (\<lambda>(a, e). A e \<noteq> None) (map (\<lambda>mb. (m_node mb, m_endpoint mb)) (mf_members m))) =
      length (filter (\<lambda>(a, e). A e \<noteq> None) (map (\<lambda>p. (p_name p, p_endpoint p)) ps))"
    using assms by (simp only: held_by_def)
  then show ?thesis by (simp add: filter_map comp_def)
qed

lemma holders_nth:
  assumes "map (\<lambda>h. (h_node h, h_endpoint h)) hs = map (\<lambda>p. (p_name p, p_endpoint p)) ps" "k < length ps"
  shows "h_node (hs ! k) = p_name (ps ! k)" "h_endpoint (hs ! k) = p_endpoint (ps ! k)"
  using arg_cong [OF assms(1), of "\<lambda>l. l ! k"] assms(2) map_eq_imp_length_eq [OF assms(1)] by auto

lemma holders_places:
  assumes "map (\<lambda>h. (h_node h, h_endpoint h)) hs = map (\<lambda>p. (p_name p, p_endpoint p)) ps" "trusted A self ps"
  shows "\<And>h. h \<in> set hs \<Longrightarrow> h_node h \<noteq> self \<and> A (h_endpoint h) \<noteq> None"
    "distinct (map (\<lambda>h. the (A (h_endpoint h))) hs)"
proof -
  have len: "length hs = length ps" by (rule map_eq_imp_length_eq [OF assms(1)])
  show "h_node h \<noteq> self \<and> A (h_endpoint h) \<noteq> None" if "h \<in> set hs" for h
    using that holders_nth [OF assms(1)] assms(2) len unfolding trusted_def by (metis in_set_conv_nth)
  have eq: "map (\<lambda>h. A (h_endpoint h)) hs = map (\<lambda>p. A (p_endpoint p)) ps"
    using holders_nth(2) [OF assms(1)] len by (auto intro!: nth_equalityI)
  have d: "distinct (map (\<lambda>h. A (h_endpoint h)) hs)" using assms(2) unfolding eq trusted_def by blast
  have "None \<notin> set (map (\<lambda>h. A (h_endpoint h)) hs)" using assms(2) unfolding eq trusted_def by auto
  then have "inj_on the (set (map (\<lambda>h. A (h_endpoint h)) hs))"
    by (intro inj_onI) (metis option.expand)
  with d have "distinct (map the (map (\<lambda>h. A (h_endpoint h)) hs))" by (simp only: distinct_map)
  then show "distinct (map (\<lambda>h. the (A (h_endpoint h))) hs)" by (simp add: comp_def)
qed

lemma holders_hold:
  assumes "map (\<lambda>h. (h_node h, h_endpoint h)) hs = map (\<lambda>p. (p_name p, p_endpoint p)) ps" "trusted A self ps"
    "length shares = length ps"
  shows "members_hold A i self (addressed A (zip hs shares)) (map member_of_holder hs) shares"
proof -
  let ?js = "map (\<lambda>h. the (A (h_endpoint h))) hs"
  note pl = holders_places [OF assms(1,2)]
  have len: "length hs = length shares" using map_eq_imp_length_eq [OF assms(1)] assms(3) by simp
  have "addressed A (zip hs shares) = map_of (zip ?js shares)"
    by (simp add: addressed_def zip_map1 case_prod_beta)
  then have "addressed A (zip hs shares) (the (A (h_endpoint (hs ! k)))) = Some (shares ! k)" if "k < length hs" for k
    using map_of_zip_nth [of ?js shares k] pl(2) that len by simp
  then have "map (\<lambda>mb. addressed A (zip hs shares) (member_place A i self mb)) (map member_of_holder hs) = map Some shares"
    using pl(1) len by (auto intro!: nth_equalityI simp: member_place_def member_of_holder_def)
  then show ?thesis using pl(1) by (auto simp: members_hold_def member_of_holder_def)
qed

section \<open>A backup returns\<close>

text \<open>From the holders drawn to the manifest stored.\<close>

lemma backup_tail_returns:
  assumes tr: "trusted A self ps" and len: "length shares = length ps"
    and h: "map (\<lambda>h. (h_node h, h_endpoint h)) hs = map (\<lambda>p. (p_name p, p_endpoint p)) ps"
    and g: "g = \<lparr>g_id = gid, g_token = tok, g_threshold = t, g_total = n, g_members = map member_of_holder hs\<rparr>"
  shows "returns (\<lambda>w. ready A N i self gid tok (\<lambda>_. None) w \<and> nodes_wf w)
    (bindr (send_shares i g (zip hs shares)) (\<lambda>_. on_db i (put_manifest (manifest_of_group label ''backup'' g))))
    (\<lambda>_ w. nodes_wf w \<and> (\<exists>P m. ready A N i self gid tok P w \<and> manifests_of (n_db (w_nodes w i)) label = Some m \<and>
      dealt ''backup'' A i self ep gid tok t n label P shares m \<and> held_by ps m))"
  (is "returns _ _ ?post")
proof -
  let ?R = "ready A N i self gid tok" and ?P = "addressed A (zip hs shares)"
  note pl = holders_places [OF h tr]
  have hold: "members_hold A i self ?P (map member_of_holder hs) shares" by (rule holders_hold [OF h tr len])
  have dealt: "dealt ''backup'' A i self ep gid tok t n label ?P shares (manifest_of_group label ''backup'' g\<lparr>mf_created := c\<rparr>)" for c
    using hold pl(1) by (auto simp: dealt_def manifest_of_group_def g member_of_holder_def)
  have owners: "held_by ps (manifest_of_group label ''backup'' g\<lparr>mf_created := c\<rparr>)" for c
    using h by (simp add: held_by_def manifest_of_group_def g member_of_holder_def comp_def)
  have hs: "map (\<lambda>(h, s). the (A (h_endpoint h))) (zip hs shares) = map (\<lambda>h. the (A (h_endpoint h))) hs"
  proof -
    have "map (\<lambda>(h, s). the (A (h_endpoint h))) (zip hs shares) = map (\<lambda>h. the (A (h_endpoint h))) (map fst (zip hs shares))"
      by (simp add: case_prod_beta)
    then show ?thesis using map_eq_imp_length_eq [OF h] len by simp
  qed
  have "returns (?R (\<lambda>_. None)) (send_shares i g (zip hs shares)) (\<lambda>_. ?R (Map.empty ++ ?P))"
    by (rule send_shares_returns) (use pl in \<open>auto simp: g hs dest: set_zip_leftD\<close>)
  then have send: "returns (?R (\<lambda>_. None)) (send_shares i g (zip hs shares)) (\<lambda>_. ?R ?P)" by simp
  have fin: "returns (\<lambda>w. ?R ?P w \<and> nodes_wf w) (on_db i (put_manifest (manifest_of_group label ''backup'' g))) ?post"
    using returns_post [OF put_manifest_returns [of "manifest_of_group label ''backup'' g" A N i self gid tok ?P], of ?post] dealt owners
    by (fastforce simp: manifest_of_group_def)
  show ?thesis
    by (rule returns_bindr [OF returns_yields [OF send wf.send_shares_any]]) (simp add: wf.seals_def, rule fin)
qed

lemma distribute_returns:
  assumes tr: "trusted A self ps" and valid: "2 \<le> t" "t \<le> int (length ps)" "length ps \<le> 255" "data \<noteq> []"
    and w: "faultless A N w" "nodes_wf w" "n_id (w_nodes w i) = self"
    and unused: "\<And>j. split_group_id i data w \<notin> r_group ` set (frag_table (n_db (w_nodes w j)))"
  shows "\<exists>w' tok P m shares e e'. distribute_backup i label data t ps w = (Inr (), w') \<and> nodes_wf w' \<and>
    split_secret data (int (length ps)) t e = (Inr shares, e') \<and>
    ready A N i self (split_group_id i data w) tok P w' \<and> manifests_of (n_db (w_nodes w' i)) label = Some m \<and>
    dealt ''backup'' A i self ep (split_group_id i data w) tok t (int (length ps)) label P shares m \<and> held_by ps m"
proof -
  let ?gid = "split_group_id i data w" let ?n = "int (length ps)"
  let ?R = "\<lambda>tok. ready A N i self ?gid tok (\<lambda>_. None)"
  have R: "?R tok w" for tok using w unused by (simp add: ready_def placed_def)
  have split: "\<exists>x e'. split_secret data ?n t e = (Inr x, e') \<and> (\<exists>e e'. split_secret data ?n t e = (Inr x, e'))"
    if "\<And>k. \<not> broken e k" for e
    using split_shares [of data ?n t e] valid that by (auto simp: split_valid_def)
  note sp = rand_returns [OF advances_split split]
  from returnsD [OF sp R] obtain shares w2 e e' where w2: "on_rand i (split_secret data ?n t) w = (Inr shares, w2)"
    "split_secret data ?n t e = (Inr shares, e')" by blast
  have R2: "?R tok w2" for tok using returnsD [OF sp R, of i tok] w2(1) by auto
  have wf2: "nodes_wf w2" by (rule yieldsD(1) [OF wf.on_rand_any [OF advances_split] w(2) w2(1)])
  from returnsD [OF id_returns R2] obtain gid w3 where w3: "on_rand i (random_id 16) w2 = (Inr gid, w3)" by blast
  have R3: "?R tok w3" for tok using returnsD [OF id_returns R2, of i 16] w3 by auto
  have wf3: "nodes_wf w3" by (rule yieldsD(1) [OF wf.on_rand_any [OF advances_random_id] wf2 w3])
  have gid: "gid = ?gid" by (rule group_drawn [OF w2(1) w3])
  from returnsD [OF id_returns R3] obtain tok w4 where w4: "on_rand i (random_id 32) w3 = (Inr tok, w4)" by blast
  have R4: "?R tok w4" using returnsD [OF id_returns R3, of i 32] w4 by auto
  have wf4: "nodes_wf w4" by (rule yieldsD(1) [OF wf.on_rand_any [OF advances_random_id] wf3 w4])
  have len: "length shares = length ps" using shamir.count [OF w2(2)] by simp
  let ?ps = "map (\<lambda>p. (p_name p, p_endpoint p)) ps"
  let ?g = "\<lambda>hs. \<lparr>g_id = ?gid, g_token = tok, g_threshold = t, g_total = ?n, g_members = map member_of_holder hs\<rparr>"
  let ?tail = "\<lambda>hs. bindr (send_shares i (?g hs) (zip hs shares)) (\<lambda>_. on_db i (put_manifest (manifest_of_group label ''backup'' (?g hs))))"
  let ?post = "\<lambda>w. nodes_wf w \<and> (\<exists>P m. ready A N i self ?gid tok P w \<and> manifests_of (n_db (w_nodes w i)) label = Some m \<and>
      dealt ''backup'' A i self ep ?gid tok t ?n label P shares m \<and> held_by ps m)"
  have "returns (\<lambda>w. ?R tok w \<and> nodes_wf w) (bindr (draw_holders i ?ps) ?tail) (\<lambda>_. ?post)"
  proof (rule returns_bindr [OF returns_yields [OF draw_holders_returns wf.draw_holders_any]])
    fix hs
    have "returns (\<lambda>w. (?R tok w \<and> nodes_wf w) \<and> map (\<lambda>h. (h_node h, h_endpoint h)) hs = ?ps) (?tail hs) (\<lambda>_. ?post)"
      by (rule returns_fact, rule backup_tail_returns [OF tr len _ refl])
    then show "returns (\<lambda>w. (?R tok w \<and> map (\<lambda>h. (h_node h, h_endpoint h)) hs = ?ps) \<and> nodes_wf w) (?tail hs) (\<lambda>_. ?post)"
      by (rule returns_pre) blast
  qed
  from returnsD [OF this, of w4] R4 wf4 obtain w' where w': "bindr (draw_holders i ?ps) ?tail w4 = (Inr (), w')" "?post w'"
    by auto
  have "distribute_backup i label data t ps w = (Inr (), w')"
    using w'(1) valid(2) unfolding distribute_backup_def Let_def
    by (simp add: bindr_def [of "on_rand i x" for x] w2(1) w3 w4 gid del: draw_holders.simps)
  with w'(2) wf2 w2(2) show ?thesis by blast
qed

lemma list_mesh_returns:
  assumes "ready A N i self gid tok P w" "nodes_wf w"
  shows "\<exists>ps w'. on_db i list_mesh_peers w = (Inr ps, w') \<and> mset ps = mset (peer_table (n_db (w_nodes w i))) \<and>
    ready A N i self gid tok P w' \<and> nodes_wf w' \<and> undisturbed w w'"
proof -
  let ?d = "n_db (w_nodes w i)" let ?d' = "?d\<lparr>stmts := Suc (stmts ?d)\<rparr>"
  have l: "list_mesh_peers ?d = (Inr (arrange (row_order ?d (stmts ?d)) (peer_table ?d)), ?d')"
    using assms(1) by (simp add: list_mesh_peers_def query_rows_def Let_def ready_def faultless_def sound_node_def)
  then have "on_db i list_mesh_peers w = (Inr (arrange (row_order ?d (stmts ?d)) (peer_table ?d)), set_db i ?d' w)"
    by (simp add: on_db_def set_db_def Let_def)
  moreover have "ready A N i self gid tok P (set_db i ?d' w)" by (rule db_read_ready [OF assms(1) list_mesh_peers_keeps [OF l]])
  moreover have "nodes_wf (set_db i ?d' w)" by (rule wf.untouched [OF assms(2) list_mesh_peers_keeps [OF l]])
  moreover have "undisturbed w (set_db i ?d' w)" by (simp add: undisturbed_def)
  ultimately show ?thesis by (metis mset_arrange)
qed

lemma trusted_perm: "mset ps = mset qs \<Longrightarrow> trusted A self qs \<Longrightarrow> trusted A self ps"
  unfolding trusted_def by (metis mset_eq_imp_distinct_iff mset_map set_mset_mset)


lemma backup_returns:
  assumes tr: "trusted A self (peer_table (n_db (w_nodes w i)))"
    and valid: "2 \<le> t" "t \<le> n" "n \<le> 255" "n = int (length (peer_table (n_db (w_nodes w i))))" "data \<noteq> []"
    and w: "faultless A N w" "nodes_wf w" "n_id (w_nodes w i) = self"
    and unused: "\<And>j. split_group_id i data w \<notin> r_group ` set (frag_table (n_db (w_nodes w j)))"
  shows "\<exists>w' tok P m ps shares e e'. backup_op i label data t w = (Inr (), w') \<and> nodes_wf w' \<and>
    split_secret data n t e = (Inr shares, e') \<and>
    ready A N i self (split_group_id i data w) tok P w' \<and> manifests_of (n_db (w_nodes w' i)) label = Some m \<and>
    dealt ''backup'' A i self ep (split_group_id i data w) tok t n label P shares m \<and>
    mset ps = mset (peer_table (n_db (w_nodes w i))) \<and> held_by ps m"
proof -
  have "ready A N i self (split_group_id i data w) [] (\<lambda>_. None) w" using w unused by (simp add: ready_def placed_def)
  from list_mesh_returns [OF this w(2)] obtain ps w1 where w1: "on_db i list_mesh_peers w = (Inr ps, w1)"
    "mset ps = mset (peer_table (n_db (w_nodes w i)))" "nodes_wf w1" "undisturbed w w1"
    "ready A N i self (split_group_id i data w) [] (\<lambda>_. None) w1" by blast
  note gid = undisturbed_group_id [OF w1(4), of i data]
  have ok: "faultless A N w1" "n_id (w_nodes w1 i) = self" using w1(5) by (simp_all add: ready_def)
  have unused1: "split_group_id i data w1 \<notin> r_group ` set (frag_table (n_db (w_nodes w1 j)))" for j
    using unused w1(4) unfolding gid by (simp add: undisturbed_def)
  have n: "n = int (length ps)" using w1(2) valid(4) by (metis size_mset)
  then have small: "length ps \<le> 255" using valid(3) by simp
  from distribute_returns [OF trusted_perm [OF w1(2) tr] valid(1) valid(2) [unfolded n] small valid(5) ok(1) w1(3) ok(2) unused1]
  show ?thesis using w1(1,2) unfolding gid n backup_op_def bindr_def by (simp only: prod.case sum.case) metis
qed

section \<open>Healing a backup\<close>

lemma ping_peers_returns:
  "returns (ready A N i self gid tok P) (ping_peers ps)
    (\<lambda>r w. ready A N i self gid tok P w \<and> r = filter (\<lambda>p. A (p_endpoint p) \<noteq> None) ps)"
proof (induction ps)
  case (Cons p ps)
  have step: "attempt (ping (p_endpoint p)) f w =
      f (if A (p_endpoint p) = None then Inl ErrTransport else Inr ()) (w\<lparr>w_calls := Suc (w_calls w)\<rparr>)"
    if "ready A N i self gid tok P w" for w and f :: "unit res \<Rightarrow> mesh_peer list act"
    using ping_result [OF that] by (simp add: attempt_def)
  have "returns (ready A N i self gid tok P) (bindr (ping_peers ps) (\<lambda>r. ret (Inr (g r))))
    (\<lambda>r w. ready A N i self gid tok P w \<and> r = g (filter (\<lambda>p. A (p_endpoint p) \<noteq> None) ps))" for g
    by (rule returns_bindr [OF Cons], rule returns_ret) simp
  from this [of "case if A (p_endpoint p) = None then Inl ErrTransport else Inr () of Inl _ \<Rightarrow> id | Inr _ \<Rightarrow> (#) p"]
  show ?case unfolding returns_def by (auto simp: step)
qed (simp add: returns_ret)

lemma trusted_sub:
  assumes "A' \<subseteq>\<^sub>m A" "trusted A self ps" shows "trusted A' self (filter (\<lambda>p. A' (p_endpoint p) \<noteq> None) ps)"
proof -
  let ?r = "filter (\<lambda>p. A' (p_endpoint p) \<noteq> None) ps"
  have "map (\<lambda>p. A' (p_endpoint p)) ?r = map (\<lambda>p. A (p_endpoint p)) ?r"
    using assms(1) by (auto simp: map_le_def dom_def)
  moreover have "distinct (map (\<lambda>p. A (p_endpoint p)) ?r)" using assms(2) by (simp add: trusted_def distinct_map_filter)
  ultimately show ?thesis using assms(2) by (simp only: trusted_def) auto
qed


lemma undisturbed_trans: "undisturbed u v \<Longrightarrow> undisturbed v w \<Longrightarrow> undisturbed u w"
  by (simp add: undisturbed_def)

text \<open>A cycle over a backup that has lost peers shares it anew among the peers that answer now.\<close>

lemma backup_heal_returns:
  assumes w: "ready A N i self gid tok P w" "nodes_wf w"
    and m: "manifests_of (n_db (w_nodes w i)) (mf_name m) = Some m" "mf_group m = gid" "mf_token m = tok"
      "mf_kind m = ''backup''" "\<And>mb. mb \<in> set (mf_members m) \<Longrightarrow> m_node mb \<noteq> self"
    and deal: "split_secret data n (mf_threshold m) e = (Inr shares, e')" and n: "n \<le> 255"
    and hold: "members_hold A0 i self P (mf_members m) shares" and sub: "A \<subseteq>\<^sub>m A0"
    and live: "live = length (filter (\<lambda>mb. A (m_endpoint mb) \<noteq> None) (mf_members m))"
      "mf_threshold m \<le> int live" "int live \<le> mf_threshold m + margin" "int live < mf_total m"
    and mesh: "trusted A self (filter (\<lambda>p. A (p_endpoint p) \<noteq> None) (peer_table (n_db (w_nodes w i))))"
      "reach = length (filter (\<lambda>p. A (p_endpoint p) \<noteq> None) (peer_table (n_db (w_nodes w i))))"
      "mf_threshold m \<le> int reach" "reach \<le> 255"
    and unused: "\<And>j. split_group_id i data w \<notin> r_group ` set (frag_table (n_db (w_nodes w j)))"
  shows "\<exists>w' tok' P' m' shares' e e'. heal_one X i margin m w = (Inr (), w') \<and> nodes_wf w' \<and>
    split_secret data (int reach) (mf_threshold m) e = (Inr shares', e') \<and>
    ready A N i self (split_group_id i data w) tok' P' w' \<and>
    manifests_of (n_db (w_nodes w' i)) (mf_name m) = Some m' \<and>
    dealt ''backup'' A i self ep (split_group_id i data w) tok' (mf_threshold m) (int reach) (mf_name m) P' shares' m'"
proof -
  have "A (m_endpoint mb) = Some i" if "mb \<in> set (mf_members m)" "m_node mb = self" for mb
    using m(5) that by blast
  from heal_gathers [OF w m(1-3) deal hold sub this live, of X] obtain w1 w2 where
    heal: "heal_one X i margin m w = reshare_manifest X i m w1" and w2: "reconstruct i (mf_name m) w1 = (Inr data, w2)"
    "undisturbed w w2" "nodes_wf w2" "ready A N i self gid tok P w2" by blast
  from list_mesh_returns [OF w2(4,3)] obtain ps w3 where w3: "on_db i list_mesh_peers w2 = (Inr ps, w3)"
    "mset ps = mset (peer_table (n_db (w_nodes w2 i)))" "ready A N i self gid tok P w3" "nodes_wf w3" "undisturbed w2 w3" by blast
  let ?r = "filter (\<lambda>p. A (p_endpoint p) \<noteq> None) ps"
  from returnsD [OF ping_peers_returns w3(3), of ps] obtain w4 where
    w4: "ping_peers ps w3 = (Inr ?r, w4)" "ready A N i self gid tok P w4" by blast
  have wf4: "nodes_wf w4" by (rule yieldsD(1) [OF wf.ping_peers_any w3(4) w4(1)])
  have u: "undisturbed w w4"
    by (rule yieldsD(1) [OF undisturbed.ping_peers_any undisturbed_trans [OF w2(2) w3(5)] w4(1)])
  have table: "mset ps = mset (peer_table (n_db (w_nodes w i)))" using w3(2) w2(2) by (simp add: undisturbed_def)
  then have r: "mset ?r = mset (filter (\<lambda>p. A (p_endpoint p) \<noteq> None) (peer_table (n_db (w_nodes w i))))" by simp
  then have reach: "length ?r = reach" unfolding mesh(2) by (metis size_mset)
  note gid = undisturbed_group_id [OF u, of i data]
  have unused4: "split_group_id i data w4 \<notin> r_group ` set (frag_table (n_db (w_nodes w4 j)))" for j
    using unused u unfolding gid by (simp add: undisturbed_def)
  have valid: "2 \<le> mf_threshold m" "data \<noteq> []" using split_Inr(1) [OF deal] by (simp_all add: split_valid_def)
  have ok: "faultless A N w4" "n_id (w_nodes w4 i) = self" using w4(2) by (simp_all add: ready_def)
  have enough: "mf_threshold m \<le> int (length ?r)" "length ?r \<le> 255" using mesh(3,4) unfolding reach .
  from distribute_returns [OF trusted_perm [OF r mesh(1)] valid(1) enough valid(2) ok(1) wf4 ok(2) unused4, of "mf_name m" ep]
  obtain w' tok' P' m' shares' e3 e4 where w': "distribute_backup i (mf_name m) data (mf_threshold m) ?r w4 = (Inr (), w')"
    "nodes_wf w'" "split_secret data (int reach) (mf_threshold m) e3 = (Inr shares', e4)"
    "ready A N i self (split_group_id i data w) tok' P' w'" "manifests_of (n_db (w_nodes w' i)) (mf_name m) = Some m'"
    "dealt ''backup'' A i self ep (split_group_id i data w) tok' (mf_threshold m) (int reach) (mf_name m) P' shares' m'"
    unfolding gid reach by blast
  have "heal_one X i margin m w = (Inr (), w')"
    using w2(1) w3(1) w4(1) w'(1) m(4) enough(1)
    by (simp add: heal reshare_manifest_def attempt_def bindr_def ret_def)
  with w' show ?thesis by blast
qed

section \<open>What a backup leaves alone\<close>

text \<open>
  No operation of a backup touches the directory of the mesh, and only the manifests of node \<open>i\<close>,
  which makes it, change.
\<close>

definition elsewhere :: "nat \<Rightarrow> db \<Rightarrow> nat \<Rightarrow> mesh_peer list \<times> manifest_row list" where
  "elsewhere i d l = (peer_table d, if l = i then [] else manifest_table d)"

definition same_mesh :: "nat \<Rightarrow> (nat \<Rightarrow> mesh_peer list \<times> manifest_row list) \<Rightarrow> world \<Rightarrow> bool" where
  "same_mesh i T w \<longleftrightarrow> (\<forall>l. elsewhere i (n_db (w_nodes w l)) l = T l)"

interpretation same_mesh: messaging "same_mesh i T" for i T
  by unfold_locales (simp_all add: same_mesh_def)

lemma same_mesh_rand: "yields (same_mesh i T) (on_rand l g) any"
  by (rule yieldsI) (auto simp: same_mesh_def on_rand_def Let_def set_entropy_def set_node_def split: prod.splits)

lemma same_mesh_on_db:
  assumes "\<And>d r d'. g d = (r, d') \<Longrightarrow> elsewhere i d' l = elsewhere i d l" shows "yields (same_mesh i T) (on_db l g) any"
  by (rule yieldsI) (auto simp: same_mesh_def on_db_def Let_def set_node_def dest: assms split: prod.splits)

lemma put_fragment_elsewhere: "put_fragment f d e = (r, d', e') \<Longrightarrow> elsewhere i d' l = elsewhere i d l"
  by (erule put_fragment_cases) (auto simp: same_tables_def elsewhere_def)

lemma same_mesh_store: "yields (same_mesh i T) (on_db_rand l (put_fragment f)) any"
  by (rule yieldsI) (auto simp: same_mesh_def on_db_rand_def Let_def set_node_def put_fragment_elsewhere split: prod.splits)

lemma same_mesh_chains:
  assumes "\<And>n. yields (same_mesh i T) (m n) any"
  shows "yields (same_mesh i T) (with_node l (\<lambda>n w. m n (set_node l (n\<lparr>n_chains := c n\<rparr>) w))) any"
proof (rule yieldsI)
  fix w r w' assume w: "same_mesh i T w" "with_node l (\<lambda>n w. m n (set_node l (n\<lparr>n_chains := c n\<rparr>) w)) w = (r, w')"
  have "same_mesh i T (set_node l ((w_nodes w l)\<lparr>n_chains := c (w_nodes w l)\<rparr>) w)" using w(1) by (simp add: same_mesh_def)
  from yieldsD(1) [OF assms this] w(2) show "same_mesh i T w' \<and> (\<forall>x. r = Inr x \<longrightarrow> True)" by (simp add: with_node_def)
qed

lemma same_mesh_deliver: "yields (same_mesh i T) (deliver_share ep d) any"
proof -
  have reg: "yields (same_mesh i T) (register_new_fragment l p c) any" for l p c
    unfolding register_new_fragment_def Let_def
    by (intro yields_seq same_mesh_rand same_mesh_chains yields_try same_mesh.clients_any yields_ret_any)
  have h: "yields (same_mesh i T) (peer_handle l (PeerDeliver (Some d))) any" for l
    by (auto simp: peer_handle_def handle_deliver_def reply_def split: sum.split
        intro!: yields_try same_mesh_rand reg same_mesh_store yields_ret_any)
  have "yields (same_mesh i T) (peer_call ep (PeerDeliver (Some d))) any" by (rule same_mesh.call_any [OF h])
  then show ?thesis unfolding deliver_share_def ok_status_def by (intro yields_seq yields_ret_any)
qed

lemma same_mesh_backup: "yields (same_mesh i T) (backup_op i label data t) any"
proof -
  have draw: "yields (same_mesh i T) (draw_holders i ps) any" for ps
    by (induction i ps rule: draw_holders.induct) (auto intro!: yields_seq same_mesh_rand yields_ret_any)
  have send: "yields (same_mesh i T) (send_shares i g hss) any" for g hss
    unfolding send_shares_def send_share_def
    by (rule yields_for_each [where V = any]) (auto intro!: yields_seq same_mesh_rand same_mesh_deliver)
  have "yields (same_mesh i T) (on_db i list_mesh_peers) any" "yields (same_mesh i T) (on_db i (put_manifest m)) any" for m
    by (rule same_mesh_on_db, auto simp: same_tables_def elsewhere_def dest: list_mesh_peers_keeps elim: put_manifest_cases)+
  then show ?thesis unfolding backup_op_def distribute_backup_def Let_def
    by (auto intro!: yields_seq yields_ret_any same_mesh_rand draw send)
qed

lemma backup_elsewhere:
  assumes "backup_op i label data t w = (r, w')"
  shows "peer_table (n_db (w_nodes w' l)) = peer_table (n_db (w_nodes w l))"
    "l \<noteq> i \<Longrightarrow> manifest_table (n_db (w_nodes w' l)) = manifest_table (n_db (w_nodes w l))"
proof -
  have "same_mesh i (\<lambda>l. elsewhere i (n_db (w_nodes w l)) l) w'"
    by (rule yieldsD(1) [OF same_mesh_backup _ assms]) (simp add: same_mesh_def)
  then have "elsewhere i (n_db (w_nodes w' l)) l = elsewhere i (n_db (w_nodes w l)) l" by (simp add: same_mesh_def)
  then show "peer_table (n_db (w_nodes w' l)) = peer_table (n_db (w_nodes w l))"
    "l \<noteq> i \<Longrightarrow> manifest_table (n_db (w_nodes w' l)) = manifest_table (n_db (w_nodes w l))"
    by (simp_all add: elsewhere_def)
qed

text \<open>
  The manifest of a backup is written at the owner's node and nowhere else, so no other device can
  reconstruct it.
\<close>

lemma backup_known_to_owner:
  assumes "backup_op i label data t w = (r, w')" "j \<noteq> i" "\<And>x. x \<in> set (manifest_table (n_db (w_nodes w j))) \<Longrightarrow> w_name x \<noteq> label"
  shows "fst (reconstruct j label w') \<noteq> Inr x"
proof
  assume "fst (reconstruct j label w') = Inr x"
  then obtain w2 where "reconstruct j label w' = (Inr x, w2)" by (metis prod.collapse)
  from bindr_Inr [OF this [unfolded reconstruct_def]] obtain w3 and m :: manifest where "on_db j (get_manifest label) w' = (Inr m, w3)" by blast
  from on_db_Inr [OF this] obtain d where "get_manifest label (n_db (w_nodes w' j)) = (Inr m, d)" by blast
  then show False
  proof (rule get_manifest_Inr)
    fix y assume "y \<in> set (manifest_table (n_db (w_nodes w' j)))" "w_name y = label"
    then show False using assms(3) backup_elsewhere(2) [OF assms(1,2)] by simp
  qed
qed

section \<open>A backup guards its group\<close>

text \<open>What a backup does once it has drawn the group identifier.\<close>

definition backup_rest :: "nat \<Rightarrow> string \<Rightarrow> int \<Rightarrow> mesh_peer list \<Rightarrow> share list \<Rightarrow> string \<Rightarrow> unit act" where
  "backup_rest i label t ps shares gid =
     bindr (on_rand i (random_id 32)) (\<lambda>groupToken.
     bindr (draw_holders i (map (\<lambda>p. (p_name p, p_endpoint p)) ps)) (\<lambda>holders.
     let g = \<lparr>g_id = gid, g_token = groupToken, g_threshold = t, g_total = int (length ps),
              g_members = map member_of_holder holders\<rparr> in
     bindr (send_shares i g (zip holders shares)) (\<lambda>_.
     on_db i (put_manifest (manifest_of_group label ''backup'' g)))))"

lemma distribute_phases: "distribute_backup i label data t ps =
    (if int (length ps) < t then ret (Inl ErrMeshPeers)
     else bindr (on_rand i (split_secret data (int (length ps)) t)) (\<lambda>shares.
       bindr (on_rand i (random_id 16)) (backup_rest i label t ps shares)))"
  unfolding distribute_backup_def backup_rest_def [abs_def] Let_def ..

lemma backup_reaches:
  assumes b: "backup_op i label data t w = (Inr (), w')"
  shows "\<exists>ps shares e e' w3. split_secret data (int (length ps)) t e = (Inr shares, e') \<and>
    backup_rest i label t ps shares (split_group_id i data w) w3 = (Inr (), w') \<and>
    (\<forall>j. same_tables (n_db (w_nodes w j)) (n_db (w_nodes w3 j))) \<and> drawn_from w w3 \<and>
    draws (n_entropy (w_nodes w3 i)) = Suc (draws (n_entropy (w_nodes w i)) + length data)"
proof -
  from bindr_Inr [OF b [unfolded backup_op_def]] obtain ps w1 where
    w1: "on_db i list_mesh_peers w = (Inr ps, w1)" and b1: "distribute_backup i label data t ps w1 = (Inr (), w')" by blast
  from on_db_Inr [OF w1] obtain d where d: "list_mesh_peers (n_db (w_nodes w i)) = (Inr ps, d)" "w1 = set_db i d w" by blast
  have ent: "n_entropy (w_nodes w1 j) = n_entropy (w_nodes w j)" for j using d(2) by simp
  from b1 have n: "\<not> int (length ps) < t" by (auto simp: distribute_phases ret_def)
  from bindr_Inr [OF b1 [unfolded distribute_phases if_not_P [OF n]]] obtain shares w2 where
    w2: "on_rand i (split_secret data (int (length ps)) t) w1 = (Inr shares, w2)" and b2:
    "bindr (on_rand i (random_id 16)) (backup_rest i label t ps shares) w2 = (Inr (), w')" by blast
  from bindr_Inr [OF b2] obtain gid w3 where
    w3: "on_rand i (random_id 16) w2 = (Inr gid, w3)" and b3: "backup_rest i label t ps shares gid w3 = (Inr (), w')" by blast
  from on_rand_Inr [OF w2] obtain e where e: "split_secret data (int (length ps)) t (n_entropy (w_nodes w i)) = (Inr shares, e)"
    "w2 = set_entropy i e w1" unfolding ent by blast
  from on_rand_Inr [OF w3] obtain e3 where e3: "random_id 16 (n_entropy (w_nodes w2 i)) = (Inr gid, e3)"
    "w3 = set_entropy i e3 w2" by blast
  have gid: "gid = split_group_id i data w"
    using group_drawn [OF w2 w3] ent by (simp add: split_group_id_def drawn_id_def)
  have dbs: "same_tables (n_db (w_nodes w j)) (n_db (w_nodes w3 j))" for j
    using list_mesh_peers_keeps [OF d(1)] by (simp add: e e3 d(2))
  have "drawn_from w w1" using ent by (simp add: drawn_from_def)
  from yieldsD(1) [OF tapes.on_rand_any [OF advances_random_id] yieldsD(1) [OF tapes.on_rand_any [OF advances_split] this w2] w3]
  have "drawn_from w w3" .
  moreover have "draws (n_entropy (w_nodes w3 i)) = Suc (draws (n_entropy (w_nodes w i)) + length data)"
    using random_id_Inr [OF e3(1)] e3(2) e split_Inr(3) [OF e(1)] by simp
  ultimately show ?thesis using e(1) b3 dbs unfolding gid by blast
qed

text \<open>If the group identifier was fresh, the group is guarded by the shares dealt.\<close>

lemma backup_guards:
  assumes b: "backup_op i label data t w = (Inr (), w')" and f: "fresh_group_id (split_group_id i data w) w"
  shows "\<exists>shares n e e'. split_secret data n t e = (Inr shares, e') \<and> guarded (split_group_id i data w) t (set shares) w'"
proof -
  let ?gid = "split_group_id i data w"
  from backup_reaches [OF b] obtain ps shares e e' w3 where deal: "split_secret data (int (length ps)) t e = (Inr shares, e')"
    and r: "backup_rest i label t ps shares ?gid w3 = (Inr (), w')"
    and dbs: "\<And>j. same_tables (n_db (w_nodes w j)) (n_db (w_nodes w3 j))" and tape: "drawn_from w w3"
    and d: "draws (n_entropy (w_nodes w3 i)) = Suc (draws (n_entropy (w_nodes w i)) + length data)" by blast
  have ids: "drawn_id w3 = drawn_id w" using tape by (intro ext) (simp add: drawn_id_def drawn_from_def)
  have f3: "fresh_group_id ?gid w3"
    using f dbs unfolding fresh_group_id_def ids by (simp add: same_tables_def)
  have "guarded ?gid t (set shares) w3"
    by (rule fresh_guarded [OF f3 refl refl]) (use d ids in \<open>auto simp: split_group_id_def\<close>)
  moreover have "yields (guarded ?gid t (set shares)) (backup_rest i label t ps shares ?gid) any"
    unfolding backup_rest_def Let_def
    by (rule yields_seq [OF group.on_rand_any [OF advances_random_id]], rule yields_seq [OF group.draw_holders_any],
        rule yields_seq [OF group.send_shares_any], rule genuine_seals)
       (auto simp: manifest_of_group_def intro!: group.store_manifest dest: set_zip_rightD)
  ultimately have "guarded ?gid t (set shares) w'" using r yieldsD(1) by blast
  with deal show ?thesis by blast
qed

text \<open>A successful backup brings one new group into the tables.\<close>

lemma backup_groups:
  assumes "backup_op i label data t w = (Inr (), w')" "groups_within S w"
  shows "groups_within (insert (split_group_id i data w) S) w'" "drawn_from w w'"
    "draws (n_entropy (w_nodes w i)) + length data < draws (n_entropy (w_nodes w' i))"
proof -
  let ?gid = "split_group_id i data w"
  from backup_reaches [OF assms(1)] obtain ps shares w3 where
    r: "backup_rest i label t ps shares ?gid w3 = (Inr (), w')"
    and dbs: "\<And>j. same_tables (n_db (w_nodes w j)) (n_db (w_nodes w3 j))" and tape: "drawn_from w w3"
    and d: "draws (n_entropy (w_nodes w3 i)) = Suc (draws (n_entropy (w_nodes w i)) + length data)" by blast
  have "yields (groups_within (insert ?gid S)) (backup_rest i label t ps shares ?gid) any"
    unfolding backup_rest_def Let_def
    by (rule yields_seq [OF groups.on_rand_any [OF advances_random_id]], rule yields_seq [OF groups.draw_holders_any],
        rule yields_seq [OF groups.send_shares_any])
       (simp_all only: groups.seals_def, auto intro!: groups.store_manifest)
  moreover have "groups_within (insert ?gid S) w3" using assms(2) dbs by (simp add: groups_within_def same_tables_def)
  ultimately show "groups_within (insert ?gid S) w'" using r by (rule yieldsD(1))
  have y: "yields (drawn_from w0) (backup_rest i label t ps shares ?gid) any" for w0
    unfolding backup_rest_def Let_def
    by (rule yields_seq [OF tapes.on_rand_any [OF advances_random_id]], rule yields_seq [OF tapes.draw_holders_any],
        rule yields_seq [OF tapes.send_shares_any])
       (auto simp: tapes.seals_def intro!: tapes.store_manifest)
  from yieldsD(1) [OF y tape r] show "drawn_from w w'" .
  have "drawn_from w3 w3" by (simp add: drawn_from_def)
  from yieldsD(1) [OF y this r] d show "draws (n_entropy (w_nodes w i)) + length data < draws (n_entropy (w_nodes w' i))"
    by (simp add: drawn_from_def) (metis Suc_le_lessD)
qed


section \<open>A mesh of three\<close>

definition mesh_bcd :: "mesh_peer list" where
  "mesh_bcd = map (\<lambda>(a, e). \<lparr>p_name = a, p_endpoint = e, p_wgkey = ''k'', p_added = 0\<rparr>)
     [(''host-b'', ''http://b''), (''host-c'', ''http://c''), (''host-d'', ''http://d'')]"

text \<open>Node 0 of the four trusts the other three.\<close>

definition meshed_nodes :: world where
  "meshed_nodes = four_nodes\<lparr>w_nodes := (w_nodes four_nodes)
     (0 := (w_nodes four_nodes 0)\<lparr>n_db := empty_db\<lparr>peer_table := mesh_bcd\<rparr>\<rparr>)\<rparr>"

lemma meshed_nodes_start:
  "nodes_wf meshed_nodes" "n_id (w_nodes meshed_nodes 0) = ''a''" "w_addr meshed_nodes = w_addr four_nodes"
  "peer_table (n_db (w_nodes meshed_nodes 0)) = mesh_bcd" "frag_table (n_db (w_nodes meshed_nodes j)) = []"
  "n_entropy (w_nodes meshed_nodes j) = n_entropy (w_nodes two_nodes j)"
proof -
  show "frag_table (n_db (w_nodes meshed_nodes j)) = []"
    by (simp add: meshed_nodes_def four_nodes_nodes two_nodes_nodes) (simp add: empty_db_def)
  show "nodes_wf meshed_nodes"
    by (simp add: nodes_wf_def meshed_nodes_def four_nodes_nodes two_nodes_nodes empty_db_wf)
       (simp add: db_wf_def empty_db_def mesh_bcd_def)
qed (simp_all add: meshed_nodes_def four_nodes_nodes two_nodes_nodes)

lemma meshed_nodes_faultless: "faultless (w_addr four_nodes) (o_nodes (w_orch four_nodes)) meshed_nodes"
proof -
  have "sound_node (w_nodes meshed_nodes j)" for j
    by (simp add: sound_node_def meshed_nodes_def four_nodes_nodes two_nodes_nodes) (simp add: empty_db_def key_ok_def)
  then show ?thesis using four_nodes_faultless by (simp add: faultless_def) (simp add: meshed_nodes_def)
qed

lemma meshed_nodes_trusted: "trusted (w_addr four_nodes) ''a'' (peer_table (n_db (w_nodes meshed_nodes 0)))"
  unfolding meshed_nodes_start(4) by (simp add: trusted_def mesh_bcd_def four_nodes_addr)

lemma meshed_nodes_drawn: "drawn_id meshed_nodes j k = drawn_id two_nodes j k"
  by (simp add: drawn_id_def meshed_nodes_start(6))

lemma meshed_nodes_group: "split_group_id 0 [7] meshed_nodes = drawn_id two_nodes 0 1"
  unfolding split_group_id_def meshed_nodes_drawn meshed_nodes_start(6)
  by (simp add: two_nodes_def node_a_def new_node_def)

lemma meshed_nodes_backup:
  "\<exists>w1 m ps. backup_op 0 ''b'' [7] 2 meshed_nodes = (Inr (), w1) \<and> manifests_of (n_db (w_nodes w1 0)) ''b'' = Some m \<and>
    mset ps = mset mesh_bcd \<and> held_by ps m"
proof -
  have three: "(3 :: int) = int (length (peer_table (n_db (w_nodes meshed_nodes 0))))"
    unfolding meshed_nodes_start(4) by (simp add: mesh_bcd_def)
  have "split_group_id 0 [7] meshed_nodes \<notin> r_group ` set (frag_table (n_db (w_nodes meshed_nodes j)))" for j
    by (simp add: meshed_nodes_start(5))
  from backup_returns [OF meshed_nodes_trusted _ _ _ three _ meshed_nodes_faultless meshed_nodes_start(1,2) this, of 2 "''b''" "[]"]
  show ?thesis unfolding meshed_nodes_start(4) by auto
qed

text \<open>The second group identifier is not the first.\<close>

lemma meshed_nodes_second:
  assumes "backup_op 0 ''b'' [7] 2 meshed_nodes = (Inr (), w1)"
  shows "split_group_id 0 [7] w1 \<notin> r_group ` set (frag_table (n_db (w_nodes w1 j)))"
proof -
  have "groups_within {} meshed_nodes" by (simp add: groups_within_def meshed_nodes_start(5))
  note g = backup_groups [OF assms this]
  let ?k = "draws (n_entropy (w_nodes w1 0)) + 1"
  have "drawn_id w1 0 ?k = drawn_id two_nodes 0 ?k"
    using g(2) by (simp add: drawn_id_def drawn_from_def meshed_nodes_start(6))
  then have "split_group_id 0 [7] w1 = drawn_id two_nodes 0 ?k" by (simp add: split_group_id_def)
  moreover have "drawn_id two_nodes 0 ?k \<noteq> drawn_id two_nodes 0 1"
    using g(3) unfolding two_nodes_drawn by (simp add: hex_encode_inj)
  ultimately have "split_group_id 0 [7] w1 \<notin> {split_group_id 0 [7] meshed_nodes}" by (simp add: meshed_nodes_group)
  with groups_db [OF g(1), of j] show ?thesis by blast
qed

section \<open>Properties\<close>

text \<open>C2: In a world without faults a backup to a mesh of trusted peers succeeds, and the owner restores
  the data afterwards whichever peers departed, as long as a threshold of them answers.\<close>

theorem backup_survives_departures:
  assumes "2 \<le> t" "t \<le> n" "n \<le> 255" "n = int (length (peer_table (n_db (w_nodes w i))))" "data \<noteq> []"
    "faultless A N w" "nodes_wf w" "n_id (w_nodes w i) = self" "trusted A self (peer_table (n_db (w_nodes w i)))"
    "\<And>j. split_group_id i data w \<notin> r_group ` set (frag_table (n_db (w_nodes w j)))"
  shows "\<exists>w1. backup_op i label data t w = (Inr (), w1) \<and> recoverable i self label data t n A w1"
proof -
  from backup_returns [OF assms(9,1-8,10), of label "[]"] obtain w1 tok P m shares e e' where
    w1: "backup_op i label data t w = (Inr (), w1)" "nodes_wf w1" "split_secret data n t e = (Inr shares, e')"
    "ready A N i self (split_group_id i data w) tok P w1" "manifests_of (n_db (w_nodes w1 i)) label = Some m"
    "dealt ''backup'' A i self [] (split_group_id i data w) tok t n label P shares m" by blast
  from dealt_recoverable [OF w1(4,2,5,3,6)] w1(1) show ?thesis by blast
qed

theorem backup_survives_departures_witness:
  "\<exists>w1 m w2. backup_op 0 ''b'' [7] 2 meshed_nodes = (Inr (), w1) \<and> manifests_of (n_db (w_nodes w1 0)) ''b'' = Some m \<and>
     length (mf_members m) = 3 \<and> reconstruct 0 ''b'' (w1\<lparr>w_addr := w_addr four_nodes\<rparr>) = (Inr [7], w2)"
proof -
  have three: "(3 :: int) = int (length (peer_table (n_db (w_nodes meshed_nodes 0))))"
    unfolding meshed_nodes_start(4) by (simp add: mesh_bcd_def)
  have "split_group_id 0 [7] meshed_nodes \<notin> r_group ` set (frag_table (n_db (w_nodes meshed_nodes j)))" for j
    by (simp add: meshed_nodes_start(5))
  from backup_survives_departures [OF _ _ _ three _ meshed_nodes_faultless meshed_nodes_start(1,2) meshed_nodes_trusted this, of 2 "''b''"]
  obtain w1 where w1: "backup_op 0 ''b'' [7] 2 meshed_nodes = (Inr (), w1)"
    "recoverable 0 ''a'' ''b'' [7] 2 3 (w_addr four_nodes) w1" by auto
  from recoverable_now [OF w1(2)] w1 show ?thesis unfolding recoverable_def by auto
qed



end
