(* ===== verification/Seal.thy ===== *)
theory Seal
  imports Keys
begin

text \<open>
  The sealed root secret of a node, \<open>crypto/seal.go\<close>: \<open>LoadOrCreateRoot\<close> over a file system
  whose operations may fail, \<open>sealRoot\<close> and \<open>unsealRoot\<close>. The lemmas show that a root secret that was
  once returned is returned again by every later start with the same binding.
\<close>

section \<open>Files\<close>

text \<open>
  A file either holds the JSON encoding of a \<open>sealedFile\<close> or bytes that do not decode as one.
  \<open>write_fault\<close> is \<open>None\<close> where a write succeeds; \<open>Some left\<close> is a write that reports an
  error and leaves \<open>left\<close> in the file, as an interrupted \<open>os.WriteFile\<close> may.
\<close>

record sealed_file =
  sf_salt :: bytes
  sf_ct :: bytes

datatype file_data = SealedJson sealed_file | OtherBytes bytes

type_synonym path = "string \<times> string"

record disk =
  files :: "path \<rightharpoonup> file_data"
  mkdir_fails :: "string \<Rightarrow> bool"
  read_fails :: "path \<Rightarrow> bool"
  write_fault :: "path \<Rightarrow> file_data option option"

definition read_file :: "path \<Rightarrow> disk \<Rightarrow> file_data res" where
  "read_file p d =
     (if read_fails d p then Inl ErrReadFile
      else case files d p of None \<Rightarrow> Inl ErrNotExist | Some f \<Rightarrow> Inr f)"

definition write_file :: "path \<Rightarrow> file_data \<Rightarrow> disk \<Rightarrow> unit res \<times> disk" where
  "write_file p f d =
     (case write_fault d p of
        None \<Rightarrow> (Inr (), d\<lparr>files := (files d)(p \<mapsto> f)\<rparr>)
      | Some left \<Rightarrow> (Inl ErrWriteFile, d\<lparr>files := (files d)(p := left)\<rparr>))"

section \<open>The routines of the source\<close>

definition seal_path :: "string \<Rightarrow> path" where
  "seal_path dir = (dir, ''root.seal'')"

definition seal_root :: "packages \<Rightarrow> bytes \<Rightarrow> bytes \<Rightarrow> entropy \<Rightarrow> sealed_file res \<times> entropy" where
  "seal_root X rootSecret binding e =
     (case rand_read 16 e of
        (Inl err, e1) \<Rightarrow> (Inl err, e1)
      | (Inr salt, e1) \<Rightarrow>
          (case scrypt_key X binding salt (2 ^ 15) 8 1 KeySize of
             None \<Rightarrow> (Inl ErrScrypt, e1)
           | Some wrapKey \<Rightarrow>
               (case encrypt wrapKey rootSecret (bytes_of ''mutant-db/seal'') e1 of
                  (Inl err, e2) \<Rightarrow> (Inl err, e2)
                | (Inr ct, e2) \<Rightarrow> (Inr \<lparr>sf_salt = salt, sf_ct = ct\<rparr>, e2))))"

definition unseal_root :: "packages \<Rightarrow> sealed_file \<Rightarrow> bytes \<Rightarrow> bytes res" where
  "unseal_root X sf binding =
     (case scrypt_key X binding (sf_salt sf) (2 ^ 15) 8 1 KeySize of
        None \<Rightarrow> Inl ErrScrypt
      | Some wrapKey \<Rightarrow> decrypt wrapKey (sf_ct sf) (bytes_of ''mutant-db/seal''))"

definition load_or_create_root ::
  "packages \<Rightarrow> string \<Rightarrow> bytes \<Rightarrow> disk \<Rightarrow> entropy \<Rightarrow> bytes res \<times> disk \<times> entropy" where
  "load_or_create_root X dir binding d e =
     (if mkdir_fails d dir then (Inl ErrMkdir, d, e)
      else case read_file (seal_path dir) d of
        Inr (SealedJson sf) \<Rightarrow> (unseal_root X sf binding, d, e)
      | Inr (OtherBytes _) \<Rightarrow> (Inl ErrJson, d, e)
      | Inl err \<Rightarrow>
          if err \<noteq> ErrNotExist then (Inl err, d, e)
          else case rand_read KeySize e of
            (Inl err, e1) \<Rightarrow> (Inl err, d, e1)
          | (Inr rootSecret, e1) \<Rightarrow>
              (case seal_root X rootSecret binding e1 of
                 (Inl err, e2) \<Rightarrow> (Inl err, d, e2)
               | (Inr sf, e2) \<Rightarrow>
                   (case write_file (seal_path dir) (SealedJson sf) d of
                      (Inl err, d') \<Rightarrow> (Inl err, d', e2)
                    | (Inr _, d') \<Rightarrow> (Inr rootSecret, d', e2))))"

section \<open>Sealing and unsealing\<close>

lemma unseal_seal:
  assumes "seal_root X rootSecret binding e = (Inr sf, e')" shows "unseal_root X sf binding = Inr rootSecret"
proof -
  from assms obtain salt e1 k ct where "scrypt_key X binding salt (2 ^ 15) 8 1 KeySize = Some k"
    and ct: "encrypt k rootSecret (bytes_of ''mutant-db/seal'') e1 = (Inr ct, e')"
    and "sf = \<lparr>sf_salt = salt, sf_ct = ct\<rparr>"
    by (auto simp: seal_root_def split: prod.splits sum.splits option.splits)
  with aead.open_seal [OF ct] show ?thesis by (simp add: unseal_root_def)
qed

text \<open>The four outcomes of a load: an existing seal, a new one, or an error with at most a failed write.\<close>

lemma load_Inr_cases:
  assumes "load_or_create_root X dir binding d e = (Inr rootSecret, d', e')"
  obtains (existing) sf where "files d (seal_path dir) = Some (SealedJson sf)"
      "unseal_root X sf binding = Inr rootSecret" "d' = d" "e' = e"
  | (created) sf e1 where "files d (seal_path dir) = None"
      "seal_root X rootSecret binding e1 = (Inr sf, e')"
      "d' = d\<lparr>files := (files d)(seal_path dir \<mapsto> SealedJson sf)\<rparr>"
proof -
  have env: "\<not> mkdir_fails d dir" "\<not> read_fails d (seal_path dir)"
    using assms by (simp_all add: load_or_create_root_def read_file_def split: if_splits)
  show thesis
  proof (cases "files d (seal_path dir)")
    case None
    with assms env obtain e1 where "rand_read KeySize e = (Inr rootSecret, e1)"
      and *: "(case seal_root X rootSecret binding e1 of
                 (Inl err, e2) \<Rightarrow> (Inl err, d, e2)
               | (Inr sf, e2) \<Rightarrow>
                   (case write_file (seal_path dir) (SealedJson sf) d of
                      (Inl err, d') \<Rightarrow> (Inl err, d', e2)
                    | (Inr _, d') \<Rightarrow> (Inr rootSecret, d', e2))) = (Inr rootSecret, d', e')"
      by (cases "rand_read KeySize e"; cases "fst (rand_read KeySize e)")
        (auto simp: load_or_create_root_def read_file_def split: sum.splits prod.splits)
    from * obtain sf where "seal_root X rootSecret binding e1 = (Inr sf, e')"
      "write_file (seal_path dir) (SealedJson sf) d = (Inr (), d')"
      by (auto split: sum.splits prod.splits)
    with None show thesis by (intro created) (auto simp: write_file_def split: option.splits)
  next
    case (Some f)
    with assms env show thesis
      by (cases f) (auto simp: load_or_create_root_def read_file_def intro: existing)
  qed
qed

lemma load_env:
  assumes "load_or_create_root X dir binding d e = (Inr rootSecret, d', e')"
  shows "\<not> mkdir_fails d dir" "\<not> read_fails d (seal_path dir)"
    "mkdir_fails d' = mkdir_fails d" "read_fails d' = read_fails d"
proof -
  show "\<not> mkdir_fails d dir" "\<not> read_fails d (seal_path dir)"
    using assms by (simp_all add: load_or_create_root_def read_file_def split: if_splits)
  show "mkdir_fails d' = mkdir_fails d" by (rule load_Inr_cases [OF assms]) simp_all
  show "read_fails d' = read_fails d" by (rule load_Inr_cases [OF assms]) simp_all
qed

lemma load_stable:
  assumes "load_or_create_root X dir binding d e = (Inr rootSecret, d', e')"
  shows "load_or_create_root X dir binding d' f = (Inr rootSecret, d', f)"
  using assms
proof (cases rule: load_Inr_cases)
  case (existing sf)
  then show ?thesis using load_env [OF assms] by (simp add: load_or_create_root_def read_file_def)
next
  case (created sf e1)
  then show ?thesis using load_env [OF assms] unseal_seal [OF created(2)]
    by (simp add: load_or_create_root_def read_file_def)
qed

section \<open>Properties\<close>

text \<open>C32: Once \<open>LoadOrCreateRoot\<close> has returned a root secret, every later call in the same directory with
  the same binding returns that secret and writes nothing, whatever randomness is available.\<close>

theorem root_is_stable:
  assumes "load_or_create_root X dir binding d e = (Inr rootSecret, d', e')"
  shows "load_or_create_root X dir binding d' f = (Inr rootSecret, d', f)"
  by (rule load_stable [OF assms])

definition disk0 :: disk where
  "disk0 = \<lparr>files = (\<lambda>_. None), mkdir_fails = (\<lambda>_. False), read_fails = (\<lambda>_. False),
     write_fault = (\<lambda>_. None)\<rparr>"

lemma load_example:
  "\<exists>rootSecret d' e'. load_or_create_root sample_packages ''data'' [1] disk0
     \<lparr>tape = \<lambda>_ _. 0, broken = \<lambda>_. False, draws = 0\<rparr> = (Inr rootSecret, d', e')"
  by (simp add: load_or_create_root_def disk0_def read_file_def write_file_def rand_read_def
      seal_root_def sample_packages_def KeySize_def encrypt_def key_ok_def)

theorem root_is_stable_witness:
  "\<exists>rootSecret d'. load_or_create_root sample_packages ''data'' [1] d'
     \<lparr>tape = \<lambda>_ _. 5, broken = \<lambda>_. True, draws = 3\<rparr> =
     (Inr rootSecret, d', \<lparr>tape = \<lambda>_ _. 5, broken = \<lambda>_. True, draws = 3\<rparr>)"
  using load_example root_is_stable by blast

end
