(* ===== verification/Startup.thy ===== *)
theory Startup
  imports Overlap Seal
begin

text \<open>
  The start of a client, \<open>main\<close> of \<open>cmd/client/main.go\<close>, up to its background loops: the defaults of
  the flags, the root secret, the database, the new node and its registration. A restart finds the
  files and the database as they are on disk; what the process kept in memory is gone. The lemmas
  show that a node that restarts is the same node, except for its cold chains.
\<close>

section \<open>Paths\<close>

text \<open>\<open>filepath.Join\<close> on Unix: the non-empty elements joined by slashes and cleaned.\<close>

fun split_slash :: "string \<Rightarrow> string \<Rightarrow> string list" where
  "split_slash acc [] = [rev acc]"
| "split_slash acc (c # s) = (if c = CHR ''/'' then rev acc # split_slash [] s else split_slash (c # acc) s)"

fun join_slash :: "string list \<Rightarrow> string" where
  "join_slash [] = []"
| "join_slash [s] = s"
| "join_slash (s # ss) = s @ ''/'' @ join_slash ss"

fun clean_step :: "bool \<Rightarrow> string list \<Rightarrow> string \<Rightarrow> string list" where
  "clean_step rooted stack c =
     (if c = [] \<or> c = ''.'' then stack
      else if c = ''..'' then
        (case stack of
           [] \<Rightarrow> if rooted then [] else [''..'']
         | prev # rest \<Rightarrow> if prev = ''..'' then ''..'' # stack else rest)
      else c # stack)"

definition clean_path :: "string \<Rightarrow> string" where
  "clean_path p =
     (let rooted = (p \<noteq> [] \<and> hd p = CHR ''/'');
          q = (if rooted then ''/'' else []) @ join_slash (rev (foldl (clean_step rooted) [] (split_slash [] p)))
      in if q = [] then ''.'' else q)"

definition join_path :: "string list \<Rightarrow> string" where
  "join_path parts =
     (let ps = filter (\<lambda>s. s \<noteq> []) parts in if ps = [] then [] else clean_path (join_slash ps))"

section \<open>The start\<close>

record options =
  op_node_id :: string
  op_peer_addr :: string
  op_endpoint :: string
  op_data_dir :: string
  op_mesh_only :: bool

definition endpoint_of :: "options \<Rightarrow> string" where
  "endpoint_of o1 = (if op_endpoint o1 = [] then ''http://localhost'' @ op_peer_addr o1 else op_endpoint o1)"

definition data_dir_of :: "options \<Rightarrow> string" where
  "data_dir_of o1 = (if op_data_dir o1 = [] then join_path [''data'', op_node_id o1] else op_data_dir o1)"

definition binding_of :: "options \<Rightarrow> bytes" where
  "binding_of o1 = bytes_of (''stand-in-hw-binding:'' @ op_node_id o1)"

text \<open>
  Every \<open>Inl\<close> is an exit of the process. Of the node in the world before, the database (its file)
  and the source of randomness are what the new process finds.
\<close>

definition boot :: "packages \<Rightarrow> nat \<Rightarrow> options \<Rightarrow> int \<Rightarrow> disk \<Rightarrow> world \<Rightarrow> unit res \<times> disk \<times> world" where
  "boot X i o1 ppid d w =
     (if op_node_id o1 = [] then (Inl ErrNodeID, d, w)
      else
        let n = w_nodes w i; dir = data_dir_of o1
        in case load_or_create_root X dir (binding_of o1) d (n_entropy n) of
             (Inl err, d1, e1) \<Rightarrow> (Inl err, d1, set_node i (n\<lparr>n_entropy := e1\<rparr>) w)
           | (Inr rootSecret, d1, e1) \<Rightarrow>
               (case open_store X rootSecret (n_db n) of
                  (Inl err, st) \<Rightarrow> (Inl err, d1, set_node i (n\<lparr>n_db := st, n_entropy := e1\<rparr>) w)
                | (Inr _, st) \<Rightarrow>
                    let w1 = set_node i (new_node (op_node_id o1) (endpoint_of o1) rootSecret st ppid e1) w;
                        w2 = set_local_db_path i (join_path [dir, ''node.db'']) w1
                    in case (if op_mesh_only o1 then ret (Inr ()) else bindr (start_node i) (\<lambda>_. ret (Inr ()))) w2 of
                         (r, w3) \<Rightarrow> (r, d1, w3)))"

section \<open>Restarting\<close>

lemma start_keeps_nodes:
  assumes "(if mesh then ret (Inr ()) else bindr (start_node i) (\<lambda>_. ret (Inr ()))) w = (r, w')"
  shows "w_nodes w' = w_nodes w"
proof -
  have "yields (\<lambda>v. w_nodes v = w_nodes w) (if mesh then ret (Inr ()) else bindr (start_node i) (\<lambda>_. ret (Inr ()))) any"
    unfolding start_node_def
    by (auto intro!: yields_ret_any yields_seq yields_with_node quiet.clients_any quiet.lists_any)
  from yieldsD(1) [OF this _ assms] show ?thesis by simp
qed

text \<open>What a successful start leaves: the same tables under the storage key of the root secret.\<close>

lemma boot_Inr:
  assumes "boot X i o1 ppid d w = (Inr (), d1, w1)"
  obtains rootSecret e1 key where
    "load_or_create_root X (data_dir_of o1) (binding_of o1) d (n_entropy (w_nodes w i)) = (Inr rootSecret, d1, e1)"
    "derive_fragment_root X rootSecret (bytes_of ''local-storage-wrap-key'') = Inr key"
    "n_root (w_nodes w1 i) = rootSecret" "n_chains (w_nodes w1 i) = (\<lambda>_. None)" "n_id (w_nodes w1 i) = op_node_id o1"
    "n_endpoint (w_nodes w1 i) = endpoint_of o1" "n_dbpath (w_nodes w1 i) = join_path [data_dir_of o1, ''node.db'']"
    "n_db (w_nodes w1 i) = (n_db (w_nodes w i))\<lparr>storage_key := key, stmts := Suc (stmts (n_db (w_nodes w i)))\<rparr>"
proof -
  from assms obtain rootSecret e1 st where r:
    "load_or_create_root X (data_dir_of o1) (binding_of o1) d (n_entropy (w_nodes w i)) = (Inr rootSecret, d1, e1)"
    "open_store X rootSecret (n_db (w_nodes w i)) = (Inr (), st)"
    and s: "(if op_mesh_only o1 then ret (Inr ()) else bindr (start_node i) (\<lambda>_. ret (Inr ())))
      (set_local_db_path i (join_path [data_dir_of o1, ''node.db''])
        (set_node i (new_node (op_node_id o1) (endpoint_of o1) rootSecret st ppid e1) w)) = (Inr (), w1)"
    by (auto simp: boot_def Let_def split: if_splits prod.splits sum.splits)
  from r(2) obtain key where key: "derive_fragment_root X rootSecret (bytes_of ''local-storage-wrap-key'') = Inr key"
    "st = (n_db (w_nodes w i))\<lparr>storage_key := key, stmts := Suc (stmts (n_db (w_nodes w i)))\<rparr>"
    by (auto simp: open_store_def exec_def Let_def split: sum.splits if_splits)
  from start_keeps_nodes [OF s] show thesis
    by (intro that [OF r(1) key(1)]) (simp_all add: set_local_db_path_def new_node_def key(2))
qed

text \<open>The root secret and the storage key of a running node never change.\<close>

interpretation keyed: custody "\<lambda>w. n_root (w_nodes w i) = k \<and> storage_key (n_db (w_nodes w i)) = s"
  "\<lambda>_ _ _ _. True" "\<lambda>_ _. True" "\<lambda>_. True" for i k s
  by unfold_locales
     (auto simp: set_db_def set_entropy_def set_node_def same_tables_def same_engine_def members_changed_def
        dest: put_manifest_rows put_mesh_peer_rows
        elim!: put_fragment_cases delete_fragment_cases)

lemma load_again:
  assumes "load_or_create_root X dir binding d e = (Inr k, d1, e1)" "files d2 = files d1"
    "load_or_create_root X dir binding d2 f = (Inr k', d3, f1)"
  shows "k' = k"
proof -
  obtain sf where sf: "files d1 (seal_path dir) = Some (SealedJson sf)" "unseal_root X sf binding = Inr k"
    using assms(1) by (cases rule: load_Inr_cases) (auto dest: unseal_seal)
  from assms(3) show ?thesis by (cases rule: load_Inr_cases) (use sf assms(2) in auto)
qed

lemma reboot:
  assumes "boot X i o1 ppid d w = (Inr (), d1, w1)" "overlap_run X allowed (ts, w1) (ts', w2)" "files d2 = files d1"
    "boot X i o1 ppid' d2 w2 = (Inr (), d3, w3)" "sane ts"
  shows "n_root (w_nodes w3 i) = n_root (w_nodes w2 i)" "n_chains (w_nodes w3 i) = (\<lambda>_. None)"
    "same_tables (n_db (w_nodes w2 i)) (n_db (w_nodes w3 i))"
proof -
  from assms(1) obtain k e1 key where b1:
    "load_or_create_root X (data_dir_of o1) (binding_of o1) d (n_entropy (w_nodes w i)) = (Inr k, d1, e1)"
    "derive_fragment_root X k (bytes_of ''local-storage-wrap-key'') = Inr key"
    "n_root (w_nodes w1 i) = k \<and> storage_key (n_db (w_nodes w1 i)) = key"
    by (rule boot_Inr) simp
  have w2: "n_root (w_nodes w2 i) = k \<and> storage_key (n_db (w_nodes w2 i)) = key"
    using keyed.overlap_keeps [OF assms(2), of i k key] b1(3) flight_mono [OF assms(5)]
    by (simp add: keyed.delivery_ok_def)
  from assms(4) obtain k' f1 key' where b2:
    "load_or_create_root X (data_dir_of o1) (binding_of o1) d2 (n_entropy (w_nodes w2 i)) = (Inr k', d3, f1)"
    "derive_fragment_root X k' (bytes_of ''local-storage-wrap-key'') = Inr key'"
    "n_root (w_nodes w3 i) = k'" "n_chains (w_nodes w3 i) = (\<lambda>_. None)"
    "n_db (w_nodes w3 i) = (n_db (w_nodes w2 i))\<lparr>storage_key := key', stmts := Suc (stmts (n_db (w_nodes w2 i)))\<rparr>"
    by (rule boot_Inr)
  have k: "k' = k" by (rule load_again [OF b1(1) assms(3) b2(1)])
  then have "key' = key" using b1(2) b2(2) by simp
  with w2 k b2 show "n_root (w_nodes w3 i) = n_root (w_nodes w2 i)" "n_chains (w_nodes w3 i) = (\<lambda>_. None)"
    "same_tables (n_db (w_nodes w2 i)) (n_db (w_nodes w3 i))"
    by (simp_all add: same_tables_def same_engine_def)
qed

lemma no_chains_no_cold:
  assumes "n_chains (w_nodes w i) = (\<lambda>_. None)" shows "fst (cold_mutate X i pid w) \<noteq> Inr x"
proof
  assume "fst (cold_mutate X i pid w) = Inr x"
  then obtain w' where "cold_mutate X i pid w = (Inr x, w')" by (metis prod.collapse)
  then obtain frag w1 where "on_db i (get_fragment pid) w = (Inr frag, w1)"
    and r: "with_node i (\<lambda>n. case n_chains n (f_chain frag) of
         None \<Rightarrow> ret (Inl ErrNoChain)
       | Some cc \<Rightarrow> (case consume cc of
              (None, _) \<Rightarrow> ret (Inl ErrChainExhausted)
            | (Some seed, cc') \<Rightarrow> (\<lambda>w. apply_mutation X i pid seed ''cold''
                (set_node i (n\<lparr>n_chains := (n_chains n)(f_chain frag \<mapsto> cc')\<rparr>) w)))) w1 = (Inr x, w')"
    unfolding cold_mutate_def by (blast dest: bindr_Inr)
  then have "n_chains (w_nodes w1 i) = (\<lambda>_. None)" using assms on_db_Inr by (fastforce simp: set_db_def)
  with r show False by (simp add: with_node_def ret_def)
qed

lemma same_tables_manifests: "same_tables d d' \<Longrightarrow> manifests_of d' = manifests_of d"
  by (simp add: same_tables_def manifests_of_def fun_eq_iff)

section \<open>Property\<close>

text \<open>C11: A client that is restarted with the same flags on the same files, after whatever has happened to
  the system since its first start, overlapping operations included, has its root secret, its fragments and its manifests back; its
  cold chains are gone, so that no fragment from before can be cold-mutated.\<close>

theorem restart_keeps_store:
  assumes "boot X i o1 ppid d w = (Inr (), d1, w1)" "overlap_run X allowed (ts, w1) (ts', w2)" "files d2 = files d1"
    "boot X i o1 ppid' d2 w2 = (Inr (), d3, w3)" "sane ts"
  shows "n_root (w_nodes w3 i) = n_root (w_nodes w2 i) \<and>
    frags_of (n_db (w_nodes w3 i)) = frags_of (n_db (w_nodes w2 i)) \<and>
    manifests_of (n_db (w_nodes w3 i)) = manifests_of (n_db (w_nodes w2 i)) \<and>
    (\<forall>pid x. fst (cold_mutate X i pid w3) \<noteq> Inr x)"
proof -
  note r = reboot [OF assms]
  then show ?thesis using same_tables_frags [OF r(3)] same_tables_manifests [OF r(3)] no_chains_no_cold [OF r(2)] by blast
qed

definition lone_options :: options where
  "lone_options = \<lparr>op_node_id = ''a'', op_peer_addr = '':9001'', op_endpoint = [], op_data_dir = [], op_mesh_only = True\<rparr>"

definition lone_world :: world where
  "lone_world = \<lparr>w_nodes = \<lambda>_. new_node [] [] [] empty_db 1 \<lparr>tape = \<lambda>_ _. 0, broken = \<lambda>_. False, draws = 0\<rparr>,
     w_addr = (\<lambda>_. None), w_orch = new_orchestrator (\<lambda>_ i. i), w_fate = (\<lambda>_. Unsent), w_clock = int, w_calls = 0\<rparr>"

lemma lone_paths: "data_dir_of lone_options = ''data/a''" "join_path [''data/a'', ''node.db''] = ''data/a/node.db''"
  "endpoint_of lone_options = ''http://localhost:9001''"
  by (simp_all add: data_dir_of_def lone_options_def join_path_def clean_path_def endpoint_of_def Let_def)

lemma boot_mesh_only:
  assumes "load_or_create_root X (data_dir_of o1) (binding_of o1) d (n_entropy (w_nodes w i)) = (Inr k, d1, e1)"
    "\<not> sql_broken (n_db (w_nodes w i)) (stmts (n_db (w_nodes w i)))" "hkdf_law X" "op_mesh_only o1" "op_node_id o1 \<noteq> []"
  shows "\<exists>w1. boot X i o1 ppid d w = (Inr (), d1, w1)"
proof -
  obtain key where "derive_fragment_root X k (bytes_of ''local-storage-wrap-key'') = Inr key"
    using hkdf_expand_ok [OF assms(3)] unfolding derive_fragment_root_def by blast
  then show ?thesis using assms by (simp add: boot_def open_store_def exec_def Let_def ret_def)
qed

theorem restart_keeps_store_witness:
  "\<exists>d1 w1 w2 d3 w3. boot sample_packages 0 lone_options 1 disk0 lone_world = (Inr (), d1, w1) \<and>
    add_mesh_peer 0 ''m'' ''e'' ''k'' w1 = (Inr (), w2) \<and>
    boot sample_packages 0 lone_options 2 d1 w2 = (Inr (), d3, w3) \<and> n_root (w_nodes w3 0) = n_root (w_nodes w2 0)"
proof -
  let ?dir = "data_dir_of lone_options" and ?b = "binding_of lone_options"
  have n: "n_entropy (w_nodes lone_world 0) = \<lparr>tape = \<lambda>_ _. 0, broken = \<lambda>_. False, draws = 0\<rparr>"
    "n_db (w_nodes lone_world 0) = empty_db" by (simp_all add: lone_world_def new_node_def)
  have "\<exists>k d1 e1. load_or_create_root sample_packages ?dir ?b disk0 (n_entropy (w_nodes lone_world 0)) = (Inr k, d1, e1)"
    unfolding n(1)
    by (simp add: load_or_create_root_def disk0_def read_file_def write_file_def rand_read_def
        seal_root_def sample_packages_def KeySize_def encrypt_def key_ok_def)
  then obtain k d1 e1 where l: "load_or_create_root sample_packages ?dir ?b disk0 (n_entropy (w_nodes lone_world 0)) = (Inr k, d1, e1)"
    by blast
  have o1: "op_mesh_only lone_options" "op_node_id lone_options \<noteq> []" by (simp_all add: lone_options_def)
  have quiet: "\<not> sql_broken empty_db n" for n by (simp add: empty_db_def)
  from boot_mesh_only [OF l _ sample_packages_laws(1) o1] quiet n(2)
  obtain w1 where w1: "boot sample_packages 0 lone_options 1 disk0 lone_world = (Inr (), d1, w1)" by fastforce
  have b1: "sql_broken (n_db (w_nodes w1 0)) = sql_broken empty_db"
    by (rule boot_Inr [OF w1]) (simp add: n(2))
  obtain r w2 where w2: "add_mesh_peer 0 ''m'' ''e'' ''k'' w1 = (r, w2)" by force
  then have r: "r = Inr ()" "sql_broken (n_db (w_nodes w2 0)) = sql_broken empty_db"
    using b1 quiet by (auto simp: add_mesh_peer_def on_db_def put_mesh_peer_def exec_def set_node_def Let_def)
  from boot_mesh_only [OF load_stable [OF l] _ sample_packages_laws(1) o1] r(2) quiet
  obtain w3 where w3: "boot sample_packages 0 lone_options 2 d1 w2 = (Inr (), d1, w3)" by metis
  have "overlap_run sample_packages (\<lambda>_. True) ([], w1) ([], w2)"
    by (rule world_run_overlap [OF world_run.onward [OF world_run.here world_step.meshes [OF w2]]])
  from restart_keeps_store [OF w1 this refl w3 flight_none] w1 w2 w3 r(1) show ?thesis by blast
qed

end
