(* ===== verification/Reshare.thy ===== *)
theory Reshare
  imports Progress
begin

text \<open>
  What a reshare does to the fragments of the split before it: nothing. Splitting, backing up and
  healing only ever add fragments under fresh pseudonyms; no operation of \<open>client/selfheal.go\<close>
  removes the fragments of the group it replaces.
\<close>

section \<open>A fragment that stays\<close>

text \<open>\<open>kept i j pid f\<close>: node \<open>j\<close> stores \<open>f\<close> under \<open>pid\<close>, and node \<open>i\<close> will not draw \<open>pid\<close> again.\<close>

definition kept :: "nat \<Rightarrow> nat \<Rightarrow> string \<Rightarrow> fragment \<Rightarrow> world \<Rightarrow> bool" where
  "kept i j pid f w \<longleftrightarrow> frags_of (n_db (w_nodes w j)) pid = Some f \<and>
     (\<forall>k \<ge> draws (n_entropy (w_nodes w i)). drawn_id w i k \<noteq> pid)"

lemma kept_cong:
  assumes "kept i j pid f w" "\<And>l. frags_of (n_db (w_nodes w' l)) pid = frags_of (n_db (w_nodes w l)) pid"
    "\<And>l. tape (n_entropy (w_nodes w' l)) = tape (n_entropy (w_nodes w l))"
    "\<And>l. draws (n_entropy (w_nodes w l)) \<le> draws (n_entropy (w_nodes w' l))"
  shows "kept i j pid f w'"
  using assms unfolding kept_def drawn_id_def by (metis order_trans)

interpretation kept: messaging "kept i j pid f" for i j pid f
  by unfold_locales (simp_all add: kept_def drawn_id_def)

lemma kept_undisturbed:
  assumes "\<And>w0. yields (undisturbed w0) m any" shows "yields (kept i j pid f) m any"
proof (rule yieldsI)
  fix w r w' assume w: "kept i j pid f w" "m w = (r, w')"
  have "undisturbed w w'" by (rule yieldsD(1) [OF assms _ w(2)]) simp
  then show "kept i j pid f w' \<and> (\<forall>x. r = Inr x \<longrightarrow> True)"
    by (intro conjI kept_cong [OF w(1)]) (simp_all add: undisturbed_def frags_of_def)
qed

lemma kept_on_rand:
  assumes "advances g" "\<And>w x e. kept i j pid f w \<Longrightarrow> g (n_entropy (w_nodes w l)) = (Inr x, e) \<Longrightarrow> V x"
  shows "yields (kept i j pid f) (on_rand l g) V"
proof (rule yieldsI)
  fix w r w' assume w: "kept i j pid f w" "on_rand l g w = (r, w')"
  obtain q e where q: "g (n_entropy (w_nodes w l)) = (q, e)" by force
  with assms(1) have e: "e = (n_entropy (w_nodes w l))\<lparr>draws := draws e\<rparr>" "draws (n_entropy (w_nodes w l)) \<le> draws e"
    unfolding advances_def by blast+
  from w(2) q have w': "w' = set_entropy l e w" "r = q" by (simp_all add: on_rand_def set_entropy_def Let_def)
  have "tape e = tape (n_entropy (w_nodes w l))" by (subst e(1)) simp
  with e(2) have "kept i j pid f w'" by (intro kept_cong [OF w(1)]) (auto simp: w')
  with w' q assms(2) [OF w(1)] show "kept i j pid f w' \<and> (\<forall>x. r = Inr x \<longrightarrow> V x)" by blast
qed

lemmas kept_rand_any = kept_on_rand [where V = any, OF _ TrueI]

lemma kept_draw: "yields (kept i j pid f) (on_rand i (random_id 16)) (\<lambda>p. p \<noteq> pid)"
  by (rule kept_on_rand [OF advances_random_id]) (auto simp: kept_def dest!: random_id_Inr)

lemma kept_on_db:
  assumes "\<And>d r d'. g d = (r, d') \<Longrightarrow> frag_table d' = frag_table d \<and> storage_key d' = storage_key d"
  shows "yields (kept i j pid f) (on_db l g) any"
proof (rule yieldsI)
  fix w r w' assume w: "kept i j pid f w" "on_db l g w = (r, w')"
  obtain q d where q: "g (n_db (w_nodes w l)) = (q, d)" by force
  with w(2) have w': "w' = set_db l d w" by (simp add: on_db_def set_db_def Let_def)
  have "frags_of d = frags_of (n_db (w_nodes w l))" using assms [OF q] by (simp add: frags_of_def fun_eq_iff)
  then show "kept i j pid f w' \<and> (\<forall>x. r = Inr x \<longrightarrow> True)" by (intro conjI kept_cong [OF w(1)]) (auto simp: w')
qed

lemma kept_store:
  assumes "f_pid g \<noteq> pid" shows "yields (kept i j pid f) (on_db_rand l (put_fragment g)) any"
proof (rule yieldsI)
  fix w r w' assume w: "kept i j pid f w" "on_db_rand l (put_fragment g) w = (r, w')"
  obtain q d e where q: "put_fragment g (n_db (w_nodes w l)) (n_entropy (w_nodes w l)) = (q, d, e)"
    by (rule prod_cases3)
  then have w': "w' = set_node l ((w_nodes w l)\<lparr>n_db := d, n_entropy := e\<rparr>) w"
    using w(2) by (simp add: on_db_rand_def Let_def)
  have "frags_of d pid = frags_of (n_db (w_nodes w l)) pid"
  proof (cases q)
    case (Inl err)
    with q have "same_tables (n_db (w_nodes w l)) d" by (auto elim!: put_fragment_cases)
    then show ?thesis by (simp add: same_tables_frags)
  qed (use put_fragment_map [of g] q assms in auto)
  moreover have "tape e = tape (n_entropy (w_nodes w l))" "draws (n_entropy (w_nodes w l)) \<le> draws e"
    using valid.put_fragment_advances [OF q] by (metis entropy.select_convs(1) entropy.surjective entropy.update_convs(3))+
  ultimately show "kept i j pid f w' \<and> (\<forall>x. r = Inr x \<longrightarrow> any x)"
    by (intro conjI kept_cong [OF w(1)]) (auto simp: w')
qed
section \<open>Handing out shares\<close>

lemma kept_after_chains:
  assumes "\<And>l. yields (kept i j pid f) (m l) V"
  shows "yields (kept i j pid f) (with_node l (\<lambda>n w. m n (set_node l (n\<lparr>n_chains := c n\<rparr>) w))) V"
proof (rule yieldsI)
  fix w r w'
  assume w: "kept i j pid f w" "with_node l (\<lambda>n w. m n (set_node l (n\<lparr>n_chains := c n\<rparr>) w)) w = (r, w')"
  let ?n = "w_nodes w l"
  have "kept i j pid f (set_node l (?n\<lparr>n_chains := c ?n\<rparr>) w)" by (rule kept_cong [OF w(1)]) auto
  from assms [of ?n] this w(2) show "kept i j pid f w' \<and> (\<forall>x. r = Inr x \<longrightarrow> V x)"
    unfolding with_node_def yields_def by blast
qed

lemma kept_register: "yields (kept i j pid f) (register_new_fragment l p chainID) any"
  unfolding register_new_fragment_def Let_def
  by (intro yields_seq kept_rand_any advances_build_chain kept_after_chains yields_try kept.clients_any yields_ret_any)

lemma kept_deliver:
  assumes "dr_pid d \<noteq> pid" shows "yields (kept i j pid f) (deliver_share ep d) any"
proof -
  have h: "yields (kept i j pid f) (peer_handle l (PeerDeliver (Some d))) any" for l
    using assms by (auto simp: peer_handle_def handle_deliver_def reply_def split: sum.split
        intro!: yields_try kept_rand_any advances_random_id kept_register kept_store yields_ret_any)
  have "yields (kept i j pid f) (peer_call ep (PeerDeliver (Some d))) any" by (rule kept.call_any [OF h])
  then show ?thesis unfolding deliver_share_def ok_status_def by (intro yields_seq yields_ret_any)
qed

lemma kept_holders: "yields (kept i j pid f) (draw_holders i ps) (\<lambda>hs. pid \<notin> h_pid ` set hs)"
proof (induction ps)
  case (Cons p ps)
  obtain nid ep where p: "p = (nid, ep)" by force
  show ?case unfolding p draw_holders.simps
    by (rule yields_bindr [OF kept_draw], rule yields_bindr [OF Cons], rule yields_ret) auto
qed (auto intro: yields_ret)

lemma kept_send_shares:
  assumes "\<And>h s. (h, s) \<in> set hss \<Longrightarrow> h_pid h \<noteq> pid" shows "yields (kept i j pid f) (send_shares l g hss) any"
  unfolding send_shares_def
proof (rule yields_for_each [where V = any])
  fix hs assume hs: "hs \<in> set hss"
  obtain h share where p: "hs = (h, share)" by force
  then have "h_pid h \<noteq> pid" using assms hs by blast
  then show "yields (kept i j pid f) (case hs of (h, share) \<Rightarrow> send_share l g h share) any"
    unfolding p prod.case send_share_def
    by (intro yields_seq kept_rand_any advances_rand_read advances_encrypt kept_deliver) simp
qed

lemma kept_keep_share: "h_pid h \<noteq> pid \<Longrightarrow> yields (kept i j pid f) (keep_share X l g h share) any"
  unfolding keep_share_def
  by (intro yields_seq yields_with_node kept_rand_any advances_random_id advances_encrypt kept_register yields_ret_any
      kept_store) simp_all

lemma kept_manifest: "yields (kept i j pid f) (on_db l (put_manifest m)) any"
  by (rule kept_on_db) (rule put_manifest_rows)

lemma kept_split: "yields (kept i j pid f) (split_op X i name data t n) any"
proof -
  have tail: "yields (kept i j pid f) (let g = G hs in bindr (keep_share X i g (hd hs) (hd shares)) (\<lambda>_.
      bindr (send_shares i g (zip (tl hs) (tl shares))) (\<lambda>_. on_db i (put_manifest (manifest_of_group name k g))))) any"
    if "pid \<notin> h_pid ` set hs" "hs \<noteq> []" for G :: "holder list \<Rightarrow> split_group" and hs shares k
    using that unfolding Let_def
    by (intro yields_seq kept_keep_share kept_send_shares kept_manifest)
       (cases hs; auto dest!: set_zip_leftD)+
  have holders: "yields (kept i j pid f) (draw_holders i (p # ps)) (\<lambda>hs. pid \<notin> h_pid ` set hs \<and> hs \<noteq> [])" for p ps
  proof -
    obtain nid ep where p: "p = (nid, ep)" by force
    show ?thesis unfolding p draw_holders.simps
      by (rule yields_bindr [OF kept_draw], rule yields_bindr [OF kept_holders], rule yields_ret) auto
  qed
  show ?thesis unfolding split_op_def
    by (auto intro!: yields_ret_any yields_seq kept.reachable_peers_any kept_rand_any advances_split advances_random_id
        yields_with_node yields_bindr [OF holders] tail simp del: draw_holders.simps)
qed

lemma kept_distribute: "yields (kept i j pid f) (distribute_backup i label data t ps) any"
  unfolding distribute_backup_def Let_def
  by (auto intro!: yields_ret_any yields_seq kept_rand_any advances_split advances_random_id
      yields_bindr [OF kept_holders] kept_send_shares kept_manifest dest!: set_zip_leftD)

section \<open>Healing\<close>

lemma kept_reads:
  "yields (kept i j pid f) (reconstruct l name) any" "yields (kept i j pid f) (probe_members m mbs) any"
  by (rule kept_undisturbed, rule reconstruct_undisturbed probe_undisturbed)+

lemma kept_lists:
  "yields (kept i j pid f) (on_db l list_mesh_peers) any" "yields (kept i j pid f) (on_db l (list_manifests_by_kind k)) any"
  by (rule kept_on_db, drule keeps, simp add: same_tables_def same_engine_def)+

lemma kept_reshare: "yields (kept i j pid f) (reshare_manifest X i m) any"
  unfolding reshare_manifest_def
  by (auto intro!: yields_try yields_seq kept_reads kept_lists kept.ping_peers_any yields_ret_any kept_distribute kept_split)

lemma kept_healing:
  "yields (kept i j pid f) (heal_manifests X i margin) any" "yields (kept i j pid f) (force_reshare_owned X i) any"
  unfolding heal_manifests_def force_reshare_owned_def owned_manifests_def heal_one_def Let_def
  by (auto intro!: yields_seq yields_try yields_for_each [where V = any] kept_reads kept_lists kept_reshare yields_ret_any)

end
