(* ===== verification/Sse.thy ===== *)
theory Sse
  imports Encoding
begin

text \<open>
  The control channel between the orchestrator and its nodes: the frames the \<open>/events\<close> handler of
  \<open>orchestrator/server.go\<close> writes and the reader of \<open>protocol/client.go\<close> (\<open>SubscribeEvents\<close>).
  The lemmas show that the reader recovers the events that were written, and what it makes of a
  stream that breaks off.
\<close>

section \<open>Writer and reader\<close>

definition render_event :: "event \<Rightarrow> string" where
  "render_event ev = ''event: '' @ ev_type ev @ [nl] @ ''data: '' @ json_payload (ev_data ev) @ [nl, nl]"

text \<open>The reader's \<open>bufio.Scanner\<close> has a buffer of at most 1 MiB.\<close>

definition max_line :: nat where "max_line = 1024 * 1024"

definition trim_prefix :: "string \<Rightarrow> string \<Rightarrow> string" where
  "trim_prefix p s = (if prefix p s then drop (length p) s else s)"

text \<open>The loop of the reader: \<open>evType\<close> is the type of the last \<open>event:\<close> line.\<close>

fun read_events :: "string \<Rightarrow> string list \<Rightarrow> (string \<times> string) list" where
  "read_events evType [] = []"
| "read_events evType (line # ls) =
     (if prefix ''event: '' line then read_events (trim_prefix ''event: '' line) ls
      else if prefix ''data: '' line then (evType, trim_prefix ''data: '' line) # read_events evType ls
      else read_events evType ls)"

definition client_events :: "string \<Rightarrow> (string \<times> string) list" where
  "client_events body = read_events [] (scan_lines max_line body)"

section \<open>Lines\<close>

lemma takeWhile_line:
  assumes "nl \<notin> set l" shows "takeWhile (\<lambda>x. x \<noteq> nl) (l @ nl # s) = l" "takeWhile (\<lambda>x. x \<noteq> nl) l = l"
  using assms by (induction l) auto

lemma scan_line:
  "nl \<notin> set l \<Longrightarrow> length l < max_line \<Longrightarrow> scan_lines max_line (l @ nl # s) = drop_cr l # scan_lines max_line s"
  by (subst scan_lines_unfold) (simp_all add: takeWhile_line Let_def)

lemma scan_last:
  "nl \<notin> set l \<Longrightarrow> l \<noteq> [] \<Longrightarrow> length l < max_line \<Longrightarrow> scan_lines max_line l = [drop_cr l]"
  by (subst scan_lines_unfold) (simp_all add: takeWhile_line Let_def)

lemma drop_cr_line: "one_line l \<Longrightarrow> drop_cr l = l"
  by (auto simp: drop_cr_def one_line_def dest: last_in_set)

text \<open>A well-formed event: a type and data that stay on one line and fit the buffer.\<close>

definition frame_ok :: "event \<Rightarrow> bool" where
  "frame_ok ev \<longleftrightarrow> one_line (ev_type ev) \<and> length (ev_type ev) + 7 < max_line \<and>
     length (json_payload (ev_data ev)) + 6 < max_line"

definition shown :: "event \<Rightarrow> string \<times> string" where
  "shown ev = (ev_type ev, json_payload (ev_data ev))"

lemma scan_event:
  assumes "frame_ok ev"
  shows "scan_lines max_line (render_event ev @ s) =
    (''event: '' @ ev_type ev) # (''data: '' @ json_payload (ev_data ev)) # [] # scan_lines max_line s"
proof -
  have t: "one_line (''event: '' @ ev_type ev)" "one_line (''data: '' @ json_payload (ev_data ev))"
    using assms by (simp_all add: frame_ok_def one_line_payload)
  have e: "scan_lines max_line (nl # s) = [] # scan_lines max_line s"
    by (simp add: Let_def max_line_def drop_cr_def)
  have r: "render_event ev @ s = (''event: '' @ ev_type ev) @ nl #
      ((''data: '' @ json_payload (ev_data ev)) @ nl # (nl # s))"
    by (simp add: render_event_def)
  have n: "nl \<notin> set (''event: '' @ ev_type ev)" "nl \<notin> set (''data: '' @ json_payload (ev_data ev))"
    using t unfolding one_line_def by blast+
  have l: "length (''event: '' @ ev_type ev) < max_line" "length (''data: '' @ json_payload (ev_data ev)) < max_line"
    using assms by (simp_all add: frame_ok_def)
  show ?thesis
    unfolding r scan_line [OF n(1) l(1)] scan_line [OF n(2) l(2)] e
    by (simp only: drop_cr_line [OF t(1)] drop_cr_line [OF t(2)])
qed

lemma read_event:
  "read_events t ((''event: '' @ ty) # (''data: '' @ d) # [] # ls) = (ty, d) # read_events ty ls"
  by (simp add: trim_prefix_def)

lemma scan_stream:
  "\<forall>ev \<in> set evs. frame_ok ev \<Longrightarrow>
   read_events t (scan_lines max_line (concat (map render_event evs) @ s)) =
     map shown evs @ read_events (if evs = [] then t else ev_type (last evs)) (scan_lines max_line s)"
proof (induction evs arbitrary: t)
  case (Cons ev evs)
  then show ?case
    using scan_event [of ev "concat (map render_event evs) @ s"] read_event [of t "ev_type ev"]
    by (auto simp: shown_def)
qed simp

section \<open>A stream that breaks off\<close>

lemma one_line_prefix: "one_line l \<Longrightarrow> prefix q l \<Longrightarrow> one_line q"
  by (auto simp: one_line_def dest: set_mono_prefix)

lemma scan_part:
  assumes "one_line l" "length l < max_line" "prefix q l"
  shows "scan_lines max_line q = (if q = [] then [] else [q])"
  using assms scan_last [of q] one_line_prefix [OF assms(1,3)] prefix_length_le [OF assms(3)]
  by (auto simp: drop_cr_line one_line_def)

lemma read_event_part:
  "prefix q (''event: '' @ ty) \<Longrightarrow> read_events t (if q = [] then [] else [q]) = []"
  by (cases q) auto

lemma read_data_part:
  "prefix q (''data: '' @ d) \<Longrightarrow>
   read_events ty (if q = [] then [] else [q]) = [] \<or>
   (\<exists>d'. prefix d' d \<and> read_events ty (if q = [] then [] else [q]) = [(ty, d')])"
proof (cases "prefix ''data: '' q")
  case True
  assume "prefix q (''data: '' @ d)"
  with True obtain d' where "q = ''data: '' @ d'" "prefix d' d" by (auto simp: prefix_def)
  then show ?thesis by (intro disjI2 exI [of _ d']) (simp add: trim_prefix_def)
next
  case False
  assume "prefix q (''data: '' @ d)"
  then have "\<not> prefix ''event: '' q" by (cases q) auto
  with False show ?thesis by simp
qed

lemma prefix_frame:
  assumes "prefix q (A @ nl # B @ [nl, nl])"
  obtains (a) "prefix q A" | (b) vs where "q = A @ nl # vs" "prefix vs B"
    | (c) ws where "q = A @ nl # (B @ nl # ws)" "prefix ws [nl]"
proof (cases "prefix q A")
  case False
  with assms obtain us where us: "q = A @ us" "prefix us (nl # B @ [nl, nl])" by (auto simp: prefix_append)
  with False obtain vs where vs: "us = nl # vs" "prefix vs (B @ [nl, nl])" by (cases us) auto
  show thesis
  proof (cases "prefix vs B")
    case True
    with us(1) vs(1) b show thesis by blast
  next
    case False
    with vs(2) obtain ws where ws: "vs = B @ ws" "prefix ws [nl, nl]" by (auto simp: prefix_append)
    with False obtain ws' where "ws = nl # ws'" "prefix ws' [nl]" by (cases ws) auto
    with us(1) vs(1) ws(1) c show thesis by blast
  qed
qed (rule a)

lemma read_partial_event:
  assumes "frame_ok ev" "prefix q (render_event ev)"
  shows "read_events t (scan_lines max_line q) = [] \<or>
    (\<exists>d. prefix d (json_payload (ev_data ev)) \<and> read_events t (scan_lines max_line q) = [(ev_type ev, d)])"
proof -
  let ?A = "''event: '' @ ev_type ev" and ?B = "''data: '' @ json_payload (ev_data ev)"
  have A: "one_line ?A" "length ?A < max_line" and B: "one_line ?B" "length ?B < max_line"
    using assms(1) by (simp_all add: frame_ok_def one_line_payload)
  have nA: "nl \<notin> set ?A" and nB: "nl \<notin> set ?B" using A(1) B(1) unfolding one_line_def by blast+
  have eA: "read_events t (?A # ls) = read_events (ev_type ev) ls" for ls by (simp add: trim_prefix_def)
  have eB: "read_events (ev_type ev) (?B # ls) = (ev_type ev, json_payload (ev_data ev)) # read_events (ev_type ev) ls"
    for ls by (simp add: trim_prefix_def)
  have "prefix q (?A @ nl # ?B @ [nl, nl])" using assms(2) by (simp add: render_event_def)
  then consider (a) "prefix q ?A" | (b) vs where "q = ?A @ nl # vs" "prefix vs ?B"
    | (c) ws where "q = ?A @ nl # (?B @ nl # ws)" "prefix ws [nl]"
    by (rule prefix_frame)
  then show ?thesis
  proof cases
    case a
    then show ?thesis using scan_part [OF A a] read_event_part [OF a] by simp
  next
    case (b vs)
    have "scan_lines max_line q = ?A # scan_lines max_line vs"
      unfolding b(1) scan_line [OF nA A(2)] drop_cr_line [OF A(1)] ..
    then have "read_events t (scan_lines max_line q) = read_events (ev_type ev) (if vs = [] then [] else [vs])"
      by (simp only: eA scan_part [OF B b(2)])
    then show ?thesis using read_data_part [OF b(2), of "ev_type ev"] by (simp only:)
  next
    case (c ws)
    then have "ws = [] \<or> ws = [nl]" by (auto simp: prefix_Cons)
    then have "read_events (ev_type ev) (scan_lines max_line ws) = []"
      by (auto simp: Let_def max_line_def drop_cr_def)
    moreover have "scan_lines max_line q = ?A # ?B # scan_lines max_line ws"
      unfolding c(1) scan_line [OF nA A(2)] scan_line [OF nB B(2)] drop_cr_line [OF A(1)] drop_cr_line [OF B(1)] ..
    ultimately have "read_events t (scan_lines max_line q) = [(ev_type ev, json_payload (ev_data ev))]"
      by (simp only: eA eB)
    then show ?thesis by blast
  qed
qed

lemma prefix_of_stream:
  "prefix p (concat (map f xs)) \<Longrightarrow>
   \<exists>k q. k \<le> length xs \<and> p = concat (map f (take k xs)) @ q \<and> (q = [] \<or> k < length xs \<and> prefix q (f (xs ! k)))"
proof (induction xs arbitrary: p)
  case (Cons x xs)
  then consider "prefix p (f x)" | us where "p = f x @ us" "prefix us (concat (map f xs))"
    by (auto simp: prefix_append)
  then show ?case
  proof cases
    case 1
    then show ?thesis by (intro exI [of _ 0] exI [of _ p]) simp
  next
    case (2 us)
    from Cons.IH [OF 2(2)] obtain k q where "k \<le> length xs" "us = concat (map f (take k xs)) @ q"
      "q = [] \<or> k < length xs \<and> prefix q (f (xs ! k))" by blast
    then show ?thesis using 2(1) by (intro exI [of _ "Suc k"] exI [of _ q]) simp
  qed
qed simp

section \<open>Properties\<close>

text \<open>C28: The reader of the event stream recovers exactly the types and the JSON data of the events the
  handler wrote, in order, for events whose lines fit the scanner's buffer.\<close>

theorem event_stream_roundtrip:
  assumes "\<forall>ev \<in> set evs. frame_ok ev"
  shows "client_events (concat (map render_event evs)) = map (\<lambda>ev. (ev_type ev, json_payload (ev_data ev))) evs"
  using scan_stream [OF assms, of "[]" "[]"] by (simp add: client_events_def shown_def)

definition sample_event :: event where
  "sample_event = must_event ''map_delta'' (DeltaData \<lparr>md_epoch = 0, md_changes = []\<rparr>)"

lemma json_char_length: "length (json_char c) \<le> 6"
  by (simp add: json_char_def hex4_def)

lemma json_string_length: "length (json_string s) \<le> 6 * length s + 2"
proof (induction s)
  case (Cons c s)
  then show ?case using json_char_length [of c] by (simp add: json_string_def)
qed (simp add: json_string_def)

lemma sample_event_ok: "frame_ok sample_event"
proof -
  have "length (json_delta \<lparr>md_epoch = 0, md_changes = []\<rparr>) \<le> 100"
    using json_string_length [of "''epoch''"] json_string_length [of "''changes''"]
    by (simp add: json_delta_def json_object_def dec.simps [of 0])
  then show ?thesis by (simp add: frame_ok_def sample_event_def must_event_def max_line_def json_payload_def)
qed

theorem event_stream_roundtrip_witness:
  "client_events (concat (map render_event [sample_event, sample_event])) =
    map (\<lambda>ev. (ev_type ev, json_payload (ev_data ev))) [sample_event, sample_event]"
  by (rule event_stream_roundtrip) (simp add: sample_event_ok)

text \<open>C29: Where the connection breaks off, at any byte, the reader delivers a prefix of the events, plus
  possibly one event of the right type whose data is cut short: the scanner hands out an
  unfinished last line, and only the JSON decoder of the handler can reject it.\<close>

theorem broken_stream_prefix:
  assumes "\<forall>ev \<in> set evs. frame_ok ev" "prefix body (concat (map render_event evs))"
  shows "\<exists>k \<le> length evs. client_events body = map shown (take k evs) \<or>
    (k < length evs \<and> (\<exists>d. prefix d (json_payload (ev_data (evs ! k))) \<and>
       client_events body = map shown (take k evs) @ [(ev_type (evs ! k), d)]))"
proof -
  from prefix_of_stream [OF assms(2)] obtain k q where k: "k \<le> length evs"
    "body = concat (map render_event (take k evs)) @ q"
    "q = [] \<or> k < length evs \<and> prefix q (render_event (evs ! k))" by blast
  have "\<forall>ev \<in> set (take k evs). frame_ok ev" using assms(1) by (auto dest: in_set_takeD)
  note st = scan_stream [OF this, of "[]" q]
  show ?thesis
  proof (cases "q = []")
    case True
    with st k show ?thesis by (intro exI [of _ k]) (simp add: client_events_def)
  next
    case False
    with k(3) have "k < length evs" "prefix q (render_event (evs ! k))" by auto
    with assms(1) read_partial_event [of "evs ! k" q] st k(1,2) show ?thesis
      by (intro exI [of _ k]) (auto simp: client_events_def)
  qed
qed

theorem broken_stream_prefix_witness:
  "\<exists>k \<le> length [sample_event]. client_events (take 20 (render_event sample_event)) = map shown (take k [sample_event]) \<or>
    (k < length [sample_event] \<and> (\<exists>d. prefix d (json_payload (ev_data ([sample_event] ! k))) \<and>
       client_events (take 20 (render_event sample_event)) =
         map shown (take k [sample_event]) @ [(ev_type ([sample_event] ! k), d)]))"
  by (rule broken_stream_prefix) (simp_all add: sample_event_ok take_is_prefix)

end
