(* ===== verification/Spec2Isabelle.thy ===== *)
theory Spec2Isabelle
  imports Cycles Races Offsite Startup Reshare Sse
begin

text \<open>
  \<^bold>\<open>Mutant-DB.\<close> The program splits a secret into Shamir shares, hands them to nodes that keep each
  share under a key, a ciphertext and a pseudonym of its own, and has the nodes change all three on a
  timer of the orchestrator (scheduled mutations) or on an alarm of their own (cold mutations, along
  a hash chain). A node that owns a secret can fetch enough shares to recombine it, and deals it
  anew when holders disappear or an incident is confirmed.

  \<^bold>\<open>The parts and their theories.\<close> Every definition has the name of the Go function it models, in
  snake case where Isabelle needs it; \<open>(T, error)\<close> results are values of \<open>goerr + 'a\<close> (\<open>Prelude\<close>).

  \<^item> \<open>Gf256\<close>, \<open>Interpolation\<close>, \<open>Shamir\<close>: \<open>crypto/gf256.go\<close> and \<open>crypto/shamir.go\<close>. The tables are shown
    to compute in a field type \<open>gf\<close>; the locale \<open>secret_sharing\<close> states what a sharing scheme promises
    (recovery from any threshold, refusal of duplicates) and is interpreted on \<open>Split\<close> and \<open>Combine\<close>.
  \<^item> \<open>Stdlib_Crypto\<close>: SHA-256, HMAC, AES-GCM and hex of Go's standard library, from their standards.
    \<open>Keys\<close>: \<open>crypto/aead.go\<close>, \<open>crypto/ratchet.go\<close>, \<open>crypto/wipe.go\<close>. \<open>HashChain\<close>: \<open>crypto/hashchain.go\<close> and the
    cold chain of \<open>client/node.go\<close>. \<open>Seal\<close>: \<open>crypto/seal.go\<close> over a disk whose operations may fail.
  \<^item> \<open>Store\<close>: \<open>store/store.go\<close>. Tables are lists of rows; any statement may fail, rows come in any
    order and a delivery may break off. The well-formedness \<open>db_wf\<close> (unique keys, readable rows) is kept by
    every method, and each table refines a map.
  \<^item> \<open>Messages\<close>, \<open>Encoding\<close>, \<open>Sse\<close>: the structs of \<open>protocol\<close> and \<open>peer\<close>, the JSON and decimal texts the
    server writes, and the event stream between \<open>orchestrator/server.go\<close> and \<open>protocol/client.go\<close>.
  \<^item> \<open>Orchestrator\<close>: \<open>orchestrator/orchestrator.go\<close>, \<open>event.go\<close> and \<open>server.go\<close>; each critical section of
    the mutex is one step, channels are bounded queues that may be closed.
  \<^item> \<open>Mesh\<close>: \<open>mesh/wireguard.go\<close>. \<open>Watchdog\<close>: the detectors of every platform and the scoring of
    \<open>client/watchdog.go\<close>.
  \<^item> \<open>Node\<close>: the world. A \<open>world\<close> holds all nodes (identity, root secret, database, cold chains, watchdog,
    randomness), the orchestrator, who answers at which URL, and the fate and the time of every HTTP
    call. Operations have the type \<open>'a act\<close>, from a world to a result and a world; a call to a peer runs the
    peer's handler (\<open>client/peerserver.go\<close>, \<open>peer/client.go\<close>) in the world of the caller.
  \<^item> \<open>Mutation\<close>, \<open>Sharing\<close>, \<open>Healing\<close>: \<open>client/node.go\<close>, \<open>heartbeat.go\<close>, \<open>util.go\<close>; \<open>split.go\<close>, \<open>backup.go\<close>,
    \<open>reconstruct.go\<close>; \<open>selfheal.go\<close> and the reactions of \<open>watchdog.go\<close>.
  \<^item> \<open>Phases\<close>: the two mutations of \<open>client/node.go\<close>, the handler of a mutation notice of
    \<open>client/peerserver.go\<close> and the healing cycle and forced reshare of \<open>client/selfheal.go\<close> once more, as the
    sequence of their accesses to shared state (\<open>phase_step\<close>).
  \<^item> \<open>Overlap\<close>: the system in which any number of them is in flight while everything else goes on
    (\<open>overlap_step\<close>, \<open>overlap_run\<close>).
  \<^item> \<open>Cycles\<close>: the loops of \<open>RunHeartbeats\<close>, \<open>SelfHeal\<close> and \<open>Watchdog.Run\<close>, the event loop of \<open>Start\<close>, and
    \<open>RunScheduledMutations\<close> with the set-up in \<open>cmd/orchestrator/main.go\<close>.
  \<^item> \<open>Startup\<close>, \<open>Console\<close>: \<open>cmd/client/main.go\<close>, its start and its command line.

  \<^bold>\<open>The lemmas.\<close> \<open>Custody\<close> and \<open>World\<close> give the whole system as a transition system (\<open>world_step\<close>,
  \<open>world_run\<close>) in which any node may run any operation, any call may be lost in either direction, and
  outsiders may send any request. The locales \<open>messaging\<close>, \<open>holding\<close> and \<open>custody\<close> state what an invariant
  must withstand, once, and carry it through every operation; they are interpreted for the
  well-formedness of all databases, for the custody of one group's shares, for the groups in the
  tables, for the random tapes, for valid thresholds (\<open>Panics\<close>) and for the keys of a running node
  (\<open>Startup\<close>). \<open>Panics\<close> shows which operations cannot panic and which cycles report no error.
  \<open>Progress\<close> is about total correctness: \<open>returns P m Q\<close> says that \<open>m\<close> succeeds from every world with \<open>P\<close>; with
  it \<open>Split\<close>, \<open>Reconstruct\<close> and healing are shown to succeed in a world without faults, and in \<open>Offsite\<close>
  backups and their healing. \<open>Exchange\<close> is about mutations and the messages between peers, \<open>Reshare\<close> about
  what a reshare leaves behind. \<open>Phases\<close> shows that the phases compose to the atomic operations,
  \<open>Overlap\<close> that every custody invariant holds between the phases too, and \<open>Races\<close> which races the code
  has: a fragment may fork, a notice may be lost, the old manifest or the old data of a name may come
  back over a new version. \<open>Cycles\<close> shows that the loops never stop by themselves. The properties of a single
  part stand at the end of its theory; the ones that span parts stand here, over the small worlds of
  \<open>Samples\<close> for their witnesses.

  \<^bold>\<open>Bounds and termination.\<close> No definition has fuel: every loop of the source runs over a list the
  function is given or counts down, and is structural recursion here or has a measure. The loops
  that never end by design (tickers, event streams, the scheduler) run over the list of what their
  \<open>select\<close> finds, of any length, with any run of the system before each; the phases of an operation descend
  in a measure (\<open>stage\<close>, \<open>to_do\<close>). Integers keep their width: bytes are \<open>8 word\<close>, epochs \<open>64 word\<close>; Go's \<open>int\<close> is \<open>int\<close>
  where the code checks its range (thresholds, totals, \<open>strconv.Atoi\<close>); the sum of two durations wraps at
  64 bits.

  \<^bold>\<open>Third-party code\<close> is the parameter \<open>packages\<close>: HKDF, scrypt and X25519 of \<open>golang.org/x/crypto\<close>. Where
  a theorem needs that HKDF delivers the bytes asked for, it says so (\<open>hkdf_law\<close>, which the instance
  \<open>sample_packages\<close> satisfies).

  \<^bold>\<open>Panics.\<close> A panic is the result \<open>Inl (Panic msg)\<close> and passes every caller by, except an HTTP server, which
  recovers it; wherever it comes out it stands for the end of the process.

  \<^bold>\<open>Not modelled.\<close> The SQL engine and HTTP transport beyond their failures; malformed UTF-8 in JSON;
  request paths whose wildcards need escaping; the effect of \<open>Wipe\<close> on memory no longer reachable;
  flag parsing, signals, listeners and logging, hence the rest of \<open>cmd/orchestrator/main.go\<close>. Of operations
  that overlap in time: a split, a backup, a reconstruction, a probe of the members and the handlers
  of deliveries and fetches are one step each, also where a healing cycle calls them, and the forced
  reshare of a reaction follows its mutations.
  The races inside the orchestrator are modelled, since its critical sections are separate steps.
\<close>

section \<open>Secrets survive\<close>

text \<open>C1: In a world without faults, \<open>Split\<close> with valid parameters and enough reachable peers
  succeeds, and afterwards \<open>Reconstruct\<close> returns exactly the data that was split, whichever peers
  have disappeared, as long as the members of the manifest that still answer reach the threshold.\<close>

theorem split_survives_departures:
  assumes "hkdf_law X" "2 \<le> t" "t \<le> n" "n \<le> 255" "data \<noteq> []"
    "faultless A N w" "nodes_wf w" "n_id (w_nodes w i) = self"
    "n - 1 \<le> int (length (live_peers A self (node_infos N)))" "spread A N i self"
    "\<And>j. split_group_id i data w \<notin> r_group ` set (frag_table (n_db (w_nodes w j)))"
  shows "\<exists>w1. split_op X i name data t n w = (Inr (), w1) \<and> recoverable i self name data t n A w1"
proof -
  from split_returns [OF assms, where name = name] obtain w1 tok P m shares e e' where
    w1: "split_op X i name data t n w = (Inr (), w1)" "nodes_wf w1" "split_secret data n t e = (Inr shares, e')"
    "ready A N i self (split_group_id i data w) tok P w1" "manifests_of (n_db (w_nodes w1 i)) name = Some m"
    "dealt ''secret'' A i self (n_endpoint (w_nodes w i)) (split_group_id i data w) tok t n name P shares m" by blast
  from dealt_recoverable [OF w1(4,2,5,3,6)] w1(1) show ?thesis by blast
qed

theorem split_survives_departures_witness:
  "\<exists>w1 w2. split_op sample_packages 0 ''s'' [7] 2 2 two_nodes = (Inr (), w1) \<and>
    reconstruct 0 ''s'' (w1\<lparr>w_addr := w_addr two_nodes\<rparr>) = (Inr [7], w2)"
proof -
  have "\<exists>w1. split_op sample_packages 0 ''s'' [7] 2 2 two_nodes = (Inr (), w1) \<and>
      recoverable 0 ''a'' ''s'' [7] 2 2 (w_addr two_nodes) w1"
    by (rule split_survives_departures [OF sample_packages_laws(1) _ _ _ _ two_nodes_faultless two_nodes_nodes(4,3) _
        two_nodes_spread two_nodes_unused]) (simp_all add: two_nodes_peers)
  then obtain w1 m where w1: "split_op sample_packages 0 ''s'' [7] 2 2 two_nodes = (Inr (), w1)"
    "manifests_of (n_db (w_nodes w1 0)) ''s'' = Some m"
    "length (mf_members m) = nat 2" "list_all (answering (w_addr two_nodes) ''a'') (mf_members m)"
    "\<forall>A'. A' \<subseteq>\<^sub>m w_addr two_nodes \<longrightarrow> 2 \<le> int (length (filter (answering A' ''a'') (mf_members m))) \<longrightarrow>
       (\<exists>w2. reconstruct 0 ''s'' (w1\<lparr>w_addr := A'\<rparr>) = (Inr [7], w2))" unfolding recoverable_def by blast
  moreover have "filter (answering (w_addr two_nodes) ''a'') (mf_members m) = mf_members m"
    using w1(4) by (simp add: list_all_iff)
  ultimately show ?thesis using spec [OF w1(5), of "w_addr two_nodes"] by auto
qed



text \<open>C6: Every database stays well formed, unique keys and readable rows, through any run of the whole
  system, overlapping operations included, whatever outsiders deliver and whatever fails.\<close>

theorem databases_stay_readable:
  assumes "overlap_run X allowed (ts, w) (ts', w')" "\<And>i. db_wf (n_db (w_nodes w i))" "sane ts"
  shows "db_wf (n_db (w_nodes w' i))"
proof -
  have "nodes_wf w" using assms(2) by (simp add: nodes_wf_def)
  then have "nodes_wf w'" using assms(3) by (rule wf_overlap [OF assms(1)])
  then show ?thesis by (rule nodes_wf_db)
qed

theorem databases_stay_readable_witness:
  "db_wf (n_db (w_nodes (snd (add_mesh_peer 0 ''m'' ''e'' ''k'' two_nodes)) 0))"
proof (rule databases_stay_readable)
  show "overlap_run sample_packages (\<lambda>_. True) ([], two_nodes) ([], snd (add_mesh_peer 0 ''m'' ''e'' ''k'' two_nodes))"
    by (rule world_run_overlap, rule world_run.onward [OF world_run.here], rule world_step.meshes)
      (rule prod.collapse [symmetric])
qed (simp_all add: two_nodes_nodes empty_db_wf)

section \<open>Self-healing\<close>



text \<open>C10: Healing and the forced reshare of a confirmed incident take no share out of the world: every
  fragment any node stores under a pseudonym that is not drawn again is still stored as it was,
  key, token and ciphertext included. The shares of the split that was replaced stay where they
  were, are handed out for the old token, and any threshold of them still gives the secret.\<close>

theorem reshare_leaves_old_shares:
  assumes "frags_of (n_db (w_nodes w j)) pid = Some f" "\<And>k. draws (n_entropy (w_nodes w i)) \<le> k \<Longrightarrow> drawn_id w i k \<noteq> pid"
    "heal_manifests X i margin w = (r, w1)" "force_reshare_owned X i w1 = (r', w2)"
  shows "frags_of (n_db (w_nodes w2 j)) pid = Some f"
proof -
  have "kept i j pid f w" using assms(1,2) by (simp add: kept_def)
  then have "kept i j pid f w1" using assms(3) by (rule yieldsD(1) [OF kept_healing(1)])
  then have "kept i j pid f w2" using assms(4) by (rule yieldsD(1) [OF kept_healing(2)])
  then show ?thesis by (simp add: kept_def)
qed

theorem reshare_leaves_old_shares_witness:
  "\<exists>f r w1 r' w2. frags_of (n_db (w_nodes holder_world 0)) ''p'' = Some f \<and> heal_manifests sample_packages 0 1 holder_world = (r, w1) \<and>
    force_reshare_owned sample_packages 0 w1 = (r', w2) \<and> frags_of (n_db (w_nodes w2 0)) ''p'' = Some f"
proof -
  have "\<exists>f. frags_of (n_db (w_nodes holder_world 0)) ''p'' = Some f"
    using scan_row_p by (simp add: holder_world_def new_node_def frags_of_def row_at_def empty_db_def readable_def)
      (simp add: row_p_def)
  then obtain f where f: "frags_of (n_db (w_nodes holder_world 0)) ''p'' = Some f" by blast
  have fresh: "drawn_id holder_world 0 k \<noteq> ''p''" for k
  proof
    assume "drawn_id holder_world 0 k = ''p''"
    then have "length (drawn_id holder_world 0 k) = length ''p''" by (rule arg_cong)
    then show False by (simp add: drawn_id_def)
  qed
  obtain r w1 where w1: "heal_manifests sample_packages 0 1 holder_world = (r, w1)" by force
  obtain r' w2 where w2: "force_reshare_owned sample_packages 0 w1 = (r', w2)" by force
  from reshare_leaves_old_shares [OF f fresh w1 w2] f w1 w2 show ?thesis by blast
qed

section \<open>The command line\<close>

text \<open>C8: A session at the command line moves the nodes only by steps of the system, so every invariant
  of its runs survives the session, it changes no file of the user but the outputs its
  \<open>reconstruct\<close> lines name, and where the stored thresholds are valid it does not end in a panic.\<close>

theorem session_is_tame:
  assumes "repl X i lines h = (as, en, h')"
  shows "world_run X allowed (h_world h) (h_world h') \<and>
    (\<forall>p. h_files h' p = h_files h p \<or>
       (\<exists>line \<in> set lines. \<exists>name. split_fields line = [''reconstruct'', name, p])) \<and>
    (thresholds_ok (h_world h) \<longrightarrow> en \<noteq> Down)"
proof -
  have "tame X allowed (outputs lines) h h'" by (rule repl_tame [OF assms])
  moreover have "\<exists>line \<in> set lines. \<exists>name. split_fields line = [''reconstruct'', name, p]" if out: "p \<in> outputs lines" for p
  proof -
    obtain line where line: "line \<in> set lines" "p \<in> output_of (split_fields line)" using out by (auto simp: outputs_def)
    moreover obtain c name q where "split_fields line = [c, name, q]"
      using line(2) by (auto simp: output_of_def length_Suc_conv eval_nat_numeral split: if_splits)
    ultimately show ?thesis by (auto simp: output_of_def split: if_splits)
  qed
  ultimately show ?thesis using session_stays_up [OF assms] by (auto simp: tame_def)
qed

theorem session_is_tame_witness:
  "\<exists>as en h'. repl sample_packages 0 [''heal-now''] two_hosts = (as, en, h') \<and>
    world_run sample_packages (\<lambda>_. False) two_nodes (h_world h') \<and> h_files h' ''f'' = Some [7] \<and> en \<noteq> Down"
proof -
  obtain as en h' where h': "repl sample_packages 0 [''heal-now''] two_hosts = (as, en, h')" by (metis prod_cases3)
  have "split_fields ''heal-now'' = [''heal-now'']" by (simp add: split_fields.simps is_space_def)
  with session_is_tame [OF h', of "\<lambda>_. False"] h' two_nodes_thresholds show ?thesis by (auto simp: two_hosts_def)
qed

text \<open>C7: In a world without faults, a \<open>store\<close> line with valid parameters followed by a
  \<open>reconstruct\<close> line leaves in the output file exactly the bytes of the stored file, and both report success.\<close>

theorem store_then_reconstruct:
  assumes "hkdf_law X" "2 \<le> t" "t \<le> n" "n \<le> 255" "data \<noteq> []"
    and w: "faultless A N (h_world h)" "nodes_wf (h_world h)" "n_id (w_nodes (h_world h) i) = self"
      "n - 1 \<le> int (length (live_peers A self (node_infos N)))" "spread A N i self"
      "\<And>j. split_group_id i data (h_world h) \<notin> r_group ` set (frag_table (n_db (w_nodes (h_world h) j)))"
    and line1: "split_fields line1 = [''store'', name, file, ts, ns]" "atoi ts = Some t" "atoi ns = Some n" "host_read h file = Inr data"
    and line2: "split_fields line2 = [''reconstruct'', name, out]" "h_write_fault h out = None"
  shows "\<exists>h'. repl X i [line1, line2] h = ([Stored name n t, Rebuilt name out (length data)], InputClosed, h') \<and>
    h_files h' = (h_files h)(out \<mapsto> data)"
proof -
  from split_returns [OF assms(1-5) w, where name = name] obtain w1 tok P m shares e e' where
    w1: "split_op X i name data t n (h_world h) = (Inr (), w1)" "nodes_wf w1" "split_secret data n t e = (Inr shares, e')"
    "ready A N i self (split_group_id i data (h_world h)) tok P w1" "manifests_of (n_db (w_nodes w1 i)) name = Some m"
    "dealt ''secret'' A i self (n_endpoint (w_nodes (h_world h) i)) (split_group_id i data (h_world h)) tok t n name P shares m" by blast
  have "w1\<lparr>w_addr := A\<rparr> = w1" using w1(4) by (auto simp: ready_def faultless_def)
  then obtain w2 where w2: "reconstruct i name w1 = (Inr data, w2)"
    using recoverable_now [OF dealt_recoverable [OF w1(4,2,5,3,6)]] assms(2,3) by auto
  let ?h1 = "h\<lparr>h_world := w1\<rparr>"
  have "h_write_fault ?h1 out = None" "reconstruct i name (h_world ?h1) = (Inr data, w2)" using line2(2) w2 by simp_all
  from repl_line [OF line2(1) _ _ reconstruct_line [OF this(2,1)] _ repl.simps(1)]
  have "repl X i [line2] ?h1 = ([Rebuilt name out (length data)], InputClosed,
      ?h1\<lparr>h_world := w2, h_files := (h_files ?h1)(out \<mapsto> data)\<rparr>)" by simp
  from repl_line [OF line1(1) _ _ store_line [OF line1(4,2,3) w1(1)] _ this] show ?thesis by simp
qed

theorem store_then_reconstruct_witness:
  "\<exists>h'. repl sample_packages 0 [''store s f 2 2'', ''reconstruct s g''] two_hosts =
      ([Stored ''s'' 2 2, Rebuilt ''s'' ''g'' (length [7 :: byte])], InputClosed, h') \<and>
    h_files h' = (h_files two_hosts)(''g'' \<mapsto> [7])"
proof -
  have w: "h_world two_hosts = two_nodes" by (simp add: two_hosts_def)
  have fields: "split_fields ''store s f 2 2'' = [''store'', ''s'', ''f'', ''2'', ''2'']"
    "split_fields ''reconstruct s g'' = [''reconstruct'', ''s'', ''g'']"
    by (simp_all add: split_fields.simps is_space_def)
  have files: "host_read two_hosts ''f'' = Inr [7]" "h_write_fault two_hosts ''g'' = None"
    by (simp_all add: two_hosts_def host_read_def)
  have two: "atoi ''2'' = Some 2" by code_simp
  have "2 - 1 \<le> int (length (live_peers (w_addr two_nodes) ''a'' (node_infos (o_nodes (w_orch two_nodes)))))"
    by (simp add: two_nodes_peers)
  from store_then_reconstruct [OF sample_packages_laws(1) _ _ _ _ _ _ _ this two_nodes_spread _ fields(1) two two files(1) fields(2) files(2),
      unfolded w, OF _ _ _ _ two_nodes_faultless two_nodes_nodes(4,3) two_nodes_unused]
  show ?thesis by simp
qed

section \<open>Nodes stay up\<close>

text \<open>C9: In every world the system can reach, overlapping operations included, from one whose manifests carry
  thresholds that \<open>Split\<close> accepts, the background loops of a node run for as long as they are ticked and
  the system does whatever it can in between: self-healing, the watchdog with its reactions, the
  heartbeats and the handling of events neither stop at an error, whatever fails, nor bring the
  process down by a panic, given that the interval of the ticker is positive.\<close>

theorem cycles_complete:
  assumes "overlap_run X allowed (ts, w0) (ts', w)" "thresholds_ok w0" "sane ts" "0 < interval"
    "meanwhile_runs X allowed heals" "meanwhile_runs X allowed checks" "meanwhile_runs X allowed beats" "meanwhile_runs X allowed evs"
  shows "(\<exists>w'. self_heal X i interval margin heals w = (Inr (), w')) \<and>
    (\<exists>w'. watchdog_run X i interval checks w = (Inr (), w')) \<and>
    (\<exists>w'. run_heartbeats i interval beats w = (Inr (), w')) \<and> (\<exists>w'. event_loop X i evs w = (Inr (), w'))"
proof (intro conjI)
  have w: "thresholds_ok w" using valid_overlap [OF assms(1-3)] by blast
  have s: "steady (send_heartbeats i)" "steady (handle_event X i ev)" for ev
    by (rule steady_calm [OF calm_heartbeats valid.heartbeats_any] steady_calm [OF calm_event valid.handle_event_any])+
  show "\<exists>w'. self_heal X i interval margin heals w = (Inr (), w')" unfolding self_heal_def
    by (rule loop_runs [OF _ _ w assms(5,4)]) (simp_all add: silent_cycles healing_steady)
  show "\<exists>w'. watchdog_run X i interval checks w = (Inr (), w')" unfolding watchdog_run_def
    by (rule loop_runs [OF _ _ w assms(6,4)]) (simp_all add: silent_watchdog watchdog_steady split: prod.split)
  show "\<exists>w'. run_heartbeats i interval beats w = (Inr (), w')" unfolding run_heartbeats_def
    by (rule loop_runs [OF _ _ w assms(7,4)]) (simp_all add: silent_cycles s)
  have "\<exists>w'. ticker_loop (handle_event X i) evs w = (Inr (), w') \<and> thresholds_ok w'"
    by (rule ticker_runs [OF _ _ w assms(8)]) (simp_all add: silent_cycles s)
  then show "\<exists>w'. event_loop X i evs w = (Inr (), w')" unfolding event_loop_def by blast
qed

theorem cycles_complete_witness:
  "\<exists>w w'. split_op sample_packages 0 ''s'' [7] 2 3 four_nodes = (Inr (), w) \<and>
    self_heal sample_packages 0 30 1 [(\<lambda>w. w, Some ()), (\<lambda>w. w, Some ()), (\<lambda>w. w, None)] w = (Inr (), w')"
proof -
  from four_nodes_split obtain w where w: "split_op sample_packages 0 ''s'' [7] 2 3 four_nodes = (Inr (), w)" by blast
  then have "world_run sample_packages (\<lambda>_. False) four_nodes w" by (rule world_run_step [OF world_step.splits])
  then have r: "overlap_run sample_packages (\<lambda>_. False) ([], four_nodes) ([], w)" by (rule world_run_overlap)
  have m: "meanwhile_runs sample_packages (\<lambda>_. False) (map (Pair (\<lambda>w. w)) cs)" for cs :: "'x option list"
    by (induction cs) (auto simp: meanwhile_runs_def intro!: exI [of _ "[]"] overlap_run.still)
  from cycles_complete [OF r four_nodes_thresholds flight_none _ m [of "[Some (), Some (), None]"] m [of "[]"] m [of "[]"] m [of "[]"],
    where interval = 30 and i = 0 and margin = 1] w show ?thesis by auto
qed



end
